(* ===== verification/Prelude.thy ===== *)
theory Prelude
  imports Main "HOL-Library.Word"
begin

unbundle bit_operations_syntax

text \<open>
  Shared vocabulary of the development. Go's \<^verbatim>\<open>byte\<close>, \<^verbatim>\<open>uint16\<close>, \<^verbatim>\<open>uint32\<close>
  and \<^verbatim>\<open>uint64\<close> are words of that width, so every addition wraps as in Go. A Go
  \<^verbatim>\<open>string\<close> is a byte sequence: it is modelled by the HOL type \<open>string\<close> (a character is
  one of 256 bytes), and the source's conversions \<^verbatim>\<open>[]byte(s)\<close> and \<^verbatim>\<open>string(b)\<close> are
  \<open>str_bytes\<close> and \<open>bytes_str\<close>. \<open>be_bytes\<close> and \<open>be_word\<close> model
  \<^verbatim>\<open>binary.BigEndian.PutUintN\<close> and \<^verbatim>\<open>binary.BigEndian.UintN\<close>. An operation that
  returns an error returns a value of \<open>'e + 'a\<close>, with \<open>Inl\<close> the error.

  The collections: \<open>codec\<close> holds the rewrite rules of byte codecs, \<open>frame\<close> the facts
  that say which part of a state an operation leaves alone, \<open>inv_intro\<close> the facts that an
  operation keeps an invariant.
\<close>

named_theorems codec \<open>rewrite rules of the byte codecs\<close>
named_theorems frame \<open>the parts of a state that an operation leaves unchanged\<close>
named_theorems inv_intro \<open>operations keep the invariants\<close>

type_synonym byte = "8 word"
type_synonym bytes = "byte list"
type_synonym u16 = "16 word"
type_synonym u32 = "32 word"
type_synonym u64 = "64 word"

subsection \<open>Strings and byte slices\<close>

definition str_bytes :: "string \<Rightarrow> bytes" where
  "str_bytes s = map (\<lambda>c. of_char c) s"

definition bytes_str :: "bytes \<Rightarrow> string" where
  "bytes_str b = map (\<lambda>w. char_of (unat w)) b"

subsection \<open>Big-endian words\<close>

primrec be_bytes :: "nat \<Rightarrow> 'a::len word \<Rightarrow> bytes" where
  "be_bytes 0 w = []"
| "be_bytes (Suc n) w = ucast (drop_bit (8 * n) w) # be_bytes n w"

primrec be_acc :: "'a::len word \<Rightarrow> bytes \<Rightarrow> 'a word" where
  "be_acc a [] = a"
| "be_acc a (b # bs) = be_acc (push_bit 8 a OR ucast b) bs"

definition be_word :: "bytes \<Rightarrow> 'a::len word" where
  "be_word bs = be_acc 0 bs"

subsection \<open>Lemmas on strings\<close>

lemma unat_of_char_byte: "unat (of_char c :: byte) = of_char c"
  by (cases c) (simp add: of_char_def unat_word_ariths take_bit_eq_mod flip: take_bit_eq_mod)

lemma char_byte_inverse: "char_of (unat (of_char c :: byte)) = c"
  by (simp add: unat_of_char_byte)

lemma unat_byte_less: "unat (w :: byte) < 256"
  using unsigned_less [of w, where ?'a = nat] by simp

text \<open>A property of all bytes, by evaluation at the 256 of them.\<close>

lemma byte_all: "list_all (\<lambda>n. P (of_nat n :: byte)) [0..<256] \<Longrightarrow> P a"
  using unat_byte_less [of a] by (auto simp: list_all_iff dest: bspec [of _ _ "unat a"])

lemma byte_char_inverse: "(of_char (char_of (unat w)) :: byte) = w"
  by (rule unsigned_word_eqI [where ?'a = nat])
    (use unat_byte_less [of w] in \<open>simp add: unat_of_char_byte\<close>)

lemma bytes_str_bytes [simp, codec]: "bytes_str (str_bytes s) = s"
  by (simp add: bytes_str_def str_bytes_def comp_def char_byte_inverse)

lemma str_bytes_str [simp, codec]: "str_bytes (bytes_str b) = b"
  by (simp add: bytes_str_def str_bytes_def comp_def byte_char_inverse)

lemma length_str_bytes [simp]: "length (str_bytes s) = length s"
  by (simp add: str_bytes_def)

lemma length_bytes_str [simp]: "length (bytes_str b) = length b"
  by (simp add: bytes_str_def)

lemma str_bytes_append [simp]: "str_bytes (s @ t) = str_bytes s @ str_bytes t"
  by (simp add: str_bytes_def)

lemma bytes_str_eq_Nil [simp]: "bytes_str b = [] \<longleftrightarrow> b = []"
  by (simp add: bytes_str_def)

lemma str_bytes_inj [simp]: "str_bytes s = str_bytes t \<longleftrightarrow> s = t"
  by (metis bytes_str_bytes)

lemma str_bytes_eq_iff: "str_bytes s = b \<longleftrightarrow> s = bytes_str b"
  by auto

lemma take_str_bytes: "take n (str_bytes s) = str_bytes (take n s)"
  by (simp add: str_bytes_def take_map)

subsection \<open>Lemmas on big-endian words\<close>

lemma length_be_bytes [simp]: "length (be_bytes n w) = n"
  by (induction n) simp_all

lemma be_acc_be_bytes:
  "be_acc a (be_bytes n w) = push_bit (8 * n) a OR take_bit (8 * n) w"
proof (induction n arbitrary: a)
  case 0
  then show ?case by simp
next
  case (Suc n)
  have "push_bit (8 * n) (push_bit 8 a OR ucast (ucast (drop_bit (8 * n) w) :: byte))
      OR take_bit (8 * n) w = push_bit (8 * Suc n) a OR take_bit (8 * Suc n) w"
    by (rule bit_word_eqI)
      (auto simp: bit_or_iff bit_push_bit_iff bit_take_bit_iff bit_drop_bit_eq bit_ucast_iff
        add.commute [of 8] dest: bit_imp_le_length)
  then show ?case by (simp add: Suc.IH)
qed

lemma be_word_be_bytes [codec]:
  "LENGTH('a) \<le> 8 * n \<Longrightarrow> be_word (be_bytes n (w :: 'a::len word)) = w"
  by (simp add: be_word_def be_acc_be_bytes take_bit_word_eq_self)

lemma be_bytes_be_acc:
  fixes a :: "'a::len word"
  assumes "n \<le> length bs" "8 * length bs \<le> LENGTH('a)"
  shows "be_bytes n (be_acc a bs) = drop (length bs - n) bs"
  using assms
proof (induction bs arbitrary: a n)
  case Nil
  then show ?case by simp
next
  case (Cons b bs)
  show ?case
  proof (cases "n \<le> length bs")
    case True
    with Cons show ?thesis by (simp add: Suc_diff_le)
  next
    case False
    with Cons.prems have n: "n = Suc (length bs)" by simp
    have acc: "bit (be_acc c bs) i \<longleftrightarrow> i < LENGTH('a) \<and> bit c (i - 8 * length bs)"
      if "8 * length bs \<le> i" "8 * length bs \<le> LENGTH('a)" for c :: "'a word" and i
      using that
    proof (induction bs arbitrary: c i)
      case Nil
      then show ?case by (auto dest: bit_imp_le_length)
    next
      case (Cons b bs)
      from Cons.prems have "\<not> bit b (i - 8 * length bs)"
        by (auto dest!: bit_imp_le_length)
      with Cons show ?case
        by (auto simp: bit_or_iff bit_push_bit_iff bit_ucast_iff add.commute [of 8]
            dest: bit_imp_le_length)
    qed
    have "ucast (drop_bit (8 * length bs) (be_acc (push_bit 8 a OR ucast b) bs)) = b"
      by (rule bit_word_eqI)
        (use Cons.prems in \<open>auto simp: bit_ucast_iff bit_drop_bit_eq acc bit_or_iff
          bit_push_bit_iff dest: bit_imp_le_length\<close>)
    with Cons n show ?thesis by simp
  qed
qed

lemma be_bytes_be_word [codec]:
  "length bs = n \<Longrightarrow> 8 * n \<le> LENGTH('a) \<Longrightarrow> be_bytes n (be_word bs :: 'a::len word) = bs"
  by (simp add: be_word_def be_bytes_be_acc)

lemma length_concat_map_const: "(\<And>x. length (f x) = n) \<Longrightarrow> length (concat (map f xs)) = n * length xs"
  by (induction xs) simp_all

subsection \<open>Decimal numbers\<close>

fun show_nat :: "nat \<Rightarrow> string" where
  "show_nat n =
     (if n < 10 then [''0123456789'' ! n] else show_nat (n div 10) @ [''0123456789'' ! (n mod 10)])"

declare show_nat.simps [simp del]

definition show_int :: "int \<Rightarrow> string" where
  "show_int i = (if i < 0 then ''-'' @ show_nat (nat (- i)) else show_nat (nat i))"

end
