(* ===== verification/Json.thy ===== *)
theory Json
  imports Prelude
begin

text \<open>
  What the runner uses of Go's \<^verbatim>\<open>encoding/json\<close>: \<^verbatim>\<open>json.Unmarshal\<close> of a relay
  control message into a struct, and \<^verbatim>\<open>json.Marshal\<close> of a map of strings. The grammar is
  RFC 8259; as in Go, a string's invalid UTF-8 and unpaired surrogates become U+FFFD, nesting is
  limited to 10000, and object keys match struct fields up to case folding. Parsing recurses on
  fuel, one unit per nested value or list element; \<open>parse_json\<close> gives it more than the input
  has bytes.
\<close>

datatype json =
    JNull
  | JBool bool
  | JNum string
  | JStr string
  | JArr "json list"
  | JObj "(string \<times> json) list"

subsection \<open>Characters\<close>

abbreviation (input) ch :: "char \<Rightarrow> byte" where "ch c \<equiv> of_char c"

definition is_ws :: "byte \<Rightarrow> bool" where
  "is_ws b \<longleftrightarrow> b = 0x20 \<or> b = 0x09 \<or> b = 0x0A \<or> b = 0x0D"

definition skip_ws :: "bytes \<Rightarrow> bytes" where
  "skip_ws b = dropWhile is_ws b"

definition is_digit :: "byte \<Rightarrow> bool" where
  "is_digit b \<longleftrightarrow> ch CHR ''0'' \<le> b \<and> b \<le> ch CHR ''9''"

definition hex_val :: "byte \<Rightarrow> nat option" where
  "hex_val b =
     (if is_digit b then Some (unat b - 48)
      else if ch CHR ''a'' \<le> b \<and> b \<le> ch CHR ''f'' then Some (unat b - 87)
      else if ch CHR ''A'' \<le> b \<and> b \<le> ch CHR ''F'' then Some (unat b - 55)
      else None)"

fun hex4 :: "bytes \<Rightarrow> (nat \<times> bytes) option" where
  "hex4 (a # b # c # d # r) =
     (case (hex_val a, hex_val b, hex_val c, hex_val d) of
        (Some w, Some x, Some y, Some z) \<Rightarrow> Some (((w * 16 + x) * 16 + y) * 16 + z, r)
      | _ \<Rightarrow> None)"
| "hex4 _ = None"

text \<open>\<^verbatim>\<open>utf8.AppendRune\<close> on a code point.\<close>

definition utf8_rune :: "nat \<Rightarrow> bytes" where
  "utf8_rune c =
     map of_nat
      (if c < 0x80 then [c]
       else if c < 0x800 then [0xC0 + c div 0x40, 0x80 + c mod 0x40]
       else if c < 0x10000 then [0xE0 + c div 0x1000, 0x80 + c div 0x40 mod 0x40, 0x80 + c mod 0x40]
       else [0xF0 + c div 0x40000, 0x80 + c div 0x1000 mod 0x40,
             0x80 + c div 0x40 mod 0x40, 0x80 + c mod 0x40])"

definition replacement :: bytes where
  "replacement = [0xEF, 0xBF, 0xBD]"

text \<open>
  The length of the well-formed UTF-8 sequence at the head of a byte string, 0 if there is
  none: \<^verbatim>\<open>utf8.DecodeRune\<close>, which then consumes one byte.
\<close>

definition cont_in :: "byte \<Rightarrow> byte \<Rightarrow> byte \<Rightarrow> bool" where
  "cont_in lo hi b \<longleftrightarrow> lo \<le> b \<and> b \<le> hi"

fun rune_len :: "bytes \<Rightarrow> nat" where
  "rune_len [] = 0"
| "rune_len (a # r) =
     (if a < 0x80 then 1
      else if 0xC2 \<le> a \<and> a \<le> 0xDF then
        (case r of b # _ \<Rightarrow> if cont_in 0x80 0xBF b then 2 else 0 | _ \<Rightarrow> 0)
      else if 0xE0 \<le> a \<and> a \<le> 0xEF then
        (case r of
           b # c # _ \<Rightarrow>
             if cont_in (if a = 0xE0 then 0xA0 else 0x80) (if a = 0xED then 0x9F else 0xBF) b
                \<and> cont_in 0x80 0xBF c then 3 else 0
         | _ \<Rightarrow> 0)
      else if 0xF0 \<le> a \<and> a \<le> 0xF4 then
        (case r of
           b # c # d # _ \<Rightarrow>
             if cont_in (if a = 0xF0 then 0x90 else 0x80) (if a = 0xF4 then 0x8F else 0xBF) b
                \<and> cont_in 0x80 0xBF c \<and> cont_in 0x80 0xBF d then 4 else 0
         | _ \<Rightarrow> 0)
      else 0)"

subsection \<open>Strings and numbers\<close>

text \<open>An escape after the backslash: the bytes it stands for, and the rest.\<close>

definition parse_escape :: "bytes \<Rightarrow> (bytes \<times> bytes) option" where
  "parse_escape inp =
     (case inp of
        [] \<Rightarrow> None
      | e # r \<Rightarrow>
          if e \<in> {ch CHR ''\"'', 0x5C, ch CHR ''/''} then Some ([e], r)
          else if e = ch CHR ''b'' then Some ([8], r)
          else if e = ch CHR ''f'' then Some ([12], r)
          else if e = ch CHR ''n'' then Some ([10], r)
          else if e = ch CHR ''r'' then Some ([13], r)
          else if e = ch CHR ''t'' then Some ([9], r)
          else if e = ch CHR ''u'' then
            (case hex4 r of
               None \<Rightarrow> None
             | Some (u, r') \<Rightarrow>
                 if 0xD800 \<le> u \<and> u < 0xE000 then
                   (case r' of
                      b # v # r'' \<Rightarrow>
                        if b = 0x5C \<and> v = ch CHR ''u'' then
                          (case hex4 r'' of
                             None \<Rightarrow> None
                           | Some (l, r3) \<Rightarrow>
                               if u < 0xDC00 \<and> 0xDC00 \<le> l \<and> l < 0xE000
                               then Some (utf8_rune (0x10000 + (u - 0xD800) * 0x400 + (l - 0xDC00)), r3)
                               else Some (replacement, r'))
                        else Some (replacement, r')
                    | _ \<Rightarrow> Some (replacement, r'))
                 else Some (utf8_rune u, r'))
          else None)"

primrec parse_chars :: "nat \<Rightarrow> bytes \<Rightarrow> (bytes \<times> bytes) option" where
  "parse_chars 0 inp = None"
| "parse_chars (Suc n) inp =
     (case inp of
        [] \<Rightarrow> None
      | b # r \<Rightarrow>
          if b = ch CHR ''\"'' then Some ([], r)
          else if b < 0x20 then None
          else if b = 0x5C then
            (case parse_escape r of
               None \<Rightarrow> None
             | Some (x, r') \<Rightarrow> map_option (\<lambda>(y, r''). (x @ y, r'')) (parse_chars n r'))
          else
            (case rune_len inp of
               0 \<Rightarrow> map_option (\<lambda>(y, r''). (replacement @ y, r'')) (parse_chars n r)
             | k \<Rightarrow> map_option (\<lambda>(y, r''). (take k inp @ y, r'')) (parse_chars n (drop k inp))))"

definition digits :: "bytes \<Rightarrow> (bytes \<times> bytes) option" where
  "digits b = (case takeWhile is_digit b of [] \<Rightarrow> None | ds \<Rightarrow> Some (ds, dropWhile is_digit b))"

definition parse_number :: "bytes \<Rightarrow> (bytes \<times> bytes) option" where
  "parse_number inp =
     (let (sgn, r0) = (case inp of b # r \<Rightarrow> if b = ch CHR ''-'' then ([b], r) else ([], inp) | [] \<Rightarrow> ([], []))
      in case (case r0 of
                 z # r \<Rightarrow> if z = ch CHR ''0'' then Some ([z], r) else digits r0
               | [] \<Rightarrow> None) of
           None \<Rightarrow> None
         | Some (ip, r1) \<Rightarrow>
        (case (case r1 of
                 d # r \<Rightarrow> if d = ch CHR ''.'' then map_option (\<lambda>(x, y). (d # x, y)) (digits r)
                          else Some ([], r1)
               | [] \<Rightarrow> Some ([], [])) of
           None \<Rightarrow> None
         | Some (fp, r2) \<Rightarrow>
        (case (case r2 of
                 e # r \<Rightarrow>
                   if e = ch CHR ''e'' \<or> e = ch CHR ''E'' then
                     (case r of
                        s # r' \<Rightarrow>
                          if s = ch CHR ''+'' \<or> s = ch CHR ''-''
                          then map_option (\<lambda>(x, y). (e # s # x, y)) (digits r')
                          else map_option (\<lambda>(x, y). (e # x, y)) (digits r)
                      | [] \<Rightarrow> None)
                   else Some ([], r2)
               | [] \<Rightarrow> Some ([], [])) of
           None \<Rightarrow> None
         | Some (ep, r3) \<Rightarrow> Some (sgn @ ip @ fp @ ep, r3))))"

definition strip_prefix :: "string \<Rightarrow> bytes \<Rightarrow> bytes option" where
  "strip_prefix s b =
     (if take (length s) b = str_bytes s then Some (drop (length s) b) else None)"

subsection \<open>Values\<close>

definition maxNestingDepth :: nat where
  "maxNestingDepth = 10000"

text \<open>
  \<open>depth\<close> counts the arrays and objects already open. \<open>parse_elems\<close> and
  \<open>parse_members\<close> read from the first element or member on.
\<close>

fun parse_value :: "nat \<Rightarrow> nat \<Rightarrow> bytes \<Rightarrow> (json \<times> bytes) option"
  and parse_elems :: "nat \<Rightarrow> nat \<Rightarrow> bytes \<Rightarrow> (json list \<times> bytes) option"
  and parse_members :: "nat \<Rightarrow> nat \<Rightarrow> bytes \<Rightarrow> ((string \<times> json) list \<times> bytes) option" where
  "parse_value 0 depth inp = None"
| "parse_value (Suc n) depth inp =
     (case skip_ws inp of
        [] \<Rightarrow> None
      | b # r \<Rightarrow>
          if b = ch CHR ''{'' then
            (if depth \<ge> maxNestingDepth then None
             else case skip_ws r of
               [] \<Rightarrow> None
             | c # r' \<Rightarrow>
                 if c = ch CHR ''}'' then Some (JObj [], r')
                 else map_option (\<lambda>(ms, q). (JObj ms, q)) (parse_members n (Suc depth) (c # r')))
          else if b = ch CHR ''['' then
            (if depth \<ge> maxNestingDepth then None
             else case skip_ws r of
               [] \<Rightarrow> None
             | c # r' \<Rightarrow>
                 if c = ch CHR '']'' then Some (JArr [], r')
                 else map_option (\<lambda>(xs, q). (JArr xs, q)) (parse_elems n (Suc depth) (c # r')))
          else if b = ch CHR ''\"'' then
            map_option (\<lambda>(s, q). (JStr (bytes_str s), q)) (parse_chars (Suc (length r)) r)
          else if b = ch CHR ''t'' then map_option (\<lambda>q. (JBool True, q)) (strip_prefix ''true'' (b # r))
          else if b = ch CHR ''f'' then map_option (\<lambda>q. (JBool False, q)) (strip_prefix ''false'' (b # r))
          else if b = ch CHR ''n'' then map_option (\<lambda>q. (JNull, q)) (strip_prefix ''null'' (b # r))
          else map_option (\<lambda>(s, q). (JNum (bytes_str s), q)) (parse_number (b # r)))"
| "parse_elems 0 depth inp = None"
| "parse_elems (Suc n) depth inp =
     (case parse_value n depth inp of
        None \<Rightarrow> None
      | Some (x, q) \<Rightarrow>
          (case skip_ws q of
             [] \<Rightarrow> None
           | c # r \<Rightarrow>
               if c = ch CHR '']'' then Some ([x], r)
               else if c = ch CHR '','' then map_option (\<lambda>(xs, t). (x # xs, t)) (parse_elems n depth r)
               else None))"
| "parse_members 0 depth inp = None"
| "parse_members (Suc n) depth inp =
     (case skip_ws inp of
        [] \<Rightarrow> None
      | k # r \<Rightarrow>
          if k \<noteq> ch CHR ''\"'' then None
          else case parse_chars (Suc (length r)) r of
            None \<Rightarrow> None
          | Some (key, q) \<Rightarrow>
              (case skip_ws q of
                 [] \<Rightarrow> None
               | c # r' \<Rightarrow>
                   if c \<noteq> ch CHR '':'' then None
                   else case parse_value n depth r' of
                     None \<Rightarrow> None
                   | Some (x, q') \<Rightarrow>
                       (case skip_ws q' of
                          [] \<Rightarrow> None
                        | e # r'' \<Rightarrow>
                            if e = ch CHR ''}'' then Some ([(bytes_str key, x)], r'')
                            else if e = ch CHR '','' then
                              map_option (\<lambda>(ms, t). ((bytes_str key, x) # ms, t))
                                (parse_members n depth r'')
                            else None)))"

definition parse_json :: "bytes \<Rightarrow> json option" where
  "parse_json b =
     (case parse_value (2 * length b + 2) 0 b of
        Some (v, r) \<Rightarrow> if skip_ws r = [] then Some v else None
      | None \<Rightarrow> None)"

text \<open>The first value of a stream, as \<^verbatim>\<open>json.Decoder\<close> reads it; what follows is left unread.\<close>

definition parse_first :: "bytes \<Rightarrow> json option" where
  "parse_first b = map_option fst (parse_value (2 * length b + 2) 0 b)"

subsection \<open>Unmarshalling into a struct\<close>

text \<open>
  \<^verbatim>\<open>foldName\<close>: ASCII letters to upper case; the long s and the Kelvin sign fold to the
  ASCII letters too, and no other character folds to one.
\<close>

fun fold_name :: "bytes \<Rightarrow> bytes" where
  "fold_name [] = []"
| "fold_name (a # r) =
     (case (a, r) of
        (_, b # c # r') \<Rightarrow>
          if a = 0xE2 \<and> b = 0x84 \<and> c = 0xAA then ch CHR ''K'' # fold_name r'
          else if a = 0xC5 \<and> b = 0xBF then ch CHR ''S'' # fold_name (c # r')
          else (if ch CHR ''a'' \<le> a \<and> a \<le> ch CHR ''z'' then a - 32 else a) # fold_name r
      | (_, [b]) \<Rightarrow>
          if a = 0xC5 \<and> b = 0xBF then [ch CHR ''S'']
          else (if ch CHR ''a'' \<le> a \<and> a \<le> ch CHR ''z'' then a - 32 else a) # fold_name r
      | (_, []) \<Rightarrow> [if ch CHR ''a'' \<le> a \<and> a \<le> ch CHR ''z'' then a - 32 else a])"

definition field_matches :: "string \<Rightarrow> string \<Rightarrow> bool" where
  "field_matches name key \<longleftrightarrow> fold_name (str_bytes key) = fold_name (str_bytes name)"

text \<open>\<^verbatim>\<open>strconv.ParseInt(s, 10, 64)\<close> on a JSON number: \<open>None\<close> for a fraction, an exponent or a value out of range.\<close>

definition dec_val :: "bytes \<Rightarrow> nat" where
  "dec_val ds = foldl (\<lambda>a d. 10 * a + (unat d - 48)) 0 ds"

definition parse_int64 :: "string \<Rightarrow> int option" where
  "parse_int64 s =
     (let b = str_bytes s;
          (neg, ds) = (case b of c # r \<Rightarrow> if c = ch CHR ''-'' then (True, r) else (False, b) | [] \<Rightarrow> (False, []))
      in if ds = [] \<or> \<not> list_all is_digit ds then None
         else let v = (if neg then - int (dec_val ds) else int (dec_val ds))
              in if - (2 ^ 63) \<le> v \<and> v < 2 ^ 63 then Some v else None)"

subsection \<open>Marshalling a map of strings\<close>

definition hex_digit :: "nat \<Rightarrow> char" where
  "hex_digit n = ''0123456789abcdef'' ! n"

definition u_escape :: "nat \<Rightarrow> string" where
  "u_escape n = [CHR 0x5C, CHR ''u'', CHR ''0'', CHR ''0'', hex_digit (n div 16), hex_digit (n mod 16)]"

text \<open>
  One step of \<^verbatim>\<open>appendString\<close> with HTML escaping on, as \<^verbatim>\<open>json.Marshal\<close> has it:
  what is written for the head of the input and how many bytes it consumes.
\<close>

definition marshal_step :: "bytes \<Rightarrow> string \<times> nat" where
  "marshal_step inp =
     (case inp of
        [] \<Rightarrow> ([], 0)
      | b # _ \<Rightarrow>
          if b = 0x22 then ([CHR 0x5C, CHR 0x22], 1)
          else if b = 0x5C then ([CHR 0x5C, CHR 0x5C], 1)
          else if b = 8 then ([CHR 0x5C, CHR ''b''], 1)
          else if b = 12 then ([CHR 0x5C, CHR ''f''], 1)
          else if b = 10 then ([CHR 0x5C, CHR ''n''], 1)
          else if b = 13 then ([CHR 0x5C, CHR ''r''], 1)
          else if b = 9 then ([CHR 0x5C, CHR ''t''], 1)
          else if b < 0x20 \<or> b = ch CHR ''<'' \<or> b = ch CHR ''>'' \<or> b = ch CHR ''&''
            then (u_escape (unat b), 1)
          else if rune_len inp = 0 then (CHR 0x5C # ''ufffd'', 1)
          else if take 3 inp = [0xE2, 0x80, 0xA8] then (CHR 0x5C # ''u2028'', 3)
          else if take 3 inp = [0xE2, 0x80, 0xA9] then (CHR 0x5C # ''u2029'', 3)
          else (bytes_str (take (rune_len inp) inp), rune_len inp))"

primrec marshal_chars :: "nat \<Rightarrow> bytes \<Rightarrow> string" where
  "marshal_chars 0 inp = []"
| "marshal_chars (Suc n) inp =
     (if inp = [] then []
      else case marshal_step inp of (s, k) \<Rightarrow> s @ marshal_chars n (drop k inp))"

definition marshal_string :: "string \<Rightarrow> string" where
  "marshal_string s =
     [CHR 0x22] @ marshal_chars (length s) (str_bytes s) @ [CHR 0x22]"

definition join_with :: "string \<Rightarrow> string list \<Rightarrow> string" where
  "join_with sep ss = (case ss of [] \<Rightarrow> [] | s # r \<Rightarrow> s @ concat (map (\<lambda>x. sep @ x) r))"

text \<open>The entries are given in the order of their keys, the order \<^verbatim>\<open>json.Marshal\<close> writes them in.\<close>

definition marshal_raw :: "(string \<times> string) list \<Rightarrow> bytes" where
  "marshal_raw es =
     str_bytes (''{'' @ join_with '','' (map (\<lambda>(k, v). marshal_string k @ '':'' @ v) es) @ ''}'')"

definition marshal_entries :: "(string \<times> string) list \<Rightarrow> bytes" where
  "marshal_entries es = marshal_raw (map (\<lambda>(k, v). (k, marshal_string v)) es)"

end
