(* ===== verification/Encoding.thy ===== *)
theory Encoding
  imports Prelude
begin

text \<open>
  The text encodings of Go's standard library that the runner uses, as executable
  definitions over bits: \<^verbatim>\<open>base32.StdEncoding\<close> without padding (fingerprints and generated
  passphrases), \<^verbatim>\<open>base64.RawURLEncoding\<close> (session ids, tokens and the secret in the link) and
  \<^verbatim>\<open>base64.StdEncoding\<close> (frames addressed to one viewer).
\<close>

text \<open>The bits of a byte string, most significant first.\<close>

definition byte_bits :: "byte \<Rightarrow> bool list" where
  "byte_bits b = map (\<lambda>i. bit b (7 - i)) [0..<8]"

definition bits_of :: "bytes \<Rightarrow> bool list" where
  "bits_of bs = concat (map byte_bits bs)"

primrec bits_val :: "bool list \<Rightarrow> nat" where
  "bits_val [] = 0"
| "bits_val (b # bs) = of_bool b * 2 ^ length bs + bits_val bs"

text \<open>Groups of \<open>n\<close> bits; the last one is filled up with zero bits.\<close>

function bit_groups :: "nat \<Rightarrow> bool list \<Rightarrow> nat list" where
  "bit_groups n bs =
     (if bs = [] \<or> n = 0 then []
      else bits_val (take n bs @ replicate (n - length bs) False) # bit_groups n (drop n bs))"
  by pat_completeness auto
termination
  by (relation "measure (\<lambda>(n, bs). length bs)") auto

declare bit_groups.simps [simp del]

definition base32_alphabet :: string where
  "base32_alphabet = ''ABCDEFGHIJKLMNOPQRSTUVWXYZ234567''"

definition base64_alphabet :: string where
  "base64_alphabet = ''ABCDEFGHIJKLMNOPQRSTUVWXYZabcdefghijklmnopqrstuvwxyz0123456789+/''"

definition base64url_alphabet :: string where
  "base64url_alphabet = ''ABCDEFGHIJKLMNOPQRSTUVWXYZabcdefghijklmnopqrstuvwxyz0123456789-_''"

definition base32_encode :: "bytes \<Rightarrow> string" where
  "base32_encode b = map (\<lambda>i. base32_alphabet ! i) (bit_groups 5 (bits_of b))"

definition base64_rawurl_encode :: "bytes \<Rightarrow> string" where
  "base64_rawurl_encode b = map (\<lambda>i. base64url_alphabet ! i) (bit_groups 6 (bits_of b))"

definition base64_std_encode :: "bytes \<Rightarrow> string" where
  "base64_std_encode b =
     map (\<lambda>i. base64_alphabet ! i) (bit_groups 6 (bits_of b))
       @ replicate ((3 - length b mod 3) mod 3) (CHR ''='')"

subsection \<open>Lengths and alphabets\<close>

lemma length_bit_groups: "0 < n \<Longrightarrow> length (bit_groups n bs) = (length bs + (n - 1)) div n"
proof (induction n bs rule: bit_groups.induct)
  case (1 n bs)
  show ?case
  proof (cases "bs = []")
    case False
    then have "length bs + (n - 1) = n + (length bs - 1)" using 1(2) by (cases bs) simp_all
    moreover have "(n + (length bs - 1)) div n = Suc ((length bs - 1) div n)"
      using 1(2) by (subst div_add_self1) simp_all
    ultimately have "(length bs + (n - 1)) div n = Suc ((length bs - 1) div n)" by metis
    moreover have "length bs - 1 = length bs - n + (n - 1)" if "n \<le> length bs" using that 1(2) by simp
    ultimately show ?thesis using 1 False
      by (cases "n \<le> length bs") (simp_all add: bit_groups.simps [of n bs])
  qed (use 1 in \<open>simp add: bit_groups.simps\<close>)
qed

lemma length_bits_of [simp]: "length (bits_of b) = 8 * length b"
  by (simp add: bits_of_def length_concat_map_const byte_bits_def)

lemma bits_val_less: "bits_val bs < 2 ^ length bs"
  by (induction bs) (auto simp: of_bool_def)

lemma bit_groups_less: "x \<in> set (bit_groups n bs) \<Longrightarrow> x < 2 ^ n"
proof (induction n bs rule: bit_groups.induct)
  case (1 n bs)
  have "bits_val (take n bs @ replicate (n - length bs) False) < 2 ^ n"
    using bits_val_less [of "take n bs @ replicate (n - length bs) False"] by (simp add: min_def split: if_splits)
  with 1 show ?case by (auto simp: bit_groups.simps [of n bs] split: if_splits)
qed

lemma base32_encode_shape:
  "length (base32_encode b) = (8 * length b + 4) div 5 \<and> set (base32_encode b) \<subseteq> set base32_alphabet"
proof
  show "length (base32_encode b) = (8 * length b + 4) div 5"
    by (simp add: base32_encode_def length_bit_groups)
  have "length base32_alphabet = 32" by (simp add: base32_alphabet_def)
  then show "set (base32_encode b) \<subseteq> set base32_alphabet"
    using bit_groups_less [of _ 5 "bits_of b"] by (auto simp: base32_encode_def)
qed

lemma base64_rawurl_encode_shape:
  "length (base64_rawurl_encode b) = (8 * length b + 5) div 6
   \<and> set (base64_rawurl_encode b) \<subseteq> set base64url_alphabet"
proof
  show "length (base64_rawurl_encode b) = (8 * length b + 5) div 6"
    by (simp add: base64_rawurl_encode_def length_bit_groups)
  have "length base64url_alphabet = 64" by (simp add: base64url_alphabet_def)
  then show "set (base64_rawurl_encode b) \<subseteq> set base64url_alphabet"
    using bit_groups_less [of _ 6 "bits_of b"] by (auto simp: base64_rawurl_encode_def)
qed

subsection \<open>Decoding base 64\<close>

text \<open>
  Elixir's \<^verbatim>\<open>Base.decode64\<close>, which the relay applies to a frame addressed to one viewer:
  characters of the alphabet, padded with at most two \<open>=\<close> to a multiple of four.
\<close>

definition val_bits :: "nat \<Rightarrow> nat \<Rightarrow> bool list" where
  "val_bits n v = rev (map (bit v) [0..<n])"

definition base64_index :: "char \<Rightarrow> nat" where
  "base64_index c = length (takeWhile (\<lambda>x. x \<noteq> c) base64_alphabet)"

definition base64_std_decode :: "string \<Rightarrow> bytes option" where
  "base64_std_decode s =
     (let body = takeWhile (\<lambda>c. c \<noteq> CHR ''='') s; pad = dropWhile (\<lambda>c. c \<noteq> CHR ''='') s;
          bits = concat (map (\<lambda>c. val_bits 6 (base64_index c)) body)
      in if length s mod 4 = 0 \<and> pad = replicate (length pad) (CHR ''='') \<and> length pad \<le> 2
            \<and> set body \<subseteq> set base64_alphabet
         then Some (map of_nat (bit_groups 8 (take (length bits - length bits mod 8) bits)))
         else None)"

lemma bits_val_horner: "bits_val (rev bs) = horner_sum of_bool 2 bs"
proof -
  have "bits_val (xs @ [b]) = 2 * bits_val xs + of_bool b" for xs b
    by (induction xs) simp_all
  then show ?thesis by (induction bs) simp_all
qed

lemma val_bits_val: "length bs = n \<Longrightarrow> val_bits n (bits_val bs) = bs"
proof -
  assume "length bs = n"
  moreover have "bits_val bs = horner_sum of_bool 2 (rev bs)"
    using bits_val_horner [of "rev bs"] by simp
  ultimately show ?thesis
    by (auto simp: val_bits_def bit_horner_sum_bit_iff rev_nth intro!: nth_equalityI)
qed

lemma byte_bits_val: "of_nat (bits_val (byte_bits b)) = b"
proof -
  have "byte_bits b = rev (map (bit b) [0..<8])" by (simp add: byte_bits_def upt_rec numeral_eq_Suc)
  then have "bits_val (byte_bits b) = horner_sum of_bool 2 (map (bit b) [0..<8])"
    by (simp only: bits_val_horner)
  then show ?thesis
    by (auto simp: bit_of_nat_iff bit_horner_sum_bit_iff intro!: bit_word_eqI)
qed

lemma val_bits_groups:
  assumes "0 < n"
  shows "\<exists>k<n. concat (map (val_bits n) (bit_groups n bs)) = bs @ replicate k False"
  using assms
proof (induction n bs rule: bit_groups.induct)
  case (1 n bs)
  show ?case
  proof (cases "length bs \<le> n")
    case True
    then have e: "drop n bs = []" "bit_groups n [] = []" by (simp_all add: bit_groups.simps [of n "[]"])
    show ?thesis
    proof (cases "bs = []")
      case False
      then have "concat (map (val_bits n) (bit_groups n bs)) = bs @ replicate (n - length bs) False"
        using 1(2) True by (simp add: bit_groups.simps [of n bs] e val_bits_val)
      moreover have "n - length bs < n" using False 1(2) by (cases bs) simp_all
      ultimately show ?thesis by blast
    qed (use 1(2) e in auto)
  next
    case False
    with 1 obtain k where k: "k < n" "concat (map (val_bits n) (bit_groups n (drop n bs))) = drop n bs @ replicate k False"
      by (cases bs) auto
    then have "concat (map (val_bits n) (bit_groups n bs)) = bs @ replicate k False"
      using False 1(2) by (auto simp: bit_groups.simps [of n bs] val_bits_val)
    with k(1) show ?thesis by blast
  qed
qed

lemma bit_groups_bits_of: "map of_nat (bit_groups 8 (bits_of b)) = b"
proof (induction b)
  case Nil
  then show ?case by (simp add: bits_of_def bit_groups.simps)
next
  case (Cons a b)
  have "length (byte_bits a) = 8" "byte_bits a \<noteq> []" by (simp_all add: byte_bits_def)
  with Cons show ?case
    by (simp add: bits_of_def bit_groups.simps [of 8 "byte_bits a @ concat (map byte_bits b)"] byte_bits_val)
qed

lemma index_nth: "distinct xs \<Longrightarrow> i < length xs \<Longrightarrow> length (takeWhile (\<lambda>x. x \<noteq> xs ! i) xs) = i"
  by (subst takeWhile_eq_take_P_nth [where n = i]) (auto simp: nth_eq_iff_index_eq)

lemma base64_alphabet_facts: "distinct base64_alphabet" "length base64_alphabet = 64" "CHR ''='' \<notin> set base64_alphabet"
  by (simp_all add: base64_alphabet_def)

lemma base64_length:
  assumes "l = (8 * n + 5) div 6"
  shows "(l + (3 - n mod 3) mod 3) mod 4 = 0 \<and> (3 - n mod 3) mod 3 \<le> (2::nat)"
proof -
  define q where "q = n div 3"
  have "n = 3 * q + n mod 3" "n mod 3 < 3" by (simp_all add: q_def)
  then consider "n = 3 * q" "n mod 3 = 0" | "n = 3 * q + 1" "n mod 3 = 1" | "n = 3 * q + 2" "n mod 3 = 2"
    by linarith
  then show ?thesis
  proof cases
    case 1
    then have "l = 4 * q" using assms by simp
    with 1 show ?thesis by simp
  next
    case 2
    then have "l = 4 * q + 2" using assms by simp
    with 2 show ?thesis by simp
  next
    case 3
    then have "l = 4 * q + 3" using assms by simp
    with 3 show ?thesis by simp
  qed
qed

lemma base64_roundtrip: "base64_std_decode (base64_std_encode b) = Some b"
proof -
  define g where "g = bit_groups 6 (bits_of b)"
  define body where "body = map (\<lambda>i. base64_alphabet ! i) g"
  define p where "p = (3 - length b mod 3) mod 3"
  have enc: "base64_std_encode b = body @ replicate p (CHR ''='')"
    by (simp add: base64_std_encode_def body_def g_def p_def)
  have g: "x < 64" if "x \<in> set g" for x using bit_groups_less [of x 6] that by (simp add: g_def)
  have al: "set body \<subseteq> set base64_alphabet" using g by (auto simp: body_def base64_alphabet_facts)
  then have ne: "\<forall>c\<in>set body. c \<noteq> CHR ''=''" using base64_alphabet_facts(3) by blast
  have split: "takeWhile (\<lambda>c. c \<noteq> CHR ''='') (body @ replicate p (CHR ''='')) = body"
    "dropWhile (\<lambda>c. c \<noteq> CHR ''='') (body @ replicate p (CHR ''='')) = replicate p (CHR ''='')"
    using ne by (cases p; simp add: takeWhile_append dropWhile_append)+
  have "length body = (8 * length b + 5) div 6" by (simp add: body_def g_def length_bit_groups)
  then have len: "(length body + p) mod 4 = 0 \<and> p \<le> 2" unfolding p_def by (rule base64_length)
  have "map (\<lambda>c. val_bits 6 (base64_index c)) body = map (val_bits 6) g"
    using g by (auto simp: body_def base64_index_def index_nth base64_alphabet_facts)
  moreover obtain k where k: "k < 6" "concat (map (val_bits 6) g) = bits_of b @ replicate k False"
    using val_bits_groups [of 6 "bits_of b"] by (auto simp: g_def)
  ultimately have bits: "concat (map (\<lambda>c. val_bits 6 (base64_index c)) body) = bits_of b @ replicate k False"
    by simp
  have "(8 * length b + k) mod 8 = k" using k(1) by presburger
  with len al show ?thesis
    by (simp add: base64_std_decode_def enc split bits bit_groups_bits_of Let_def)
qed

end
