(* ===== verification/JsonText.thy ===== *)
theory JsonText
  imports Json Encoding
begin

text \<open>
  What \<^verbatim>\<open>json.Marshal\<close> writes is read back: strings, and objects of strings, numbers and
  booleans. A string that is not UTF-8 comes back with U+FFFD for each byte that is not part of a
  character, as Go's documentation says.
\<close>

subsection \<open>Strings\<close>

lemma str_bytes_simps: "str_bytes [] = []" "str_bytes (c # s) = ch c # str_bytes s"
  by (simp_all add: str_bytes_def)

lemma parse_backslash:
  "parse_chars (Suc n) (0x5C # r) =
     (case parse_escape r of
        None \<Rightarrow> None
      | Some (x, r') \<Rightarrow> map_option (\<lambda>(y, q). (x @ y, q)) (parse_chars n r'))"
  by simp

text \<open>The well-formed version of a string: each byte that starts no character becomes U+FFFD.\<close>

function utf8_fix :: "bytes \<Rightarrow> bytes" where
  "utf8_fix b =
     (if b = [] then []
      else if rune_len b = 0 then replacement @ utf8_fix (tl b)
      else take (rune_len b) b @ utf8_fix (drop (rune_len b) b))"
  by auto
termination
  by (relation "measure length") auto

declare utf8_fix.simps [simp del]

lemma rune_len_le: "rune_len b \<le> length b"
proof (cases b)
  case (Cons a t)
  then show ?thesis by (cases t; cases "tl t"; cases "tl (tl t)") auto
qed simp

lemma rune_len_local: "0 < rune_len b \<Longrightarrow> rune_len (take (rune_len b) b @ r) = rune_len b"
proof (cases b)
  case (Cons a t)
  assume pos: "0 < rune_len b"
  consider (one) "a < 0x80" | (two) "\<not> a < 0x80" "0xC2 \<le> a \<and> a \<le> 0xDF"
    | (three) "\<not> a < 0x80" "\<not> (0xC2 \<le> a \<and> a \<le> 0xDF)" "0xE0 \<le> a \<and> a \<le> 0xEF"
    | (four) "\<not> a < 0x80" "\<not> (0xC2 \<le> a \<and> a \<le> 0xDF)" "\<not> (0xE0 \<le> a \<and> a \<le> 0xEF)" "0xF0 \<le> a \<and> a \<le> 0xF4"
    | (none) "\<not> a < 0x80" "\<not> (0xC2 \<le> a \<and> a \<le> 0xDF)" "\<not> (0xE0 \<le> a \<and> a \<le> 0xEF)" "\<not> (0xF0 \<le> a \<and> a \<le> 0xF4)"
    by argo
  then show ?thesis
  proof cases
    case two
    with pos Cons obtain x u where "t = x # u" "cont_in 0x80 0xBF x"
      by (cases t) (auto split: if_splits)
    with two Cons show ?thesis by simp
  next
    case three
    let ?c = "\<lambda>x y. cont_in (if a = 0xE0 then 0xA0 else 0x80) (if a = 0xED then 0x9F else 0xBF) x \<and> cont_in 0x80 0xBF y"
    from three have r: "rune_len (a # v) = (case v of x # y # _ \<Rightarrow> if ?c x y then 3 else 0 | _ \<Rightarrow> 0)" for v
      by (simp only: rune_len.simps if_False if_True simp_thms)
    with pos Cons obtain x y u where "t = x # y # u" "?c x y"
      by (cases t; cases "tl t") (auto split: if_splits)
    with Cons show ?thesis by (simp add: r del: rune_len.simps)
  next
    case four
    let ?c = "\<lambda>x y z. cont_in (if a = 0xF0 then 0x90 else 0x80) (if a = 0xF4 then 0x8F else 0xBF) x
      \<and> cont_in 0x80 0xBF y \<and> cont_in 0x80 0xBF z"
    from four have r: "rune_len (a # v) = (case v of x # y # z # _ \<Rightarrow> if ?c x y z then 4 else 0 | _ \<Rightarrow> 0)" for v
      by (simp only: rune_len.simps if_False if_True simp_thms)
    with pos Cons obtain x y z u where "t = x # y # z # u" "?c x y z"
      by (cases t; cases "tl t"; cases "tl (tl t)") (auto split: if_splits)
    with Cons show ?thesis by (simp add: r del: rune_len.simps)
  next
    case none
    with pos Cons show ?thesis by (simp only: rune_len.simps if_False)
  qed (use Cons in simp)
qed simp

lemma rune_head: "0 < rune_len b \<Longrightarrow> \<exists>x t. b = x # t \<and> take (rune_len b) b = x # take (rune_len b - 1) t"
  by (cases b) (auto simp: take_Cons')

text \<open>What the parser makes of one step of the printer.\<close>

definition read_step :: "bytes \<Rightarrow> bytes" where
  "read_step inp = (if rune_len inp = 0 then replacement else take (rune_len inp) inp)"

lemma hex_escapes:
  "list_all (\<lambda>n. hex4 (str_bytes (drop 2 (u_escape n))) = Some (n, [])) ([0..<32] @ [38, 60, 62])"
  by code_simp

lemma parse_u_escape:
  assumes "n < 32 \<or> n \<in> {38, 60, 62}"
  shows "parse_escape (ch CHR ''u'' # str_bytes (drop 2 (u_escape n)) @ r) = Some ([of_nat n], r)"
proof -
  have "n \<in> set ([0..<32] @ [38, 60, 62])" using assms by auto
  then have h: "hex4 (str_bytes (drop 2 (u_escape n))) = Some (n, [])"
    using hex_escapes by (metis (mono_tags, lifting) list_all_iff)
  have "hex4 (str_bytes (drop 2 (u_escape n)) @ r) = Some (n, r)"
    using h by (auto simp: u_escape_def str_bytes_def split: option.splits)
  moreover have "n < 128" using assms by auto
  ultimately show ?thesis by (simp add: parse_escape_def utf8_rune_def)
qed

lemma parse_marshal_step:
  assumes "inp \<noteq> []" "marshal_step inp = (s, k)"
  shows "parse_chars (Suc n) (str_bytes s @ r) = map_option (\<lambda>(y, q). (read_step inp @ y, q)) (parse_chars n r)
    \<and> k = (if rune_len inp = 0 then 1 else rune_len inp)"
proof -
  obtain b t where i: "inp = b # t" using assms(1) by (cases inp) auto
  have esc: "rune_len inp = 1 \<and> read_step inp = [b]" if "b < 0x80" using that by (simp add: i read_step_def)
  consider (quote) "b = 0x22" | (slash) "b = 0x5C" | (short) "b \<in> {8, 12, 10, 13, 9}"
    | (hex) "b \<notin> {0x22, 0x5C, 8, 12, 10, 13, 9}" "b < 0x20 \<or> b = ch CHR ''<'' \<or> b = ch CHR ''>'' \<or> b = ch CHR ''&''"
    | (other) "b \<notin> {0x22, 0x5C, 8, 12, 10, 13, 9}" "\<not> (b < 0x20 \<or> b = ch CHR ''<'' \<or> b = ch CHR ''>'' \<or> b = ch CHR ''&'')"
    by blast
  then show ?thesis
  proof cases
    case quote
    then have "s = [CHR 0x5C, CHR 0x22]" "k = 1" using assms(2) by (auto simp: i marshal_step_def)
    moreover have "rune_len inp = 1" "read_step inp = [b]" using esc quote by simp_all
    ultimately show ?thesis using quote by (simp add: str_bytes_def parse_escape_def del: rune_len.simps)
  next
    case slash
    then have "s = [CHR 0x5C, CHR 0x5C]" "k = 1" using assms(2) by (auto simp: i marshal_step_def)
    moreover have "rune_len inp = 1" "read_step inp = [b]" using esc slash by simp_all
    ultimately show ?thesis using slash by (simp add: str_bytes_def parse_escape_def del: rune_len.simps)
  next
    case short
    then have "\<exists>c. s = [CHR 0x5C, c] \<and> (b, c) \<in> {(8, CHR ''b''), (12, CHR ''f''), (10, CHR ''n''), (13, CHR ''r''), (9, CHR ''t'')} \<and> k = 1"
      using assms(2) by (auto simp: i marshal_step_def)
    moreover have "rune_len inp = 1" "read_step inp = [b]" using esc short by auto
    ultimately show ?thesis
      by (elim exE conjE insertE) (simp_all add: str_bytes_def parse_escape_def del: rune_len.simps)
  next
    case hex
    have s: "s = u_escape (unat b)" "k = 1" using hex assms(2) by (auto simp: i marshal_step_def)
    have b: "unat b < 32 \<or> unat b \<in> {38, 60, 62}"
      using hex(2) by (auto simp: word_less_nat_alt)
    then have "b < 0x80" by (auto simp: word_less_nat_alt)
    moreover have "str_bytes s @ r = 0x5C # ch CHR ''u'' # str_bytes (drop 2 s) @ r"
      by (simp add: s u_escape_def str_bytes_def)
    moreover have "rune_len inp = 1" "read_step inp = [b]" using esc calculation(1) by simp_all
    ultimately show ?thesis using parse_u_escape [OF b, of r] by (simp add: s del: rune_len.simps)
  next
    case other
    have plain: "b \<noteq> ch CHR ''\"''" "\<not> b < 0x20" "b \<noteq> 0x5C" using other by auto
    have step: "marshal_step inp =
        (if rune_len inp = 0 then (CHR 0x5C # ''ufffd'', 1)
         else if take 3 inp = [0xE2, 0x80, 0xA8] then (CHR 0x5C # ''u2028'', 3)
         else if take 3 inp = [0xE2, 0x80, 0xA9] then (CHR 0x5C # ''u2029'', 3)
         else (bytes_str (take (rune_len inp) inp), rune_len inp))"
      using other by (simp add: i marshal_step_def del: rune_len.simps)
    have seps: "parse_escape (str_bytes ''ufffd'' @ r) = Some (replacement, r)"
      "parse_escape (str_bytes ''u2028'' @ r) = Some ([0xE2, 0x80, 0xA8], r)"
      "parse_escape (str_bytes ''u2029'' @ r) = Some ([0xE2, 0x80, 0xA9], r)"
      by (simp_all add: str_bytes_def parse_escape_def hex_val_def is_digit_def utf8_rune_def replacement_def)
    have sep: "rune_len inp = 3 \<and> read_step inp = take 3 inp" if "take 3 inp \<in> {[0xE2, 0x80, 0xA8], [0xE2, 0x80, 0xA9]}"
    proof -
      from that obtain x u where "inp = 0xE2 # 0x80 # x # u" "x \<in> {0xA8, 0xA9}"
        by (cases inp; cases "tl inp"; cases "tl (tl inp)") auto
      then show ?thesis by (auto simp: read_step_def cont_in_def)
    qed
    have raw: "parse_chars (Suc n) (take (rune_len inp) inp @ r)
        = map_option (\<lambda>(y, q). (take (rune_len inp) inp @ y, q)) (parse_chars n r)" if pos: "0 < rune_len inp"
    proof -
      obtain m where m: "rune_len inp = Suc m" using pos by (cases "rune_len inp") auto
      have "m \<le> length t" using rune_len_le [of inp] unfolding m by (simp add: i)
      then show ?thesis
        using rune_len_local [OF pos, of r] plain unfolding m by (simp add: i del: rune_len.simps)
    qed
    have esc: "parse_chars (Suc n) (str_bytes (CHR 0x5C # x) @ r) = map_option (\<lambda>(y, q). (z @ y, q)) (parse_chars n r)"
      if "parse_escape (str_bytes x @ r) = Some (z, r)" for x z
      using parse_backslash [of n "str_bytes x @ r"] that by (simp add: str_bytes_simps del: parse_chars.simps)
    show ?thesis
      using assms(2) step esc [OF seps(1)] esc [OF seps(2)] esc [OF seps(3)] sep raw
      by (auto simp: read_step_def split: if_splits simp del: rune_len.simps parse_chars.simps)
  qed
qed

lemma marshal_step_grows: "marshal_step inp = (s, k) \<Longrightarrow> k \<le> length s"
  using rune_len_le [of inp]
  by (auto simp: marshal_step_def u_escape_def bytes_str_def simp del: rune_len.simps split: list.splits if_splits)

lemma utf8_fix_step:
  "inp \<noteq> [] \<Longrightarrow> utf8_fix inp = read_step inp @ utf8_fix (drop (if rune_len inp = 0 then 1 else rune_len inp) inp)"
  by (simp add: utf8_fix.simps [of inp] read_step_def drop_Suc)

lemma parse_marshal_chars:
  "\<lbrakk>length inp \<le> k; length inp < n\<rbrakk> \<Longrightarrow>
   parse_chars n (str_bytes (marshal_chars k inp) @ ch CHR ''\"'' # r) = Some (utf8_fix inp, r)
   \<and> length inp \<le> length (marshal_chars k inp)"
proof (induction k arbitrary: inp n)
  case 0
  then obtain m where "n = Suc m" by (cases n) auto
  with 0 show ?case by (simp add: utf8_fix.simps str_bytes_simps)
next
  case (Suc k)
  obtain m where n: "n = Suc m" using Suc.prems by (cases n) auto
  show ?case
  proof (cases "inp = []")
    case True
    then show ?thesis by (simp add: n utf8_fix.simps str_bytes_simps)
  next
    case False
    obtain s j where st: "marshal_step inp = (s, j)" by (cases "marshal_step inp")
    note p = parse_marshal_step [OF False st]
    have j: "0 < j" using p by (auto split: if_splits)
    then have "length (drop j inp) < length inp" using False by simp
    with Suc.prems n have "length (drop j inp) \<le> k" "length (drop j inp) < m" by simp_all
    from Suc.IH [OF this] have i: "parse_chars m (str_bytes (marshal_chars k (drop j inp)) @ ch CHR ''\"'' # r)
        = Some (utf8_fix (drop j inp), r)" "length inp - j \<le> length (marshal_chars k (drop j inp))" by simp_all
    have "utf8_fix inp = read_step inp @ utf8_fix (drop j inp)" using utf8_fix_step [OF False] p by simp
    with i p marshal_step_grows [OF st] False st show ?thesis by (simp add: n)
  qed
qed

lemma parse_marshal_string:
  "parse_chars (Suc (length q)) q = Some (utf8_fix (str_bytes s), r)"
  if "q = str_bytes (marshal_chars (length s) (str_bytes s)) @ ch CHR ''\"'' # r"
  using parse_marshal_chars [of "str_bytes s" "length s" "Suc (length q)" r] that
    parse_marshal_chars [of "str_bytes s" "length s" "Suc (length s)" r] by simp

text \<open>UTF-8 text comes back as it was.\<close>

function utf8_ok :: "bytes \<Rightarrow> bool" where
  "utf8_ok b = (if b = [] then True else if rune_len b = 0 then False else utf8_ok (drop (rune_len b) b))"
  by auto
termination
  by (relation "measure length") (auto simp del: rune_len.simps)

declare utf8_ok.simps [simp del]

lemma utf8_fix_ok: "utf8_ok b \<Longrightarrow> utf8_fix b = b"
proof (induction b rule: utf8_fix.induct)
  case (1 b)
  then show ?case
    using utf8_ok.simps [of b] by (auto simp: utf8_fix.simps [of b])
qed

lemma utf8_ok_ascii: "list_all (\<lambda>x. x < 0x80) b \<Longrightarrow> utf8_ok b"
proof (induction b)
  case (Cons a b)
  then show ?case by (simp add: utf8_ok.simps [of "a # b"])
qed (simp add: utf8_ok.simps)

subsection \<open>Objects\<close>

text \<open>A text that reads as a value wherever an object can have one.\<close>

definition value_text :: "string \<Rightarrow> json \<Rightarrow> bool" where
  "value_text t v \<longleftrightarrow>
     (\<forall>n depth c r. c \<in> {ch CHR '','', ch CHR ''}''} \<longrightarrow>
        parse_value (Suc n) depth (str_bytes t @ c # r) = Some (v, c # r))"

lemma value_textD:
  "value_text t v \<Longrightarrow> c \<in> {ch CHR '','', ch CHR ''}''} \<Longrightarrow>
     parse_value (Suc n) depth (str_bytes t @ c # r) = Some (v, c # r)"
  by (simp only: value_text_def)

definition fixed :: "string \<Rightarrow> string" where
  "fixed s = bytes_str (utf8_fix (str_bytes s))"

lemma fixed_ok: "utf8_ok (str_bytes s) \<Longrightarrow> fixed s = s"
  by (simp add: fixed_def utf8_fix_ok)

lemma marshal_string_bytes:
  "str_bytes (marshal_string s) @ r = ch CHR ''\"'' # str_bytes (marshal_chars (length s) (str_bytes s)) @ ch CHR ''\"'' # r"
  by (simp add: marshal_string_def str_bytes_simps)

lemma skip_ws_solid: "\<not> is_ws b \<Longrightarrow> skip_ws (b # r) = b # r"
  by (simp add: skip_ws_def)

lemma value_text_string: "value_text (marshal_string s) (JStr (fixed s))"
  unfolding value_text_def
proof (intro allI impI)
  fix n depth r and c :: byte assume "c \<in> {ch CHR '','', ch CHR ''}''}"
  show "parse_value (Suc n) depth (str_bytes (marshal_string s) @ c # r) = Some (JStr (fixed s), c # r)"
    using parse_marshal_string [OF refl, of s "c # r"]
    by (simp add: marshal_string_bytes skip_ws_solid is_ws_def fixed_def del: parse_chars.simps)
qed

lemma value_text_true: "value_text ''true'' (JBool True)"
  by (auto simp: value_text_def str_bytes_simps skip_ws_solid is_ws_def strip_prefix_def)

subsection \<open>Numbers\<close>

lemma dec_digit_byte:
  assumes "n < 10"
  shows "is_digit (ch (''0123456789'' ! n)) \<and> (unat (ch (''0123456789'' ! n) :: byte) = 48 + n)"
proof -
  have "n \<in> {0, 1, 2, 3, 4, 5, 6, 7, 8, 9}" using assms by auto
  then show ?thesis by (elim insertE) (simp_all add: is_digit_def)
qed

lemma show_nat_bytes:
  "show_nat n \<noteq> [] \<and> list_all is_digit (str_bytes (show_nat n))
   \<and> (hd (str_bytes (show_nat n)) = ch CHR ''0'' \<longrightarrow> n = 0)"
proof (induction n rule: show_nat.induct)
  case (1 n)
  show ?case
  proof (cases "n < 10")
    case True
    then show ?thesis
      using dec_digit_byte [OF True] by (auto simp: show_nat.simps [of n] str_bytes_def)
  next
    case False
    with 1 have "show_nat (n div 10) \<noteq> []" "list_all is_digit (str_bytes (show_nat (n div 10)))"
      "hd (str_bytes (show_nat (n div 10))) = ch CHR ''0'' \<longrightarrow> n div 10 = 0" by simp_all
    with False dec_digit_byte [of "n mod 10"] show ?thesis
      by (auto simp: show_nat.simps [of n] str_bytes_def hd_append)
  qed
qed

lemma digits_run:
  "list_all is_digit ds \<Longrightarrow> ds \<noteq> [] \<Longrightarrow> \<not> is_digit c \<Longrightarrow> digits (ds @ c # r) = Some (ds, c # r)"
  by (cases ds) (auto simp: digits_def list_all_iff takeWhile_append dropWhile_append)

lemma parse_number_show_nat:
  assumes "c \<in> {ch CHR '','', ch CHR ''}''}"
  shows "parse_number (str_bytes (show_nat n) @ c # r) = Some (str_bytes (show_nat n), c # r)"
proof -
  have nd: "\<not> is_digit c" using assms by (auto simp: is_digit_def)
  obtain d ds where d: "str_bytes (show_nat n) = d # ds"
    using show_nat_bytes [of n] by (cases "str_bytes (show_nat n)") (auto simp: str_bytes_def)
  have dig: "is_digit d" "list_all is_digit (d # ds)" using show_nat_bytes [of n] by (simp_all add: d)
  have minus: "d \<noteq> ch CHR ''-''" using dig(1) by (auto simp: is_digit_def)
  show ?thesis
  proof (cases "d = ch CHR ''0''")
    case True
    then have "n = 0" using show_nat_bytes [of n] by (simp add: d)
    then show ?thesis using assms by (auto simp: show_nat.simps [of 0] str_bytes_def parse_number_def Let_def)
  next
    case False
    then show ?thesis
      using digits_run [OF dig(2) _ nd, of r] minus assms by (auto simp: d parse_number_def Let_def)
  qed
qed

lemma parse_number_minus:
  assumes "parse_number (d # b) = Some (x, q)" "d \<noteq> ch CHR ''-''"
  shows "parse_number (ch CHR ''-'' # d # b) = Some (ch CHR ''-'' # x, q)"
  using assms by (auto simp: parse_number_def Let_def split: option.splits if_splits)

lemma parse_number_show_int:
  assumes "c \<in> {ch CHR '','', ch CHR ''}''}"
  shows "parse_number (str_bytes (show_int i) @ c # r) = Some (str_bytes (show_int i), c # r)"
proof (cases "i < 0")
  case True
  obtain d ds where d: "str_bytes (show_nat (nat (- i))) = d # ds"
    using show_nat_bytes by (cases "str_bytes (show_nat (nat (- i)))") (auto simp: str_bytes_def)
  have "is_digit d" using show_nat_bytes [of "nat (- i)"] by (simp add: d)
  then have "d \<noteq> ch CHR ''-''" by (auto simp: is_digit_def)
  moreover have "str_bytes (show_int i) = ch CHR ''-'' # d # ds"
    using True d by (simp add: show_int_def str_bytes_def)
  ultimately show ?thesis
    using parse_number_minus [of d "ds @ c # r"] parse_number_show_nat [OF assms, of "nat (- i)" r]
    by (simp add: d)
next
  case False
  then show ?thesis using parse_number_show_nat [OF assms] by (simp add: show_int_def)
qed

lemma show_int_head: "\<exists>d ds. str_bytes (show_int i) = d # ds \<and> (is_digit d \<or> d = ch CHR ''-'')"
proof -
  obtain d ds where "str_bytes (show_nat (nat i)) = d # ds"
    using show_nat_bytes by (cases "str_bytes (show_nat (nat i))") (auto simp: str_bytes_def)
  then show ?thesis
    using show_nat_bytes [of "nat i"] by (cases "i < 0") (simp_all add: show_int_def str_bytes_def)
qed

lemma parse_value_number:
  assumes "parse_number (d # b) = Some (x, q)" "is_digit d \<or> d = ch CHR ''-''"
  shows "parse_value (Suc n) depth (d # b) = Some (JNum (bytes_str x), q)"
proof -
  have "d \<notin> {ch CHR ''{'', ch CHR ''['', ch CHR ''\"'', ch CHR ''t'', ch CHR ''f'', ch CHR ''n''} \<and> \<not> is_ws d"
    using assms(2) by (auto simp: is_digit_def is_ws_def)
  with assms(1) show ?thesis by (simp add: skip_ws_def)
qed

lemma value_text_int: "value_text (show_int i) (JNum (show_int i))"
  unfolding value_text_def
proof (intro allI impI)
  fix n depth r and c :: byte assume "c \<in> {ch CHR '','', ch CHR ''}''}"
  note num = parse_number_show_int [OF this, of i r]
  obtain d ds where d: "str_bytes (show_int i) = d # ds" "is_digit d \<or> d = ch CHR ''-''"
    using show_int_head by blast
  have "parse_value (Suc n) depth (d # ds @ c # r) = Some (JNum (bytes_str (str_bytes (show_int i))), c # r)"
    using num d by (intro parse_value_number) simp_all
  then show "parse_value (Suc n) depth (str_bytes (show_int i) @ c # r) = Some (JNum (show_int i), c # r)"
    by (simp add: d(1) [symmetric] del: parse_value.simps) (simp add: d(1) del: parse_value.simps)
qed

subsection \<open>Objects\<close>

lemma join_with_length: "\<forall>x\<in>set xs. x \<noteq> [] \<Longrightarrow> length xs \<le> length (join_with sep xs)"
proof (cases xs)
  case (Cons y ys)
  assume "\<forall>x\<in>set xs. x \<noteq> []"
  with Cons have "0 < length y" "\<forall>x\<in>set ys. x \<noteq> []" by auto
  moreover from this(2) have "length ys \<le> length (concat (map (\<lambda>x. sep @ x) ys))"
  proof (induction ys)
    case (Cons a as)
    then show ?case by (cases a) simp_all
  qed simp
  ultimately show ?thesis by (cases y) (simp_all add: Cons join_with_def)
qed (simp add: join_with_def)

lemma parse_members_text:
  assumes "list_all (\<lambda>(k, t, v). value_text t v) es" "es \<noteq> []" "length es < n"
  shows "parse_members n depth
      (str_bytes (join_with '','' (map (\<lambda>(k, t, v). marshal_string k @ '':'' @ t) es)) @ ch CHR ''}'' # r)
    = Some (map (\<lambda>(k, t, v). (fixed k, v)) es, r)"
  using assms
proof (induction es arbitrary: n)
  case (Cons e es)
  obtain k t v where e: "e = (k, t, v)" by (cases e)
  obtain m where n: "n = Suc (Suc m)" using Cons.prems(3) by (cases n; cases "n - 1") auto
  let ?tail = "if es = [] then ch CHR ''}'' # r
    else ch CHR '','' # str_bytes (join_with '','' (map (\<lambda>(k, t, v). marshal_string k @ '':'' @ t) es)) @ ch CHR ''}'' # r"
  have shape: "str_bytes (join_with '','' (map (\<lambda>(k, t, v). marshal_string k @ '':'' @ t) (e # es))) @ ch CHR ''}'' # r
      = str_bytes (marshal_string k) @ ch CHR '':'' # str_bytes t @ ?tail"
    by (cases es) (simp_all add: e join_with_def str_bytes_simps)
  obtain c q where c: "?tail = c # q" "c \<in> {ch CHR '','', ch CHR ''}''}" by (cases "es = []") simp_all
  have v: "parse_value (Suc m) depth (str_bytes t @ c # q) = Some (v, c # q)"
    using value_textD [of t v c m depth q] Cons.prems(1) c(2) by (simp add: e del: parse_value.simps)
  have members: "parse_members n depth (str_bytes (marshal_string k) @ ch CHR '':'' # str_bytes t @ c # q) =
      (if c = ch CHR ''}'' then Some ([(fixed k, v)], q)
       else map_option (\<lambda>(ms, t). ((fixed k, v) # ms, t)) (parse_members (Suc m) depth q))"
    using parse_marshal_string [OF refl, of k "ch CHR '':'' # str_bytes t @ c # q"] v c(2)
    by (auto simp: n marshal_string_bytes skip_ws_solid is_ws_def fixed_def
        simp del: parse_chars.simps parse_value.simps)
  show ?case
  proof (cases "es = []")
    case True
    with c members shape show ?thesis by (simp add: e del: parse_members.simps)
  next
    case False
    with c have q: "c = ch CHR '',''" "q = str_bytes (join_with '','' (map (\<lambda>(k, t, v). marshal_string k @ '':'' @ t) es)) @ ch CHR ''}'' # r"
      by simp_all
    have "parse_members (Suc m) depth q = Some (map (\<lambda>(k, t, v). (fixed k, v)) es, r)"
      using Cons.IH [of "Suc m"] Cons.prems False by (simp add: n q(2) del: parse_members.simps)
    with q(1) members shape c(1) show ?thesis by (simp add: e del: parse_members.simps)
  qed
qed simp

lemma parse_object:
  "parse_members n (Suc depth) (ch CHR ''\"'' # q) = Some (ms, r) \<Longrightarrow> depth < maxNestingDepth \<Longrightarrow>
     parse_value (Suc n) depth (ch CHR ''{'' # ch CHR ''\"'' # q) = Some (JObj ms, r)"
  by (simp add: skip_ws_solid is_ws_def del: parse_members.simps)

lemma parse_marshal_raw:
  assumes "list_all (\<lambda>(k, t, v). value_text t v) es" "es \<noteq> []"
  shows "parse_json (marshal_raw (map (\<lambda>(k, t, v). (k, t)) es)) = Some (JObj (map (\<lambda>(k, t, v). (fixed k, v)) es))"
proof -
  let ?body = "str_bytes (join_with '','' (map (\<lambda>(k, t, v). marshal_string k @ '':'' @ t) es)) @ [ch CHR ''}'']"
  have m: "marshal_raw (map (\<lambda>(k, t, v). (k, t)) es) = ch CHR ''{'' # ?body"
    by (simp add: marshal_raw_def str_bytes_simps o_def case_prod_beta')
  have l: "length es \<le> length (join_with '','' (map (\<lambda>(k, t, v). marshal_string k @ '':'' @ t) es))"
    using join_with_length [of "map (\<lambda>(k, t, v). marshal_string k @ '':'' @ t) es"]
    by (fastforce simp: marshal_string_def)
  obtain k t v es' where "es = (k, t, v) # es'" using assms(2) by (cases es) auto
  then have "\<exists>q. ?body = ch CHR ''\"'' # q"
    by (simp add: join_with_def marshal_string_def str_bytes_simps)
  then obtain q where q: "?body = ch CHR ''\"'' # q" ..
  have "parse_members (2 * length ?body + 3) (Suc 0) ?body = Some (map (\<lambda>(k, t, v). (fixed k, v)) es, [])"
    using parse_members_text [OF assms, of "2 * length ?body + 3" "Suc 0" "[]"] l by simp
  then have "parse_value (Suc (2 * length ?body + 3)) 0 (ch CHR ''{'' # ?body) =
      Some (JObj (map (\<lambda>(k, t, v). (fixed k, v)) es), [])"
    unfolding q by (rule parse_object) (simp add: maxNestingDepth_def)
  moreover have "2 * length (ch CHR ''{'' # ?body) + 2 = Suc (2 * length ?body + 3)" by simp
  ultimately have "parse_value (2 * length (ch CHR ''{'' # ?body) + 2) 0 (ch CHR ''{'' # ?body) =
      Some (JObj (map (\<lambda>(k, t, v). (fixed k, v)) es), [])" by metis
  then show ?thesis
    unfolding parse_json_def m by (simp only: option.case prod.case) (simp add: skip_ws_def)
qed

text \<open>A map of strings, as \<^verbatim>\<open>json.Marshal\<close> writes it.\<close>

lemma parse_marshal_entries:
  assumes "es \<noteq> []"
  shows "parse_json (marshal_entries es) = Some (JObj (map (\<lambda>(k, v). (fixed k, JStr (fixed v))) es))"
proof -
  let ?fs = "map (\<lambda>(k, v). (k, marshal_string v, JStr (fixed v))) es"
  have "list_all (\<lambda>(k, t, v). value_text t v) ?fs"
    by (auto simp: list_all_iff value_text_string)
  from parse_marshal_raw [OF this] assms show ?thesis
    by (simp add: marshal_entries_def o_def case_prod_beta')
qed

lemma fixed_ascii: "list_all (\<lambda>c. of_char c < (0x80 :: byte)) s \<Longrightarrow> fixed s = s"
  by (intro fixed_ok utf8_ok_ascii) (simp add: str_bytes_def list_all_iff)

end
