(* ===== verification/Duration.thy ===== *)
theory Duration
  imports Prelude
begin

text \<open>
  What the runner uses of Go's \<^verbatim>\<open>time.Duration\<close>: a duration is an \<open>int\<close> of nanoseconds
  (kept in 64 bits where the code multiplies), and \<^verbatim>\<open>Seconds()\<close> is a float64. The float64
  operations on the way are modelled with their rounding: a non-negative float is a pair
  \<open>(m, k)\<close> that stands for \<open>m / 2 ^ k\<close>, and quotient and sum are rounded to 53 bits, half to
  even.
\<close>

definition Second :: int where "Second = 10 ^ 9"
definition Millisecond :: int where "Millisecond = 10 ^ 6"

definition wrap64 :: "int \<Rightarrow> int" where
  "wrap64 x = sint (word_of_int x :: 64 word)"

subsection \<open>Float64 numbers\<close>

fun bit_len :: "nat \<Rightarrow> nat" where
  "bit_len n = (if n = 0 then 0 else Suc (bit_len (n div 2)))"

declare bit_len.simps [simp del]

definition round_half_even :: "nat \<Rightarrow> nat \<Rightarrow> nat" where
  "round_half_even a b =
     (let q = a div b; r = a mod b
      in if 2 * r < b \<or> (2 * r = b \<and> even q) then q else q + 1)"

text \<open>The quotient of two integers below \<open>2 ^ 53\<close>, for \<open>0 < a < b\<close>: 53 significant bits.\<close>

definition fl_div :: "nat \<Rightarrow> nat \<Rightarrow> nat \<times> nat" where
  "fl_div a b =
     (let k0 = 52 + bit_len b - bit_len a;
          k = (if a * 2 ^ k0 < 2 ^ 52 * b then k0 + 1 else k0)
      in (round_half_even (a * 2 ^ k) b, k))"

definition fl_add :: "nat \<Rightarrow> nat \<times> nat \<Rightarrow> nat \<times> nat" where
  "fl_add n f =
     (if n = 0 then f
      else case f of (m, k) \<Rightarrow>
        let x = n * 2 ^ k + m; s = bit_len x - 53
        in (round_half_even x (2 ^ s), k - s))"

definition fl_ceil :: "nat \<times> nat \<Rightarrow> nat" where
  "fl_ceil f = (case f of (m, k) \<Rightarrow> (m + 2 ^ k - 1) div 2 ^ k)"

definition fl_trunc :: "nat \<times> nat \<Rightarrow> nat" where
  "fl_trunc f = (case f of (m, k) \<Rightarrow> m div 2 ^ k)"

text \<open>\<^verbatim>\<open>Duration.Seconds\<close> of a non-negative duration, and its conversion to an integer.\<close>

definition Seconds :: "nat \<Rightarrow> nat \<times> nat" where
  "Seconds d =
     (let sec = d div 10 ^ 9; nsec = d mod 10 ^ 9
      in fl_add sec (if nsec = 0 then (0, 0) else fl_div nsec (10 ^ 9)))"

definition seconds_int :: "int \<Rightarrow> int" where
  "seconds_int d =
     (if d < 0 then - int (fl_trunc (Seconds (nat (- d)))) else int (fl_trunc (Seconds (nat d))))"

subsection \<open>Rounding\<close>

lemma bit_len_less: "n < 2 ^ bit_len n"
proof (induction n rule: bit_len.induct)
  case (1 n)
  then show ?case by (cases "n = 0") (auto simp: bit_len.simps [of n])
qed

lemma bit_len_ge: "0 < n \<Longrightarrow> 2 ^ (bit_len n - 1) \<le> n"
proof (induction n rule: bit_len.induct)
  case (1 n)
  show ?case
  proof (cases "n div 2 = 0")
    case True
    with 1(2) show ?thesis by (simp add: bit_len.simps [of n] bit_len.simps [of 0])
  next
    case False
    with 1 have "2 ^ (bit_len (n div 2) - 1) \<le> n div 2" by simp
    moreover have "0 < bit_len (n div 2)" using False by (simp add: bit_len.simps [of "n div 2"])
    ultimately have "2 ^ bit_len (n div 2) \<le> n"
      by (cases "bit_len (n div 2)") auto
    with 1(2) show ?thesis by (simp add: bit_len.simps [of n])
  qed
qed

lemma bit_len_le: "n < 2 ^ k \<Longrightarrow> bit_len n \<le> k"
proof (rule ccontr)
  assume a: "n < 2 ^ k" "\<not> bit_len n \<le> k"
  then have "0 < n" by (cases "n = 0") (simp_all add: bit_len.simps)
  then have "2 ^ (bit_len n - 1) \<le> n" by (rule bit_len_ge)
  moreover have "(2::nat) ^ k \<le> 2 ^ (bit_len n - 1)" using a by (intro power_increasing) auto
  ultimately have "2 ^ k \<le> n" by (rule order_trans [rotated])
  with a(1) show False by simp
qed

lemma bit_len_mono: "m \<le> n \<Longrightarrow> bit_len m \<le> bit_len n"
  using bit_len_less [of n] by (intro bit_len_le) simp

lemma round_ge: "0 < b \<Longrightarrow> n * b \<le> a \<Longrightarrow> n \<le> round_half_even a b"
  by (auto simp: round_half_even_def Let_def less_eq_div_iff_mult_less_eq intro: le_SucI)

lemma round_le:
  assumes "0 < b" "a \<le> n * b"
  shows "round_half_even a b \<le> n"
proof (cases "a div b = n")
  case True
  have "a = n * b + a mod b" using True by (metis div_mult_mod_eq)
  then have "a mod b = 0" using assms(2) by linarith
  with True assms(1) show ?thesis by (simp add: round_half_even_def Let_def)
next
  case False
  with assms have "a div b < n"
    by (metis div_le_mono div_mult_self_is_m le_neq_implies_less)
  then show ?thesis by (simp add: round_half_even_def Let_def)
qed

lemma fl_div_bounds:
  assumes "0 < a" "a < b" "b < 2 ^ 52"
  shows "case fl_div a b of (m, k) \<Rightarrow> 0 < m \<and> m < 2 ^ k"
proof -
  define k0 where "k0 = 52 + bit_len b - bit_len a"
  define k where "k = (if a * 2 ^ k0 < 2 ^ 52 * b then k0 + 1 else k0)"
  have len: "bit_len a \<le> bit_len b" using assms by (simp add: bit_len_mono)
  then have "52 \<le> k0" by (simp add: k0_def)
  then have k: "52 \<le> k" by (simp add: k_def)
  have "b < 2 ^ bit_len b" by (rule bit_len_less)
  also have "(2::nat) ^ bit_len b \<le> 2 ^ (bit_len a - 1) * 2 ^ k0"
    using len assms(1) by (simp add: k0_def bit_len.simps [of a] flip: power_add)
  also have "\<dots> \<le> a * 2 ^ k0" using bit_len_ge [OF assms(1)] by simp
  also have "\<dots> \<le> a * 2 ^ k" by (simp add: k_def)
  finally have "1 * b \<le> a * 2 ^ k" by simp
  with assms have "1 \<le> round_half_even (a * 2 ^ k) b" by (intro round_ge) simp_all
  moreover have "a * 2 ^ k \<le> (2 ^ k - 1) * b"
  proof -
    have "b \<le> 2 ^ k" using assms(3) power_increasing [OF k, of "2::nat"] by simp
    then have "b \<le> (b - a) * 2 ^ k" using assms(2) by (metis le_trans mult.commute mult_le_mono2 nat_mult_1_right Suc_leI zero_less_diff One_nat_def)
    then have "a * 2 ^ k + b \<le> b * 2 ^ k" using assms(2) by (simp add: diff_mult_distrib)
    moreover have "(2 ^ k - 1) * b = 2 ^ k * b - b" by (simp only: diff_mult_distrib mult_1)
    moreover have "(2 ^ k) * b = b * 2 ^ k" by (rule mult.commute)
    ultimately show ?thesis by linarith
  qed
  then have "round_half_even (a * 2 ^ k) b \<le> 2 ^ k - 1" using assms by (intro round_le) simp_all
  moreover have "fl_div a b = (round_half_even (a * 2 ^ k) b, k)"
    by (simp add: fl_div_def k_def k0_def Let_def)
  moreover have "(0::nat) < 2 ^ k" by simp
  then have "r \<le> 2 ^ k - 1 \<Longrightarrow> r < 2 ^ k" for r :: nat by linarith
  ultimately show ?thesis by auto
qed

lemma fl_add_bounds:
  assumes "0 < n" "n < 2 ^ 34" "m \<le> 2 ^ k" "m = 0 \<longrightarrow> k = 0"
  shows "case fl_add n (m, k) of (m', k') \<Rightarrow> n * 2 ^ k' \<le> m' \<and> m' \<le> (n + 1) * 2 ^ k'
    \<and> (m = 0 \<longrightarrow> m' = n \<and> k' = 0)"
proof -
  define x where "x = n * 2 ^ k + m"
  define s where "s = bit_len x - 53"
  have "x < 2 ^ (35 + k)"
  proof -
    have "x \<le> (n + 1) * 2 ^ k" using assms(3) by (simp add: x_def)
    also have "\<dots> \<le> 2 ^ 34 * 2 ^ k" using assms(2) by simp
    also have "\<dots> < 2 ^ (35 + k)" by (simp add: power_add)
    finally show ?thesis .
  qed
  then have "bit_len x \<le> 35 + k" by (rule bit_len_le)
  then have s: "s \<le> k" "m = 0 \<Longrightarrow> s = 0" using assms(4) by (simp_all add: s_def)
  have p: "(2::nat) ^ (k - s) * 2 ^ s = 2 ^ k" using s(1) by (simp flip: power_add)
  have "n * 2 ^ (k - s) * 2 ^ s \<le> x" using p by (simp add: x_def mult.assoc)
  then have "n * 2 ^ (k - s) \<le> round_half_even x (2 ^ s)" by (intro round_ge) simp_all
  moreover have "x \<le> (n + 1) * 2 ^ (k - s) * 2 ^ s"
    unfolding mult.assoc p using assms(3) by (simp add: x_def)
  then have "round_half_even x (2 ^ s) \<le> (n + 1) * 2 ^ (k - s)" by (intro round_le) simp_all
  moreover have "fl_add n (m, k) = (round_half_even x (2 ^ s), k - s)"
    using assms(1) by (simp add: fl_add_def x_def s_def Let_def)
  moreover have "m = 0 \<Longrightarrow> round_half_even x (2 ^ s) = n \<and> k - s = 0"
    using s(2) assms(4) by (simp add: x_def round_half_even_def)
  ultimately show ?thesis by auto
qed

text \<open>Whole seconds are exact; otherwise the float lies between the neighbouring whole seconds.\<close>

lemma Seconds_bounds:
  assumes "d < 2 ^ 63" "sec = d div 10 ^ 9" "nsec = d mod 10 ^ 9"
  obtains m k where "Seconds d = (m, k)" "sec * 2 ^ k \<le> m" "m \<le> (sec + 1) * 2 ^ k"
    "nsec = 0 \<Longrightarrow> m = sec \<and> k = 0" "sec = 0 \<Longrightarrow> nsec \<noteq> 0 \<Longrightarrow> 0 < m \<and> m < 2 ^ k"
proof -
  define f where "f = (if nsec = 0 then (0, 0) else fl_div nsec (10 ^ 9))"
  obtain m0 k0 where f: "f = (m0, k0)" by (cases f)
  have f0: "nsec = 0 \<Longrightarrow> m0 = 0 \<and> k0 = 0" using f by (simp add: f_def)
  have f1: "nsec \<noteq> 0 \<Longrightarrow> 0 < m0 \<and> m0 < 2 ^ k0"
    using fl_div_bounds [of nsec "10 ^ 9"] f by (simp add: f_def assms(3))
  have S: "Seconds d = fl_add sec (m0, k0)"
    unfolding Seconds_def Let_def assms(2,3) [symmetric] f_def [symmetric] f ..
  show thesis
  proof (cases "sec = 0")
    case True
    with S f0 f1 show thesis
      by (cases "nsec = 0") (auto intro!: that [of m0 k0] simp: fl_add_def)
  next
    case False
    obtain m k where mk: "fl_add sec (m0, k0) = (m, k)" by fastforce
    have "sec < 2 ^ 34" using assms(1,2) by simp
    moreover have "m0 \<le> 2 ^ k0" "m0 = 0 \<longrightarrow> k0 = 0" using f0 f1 by (cases "nsec = 0"; simp)+
    moreover have "nsec = 0 \<Longrightarrow> m0 = 0" using f0 by simp
    ultimately show thesis
      using False mk S fl_add_bounds [of sec m0 k0] by (intro that [of m k]) auto
  qed
qed

lemma fl_ceil_bounds:
  "n * 2 ^ k \<le> m \<Longrightarrow> m \<le> (n + 1) * 2 ^ k \<Longrightarrow> n \<le> fl_ceil (m, k) \<and> fl_ceil (m, k) \<le> n + 1"
proof -
  assume b: "n * 2 ^ k \<le> m" "m \<le> (n + 1) * 2 ^ k"
  have p: "(0::nat) < 2 ^ k" by simp
  have "n * 2 ^ k \<le> m + 2 ^ k - 1" using b(1) p by linarith
  moreover have "m + 2 ^ k - 1 < (n + 2) * 2 ^ k" 
  proof -
    have "(n + 1) * 2 ^ k = n * 2 ^ k + 2 ^ k" "(n + 2) * 2 ^ k = n * 2 ^ k + 2 ^ k + 2 ^ k" by simp_all
    with b(2) p show ?thesis by linarith
  qed
  ultimately have "n \<le> (m + 2 ^ k - 1) div 2 ^ k" "(m + 2 ^ k - 1) div 2 ^ k < n + 2"
    using p by (simp_all only: less_eq_div_iff_mult_less_eq less_mult_imp_div_less)
  then show ?thesis by (simp add: fl_ceil_def)
qed

lemma fl_trunc_bounds:
  "n * 2 ^ k \<le> m \<Longrightarrow> m \<le> (n + 1) * 2 ^ k \<Longrightarrow> n \<le> fl_trunc (m, k) \<and> fl_trunc (m, k) \<le> n + 1"
  by (simp add: fl_trunc_def less_eq_div_iff_mult_less_eq) (metis Suc_eq_plus1 add.commute
      div_le_mono div_mult_self_is_m plus_1_eq_Suc mult_Suc zero_less_numeral zero_less_power)

text \<open>Rounding up to whole seconds never gives zero, and is off by less than a second.\<close>

lemma ceil_seconds:
  assumes "0 < d" "d < 2 ^ 63"
  shows "1 \<le> fl_ceil (Seconds d)" "d div 10 ^ 9 \<le> fl_ceil (Seconds d)"
    "fl_ceil (Seconds d) * 10 ^ 9 < d + 10 ^ 9"
proof -
  define sec where "sec = d div 10 ^ 9"
  define nsec where "nsec = d mod 10 ^ 9"
  have d: "d = sec * 10 ^ 9 + nsec" by (simp add: sec_def nsec_def)
  obtain m k where S: "Seconds d = (m, k)" "sec * 2 ^ k \<le> m" "m \<le> (sec + 1) * 2 ^ k"
    and e: "nsec = 0 \<Longrightarrow> m = sec \<and> k = 0" and z: "sec = 0 \<Longrightarrow> nsec \<noteq> 0 \<Longrightarrow> 0 < m \<and> m < 2 ^ k"
    using Seconds_bounds [OF assms(2) sec_def nsec_def] by blast
  have c: "sec \<le> fl_ceil (m, k)" "fl_ceil (m, k) \<le> sec + 1" using fl_ceil_bounds [OF S(2,3)] by auto
  have c0: "nsec = 0 \<Longrightarrow> fl_ceil (m, k) = sec" using e by (simp add: fl_ceil_def)
  show "d div 10 ^ 9 \<le> fl_ceil (Seconds d)" using c(1) S(1) by (simp add: sec_def)
  show "fl_ceil (Seconds d) * 10 ^ 9 < d + 10 ^ 9"
    using c(2) c0 S(1) d by (cases "nsec = 0") auto
  show "1 \<le> fl_ceil (Seconds d)"
  proof (cases "sec = 0")
    case True
    with d assms(1) have "nsec \<noteq> 0" by simp
    with z True have "0 < m" by simp
    then have "2 ^ k \<le> m + 2 ^ k - 1" by linarith
    then show ?thesis by (simp add: S(1) fl_ceil_def less_eq_div_iff_mult_less_eq)
  qed (use c S in simp)
qed

lemma trunc_seconds:
  assumes "d < 2 ^ 63"
  shows "d < 10 ^ 9 \<Longrightarrow> fl_trunc (Seconds d) = 0" "fl_trunc (Seconds (s * 10 ^ 9)) = s \<or> 2 ^ 63 \<le> s * 10 ^ 9"
    "d div 10 ^ 9 \<le> fl_trunc (Seconds d) \<and> fl_trunc (Seconds d) \<le> d div 10 ^ 9 + 1"
proof -
  { fix s :: nat assume "s * 10 ^ 9 < 2 ^ 63"
    then obtain m k where "Seconds (s * 10 ^ 9) = (m, k)" "m = s \<and> k = 0"
      using Seconds_bounds [of "s * 10 ^ 9" s 0] by (metis mod_mult_self2_is_0 nonzero_mult_div_cancel_right power_not_zero zero_neq_numeral)
    then have "fl_trunc (Seconds (s * 10 ^ 9)) = s" by (simp add: fl_trunc_def) }
  then show "fl_trunc (Seconds (s * 10 ^ 9)) = s \<or> 2 ^ 63 \<le> s * 10 ^ 9" using not_le by blast
  obtain m k where S: "Seconds d = (m, k)" "d div 10 ^ 9 * 2 ^ k \<le> m" "m \<le> (d div 10 ^ 9 + 1) * 2 ^ k"
    and e: "d mod 10 ^ 9 = 0 \<Longrightarrow> m = d div 10 ^ 9 \<and> k = 0"
    and z: "d div 10 ^ 9 = 0 \<Longrightarrow> d mod 10 ^ 9 \<noteq> 0 \<Longrightarrow> 0 < m \<and> m < 2 ^ k"
    using Seconds_bounds [OF assms refl refl] by blast
  show "d div 10 ^ 9 \<le> fl_trunc (Seconds d) \<and> fl_trunc (Seconds d) \<le> d div 10 ^ 9 + 1"
    using fl_trunc_bounds [OF S(2,3)] S(1) by simp
  assume l: "d < 10 ^ 9"
  then have "d div 10 ^ 9 = 0" "d mod 10 ^ 9 = d" by simp_all
  with e z show "fl_trunc (Seconds d) = 0" unfolding S(1) fl_trunc_def by (cases "d = 0") auto
qed

end
