(* ===== verification/Ring.thy ===== *)
theory Ring
  imports Prelude "HOL-Library.Sublist"
begin

text \<open>
  \<^verbatim>\<open>src/runner/internal/ptysession/ring.go\<close>: the resume ring that keeps the last bytes of
  the PTY's output. \<open>resume_buffer\<close> is what the orchestrator relies on when it repaints a
  viewer; it is interpreted on the ring. The mutex makes each operation atomic, so an operation
  is a function on the state.
\<close>

record Ring =
  rbuf :: bytes
  rmax :: nat

definition NewRing :: "int \<Rightarrow> Ring" where
  "NewRing mx = (let mx' = (if mx < 1 then 1 else mx) in \<lparr>rbuf = [], rmax = nat mx'\<rparr>)"

definition Write :: "Ring \<Rightarrow> bytes \<Rightarrow> Ring \<times> nat" where
  "Write r p =
     (let buf = rbuf r @ p;
          over = int (length buf) - int (rmax r);
          buf' = (if over > 0 then drop (nat over) buf else buf)
      in (r\<lparr>rbuf := buf'\<rparr>, length p))"

text \<open>The loop that skips continuation bytes (\<^verbatim>\<open>b&0xC0 == 0x80\<close>).\<close>

function snapshot_start :: "bytes \<Rightarrow> nat \<Rightarrow> nat" where
  "snapshot_start buf start =
     (if start < length buf \<and> (buf ! start) AND 0xC0 = 0x80
      then snapshot_start buf (start + 1) else start)"
  by pat_completeness auto
termination
  by (relation "measure (\<lambda>(buf, start). length buf - start)") auto

declare snapshot_start.simps [simp del]

definition Snapshot :: "Ring \<Rightarrow> bytes" where
  "Snapshot r = drop (snapshot_start (rbuf r) 0) (rbuf r)"

subsection \<open>Reference notions\<close>

definition is_cont :: "byte \<Rightarrow> bool" where
  "is_cont b \<longleftrightarrow> b AND 0xC0 = 0x80"

definition last_n :: "nat \<Rightarrow> 'a list \<Rightarrow> 'a list" where
  "last_n n xs = drop (length xs - n) xs"

text \<open>Well-formed UTF-8 (Unicode table 3-7), one scalar value at a time.\<close>

fun utf8_seq :: "bytes \<Rightarrow> bool" where
  "utf8_seq [a] \<longleftrightarrow> a \<le> 0x7F"
| "utf8_seq [a, b] \<longleftrightarrow> 0xC2 \<le> a \<and> a \<le> 0xDF \<and> is_cont b"
| "utf8_seq [a, b, c] \<longleftrightarrow>
     is_cont b \<and> is_cont c \<and>
     (a = 0xE0 \<and> 0xA0 \<le> b \<or> 0xE1 \<le> a \<and> a \<le> 0xEC \<or> a = 0xED \<and> b \<le> 0x9F
      \<or> a = 0xEE \<or> a = 0xEF)"
| "utf8_seq [a, b, c, d] \<longleftrightarrow>
     is_cont b \<and> is_cont c \<and> is_cont d \<and>
     (a = 0xF0 \<and> 0x90 \<le> b \<or> 0xF1 \<le> a \<and> a \<le> 0xF3 \<or> a = 0xF4 \<and> b \<le> 0x8F)"
| "utf8_seq _ \<longleftrightarrow> False"

definition valid_utf8 :: "bytes \<Rightarrow> bool" where
  "valid_utf8 b \<longleftrightarrow> (\<exists>rs. list_all utf8_seq rs \<and> b = concat rs)"

subsection \<open>Helper lemmas\<close>

lemma last_n_append:
  "last_n n (last_n n xs @ ys) = last_n n (xs @ ys)"
  by (cases "length xs \<le> n") (auto simp: last_n_def add.commute)

lemma length_last_n [simp]: "length (last_n n xs) = min n (length xs)"
  by (simp add: last_n_def)

lemma last_n_all: "length xs \<le> n \<Longrightarrow> last_n n xs = xs"
  by (simp add: last_n_def)

lemma suffix_last_n: "suffix (last_n n xs) xs"
  by (simp add: last_n_def suffix_drop)

lemma suffix_dropWhile': "suffix (dropWhile P xs) xs"
  by (metis suffix_def takeWhile_dropWhile_id)

lemma drop_snapshot_start:
  "drop (snapshot_start buf start) buf = dropWhile is_cont (drop start buf)"
proof (induction buf start rule: snapshot_start.induct)
  case (1 buf start)
  show ?case
  proof (cases "start < length buf")
    case True
    then have d: "drop start buf = buf ! start # drop (Suc start) buf"
      by (simp add: Cons_nth_drop_Suc)
    show ?thesis
      using 1 True by (cases "is_cont (buf ! start)")
        (simp_all add: snapshot_start.simps [of buf start] d is_cont_def)
  next
    case False
    then show ?thesis by (simp add: snapshot_start.simps [of buf start])
  qed
qed

lemma is_cont_iff: "is_cont b \<longleftrightarrow> 0x80 \<le> b \<and> b \<le> 0xBF"
  by (rule byte_all [of _ b]) code_simp

lemma utf8_seq_shape:
  "utf8_seq r \<Longrightarrow> r \<noteq> [] \<and> \<not> is_cont (hd r) \<and> list_all is_cont (tl r)"
  by (induction r rule: utf8_seq.induct) (auto simp: is_cont_iff word_le_nat_alt)

lemma dropWhile_cont_concat:
  "list_all utf8_seq rs \<Longrightarrow> dropWhile is_cont (concat rs) = concat rs"
proof (cases rs)
  case (Cons r rs')
  moreover assume "list_all utf8_seq rs"
  ultimately obtain a s where "r = a # s" "\<not> is_cont a"
    using utf8_seq_shape [of r] by (cases r) auto
  with Cons show ?thesis by simp
qed simp

lemma dropWhile_cont_drop_concat:
  "list_all utf8_seq rs \<Longrightarrow>
   \<exists>ss. suffix ss rs \<and> dropWhile is_cont (drop k (concat rs)) = concat ss"
proof (induction rs arbitrary: k)
  case Nil
  then show ?case by simp
next
  case (Cons r rs)
  from Cons.prems have r: "utf8_seq r" and rs: "list_all utf8_seq rs" by simp_all
  consider "k = 0" | "length r \<le> k" | "0 < k" "k < length r" by linarith
  then show ?case
  proof cases
    case 1
    with dropWhile_cont_concat [OF Cons.prems] show ?thesis by (metis drop0 suffix_order.refl)
  next
    case 2
    with Cons.IH [OF rs, of "k - length r"] show ?thesis by (auto intro: suffix_ConsI)
  next
    case 3
    then have "set (drop k r) \<subseteq> set (tl r)" by (metis drop_Suc gr0_conv_Suc set_drop_subset)
    then have "list_all is_cont (drop k r)"
      using utf8_seq_shape [OF r] by (auto simp: list_all_iff)
    then have "dropWhile is_cont (drop k (concat (r # rs))) = concat rs"
      using 3 dropWhile_cont_concat [OF rs] by (simp add: dropWhile_append2 list_all_iff)
    then show ?thesis by (meson suffix_ConsI suffix_order.refl)
  qed
qed

lemma valid_utf8_dropWhile_drop:
  assumes "valid_utf8 b"
  shows "valid_utf8 (dropWhile is_cont (drop k b))"
proof -
  from assms obtain rs where rs: "list_all utf8_seq rs" "b = concat rs"
    by (auto simp: valid_utf8_def)
  from dropWhile_cont_drop_concat [OF rs(1), of k] obtain ss
    where "suffix ss rs" "dropWhile is_cont (drop k b) = concat ss" using rs(2) by auto
  with rs(1) show ?thesis
    by (auto simp: valid_utf8_def list_all_iff dest: set_mono_suffix)
qed

lemma concat_drop_bound:
  "list_all utf8_seq rs \<Longrightarrow> k \<le> length (concat rs) \<Longrightarrow>
   length (concat rs) - k \<le> length (dropWhile is_cont (drop k (concat rs))) + 3"
proof (induction rs arbitrary: k)
  case (Cons r rs)
  from Cons.prems have r: "utf8_seq r" and rs: "list_all utf8_seq rs" by simp_all
  have r4: "length r \<le> 4" using r by (cases r rule: utf8_seq.cases) auto
  show ?case
  proof (cases "k = 0 \<or> length r \<le> k")
    case True
    then show ?thesis
      using Cons.IH [OF rs, of "k - length r"] Cons.prems dropWhile_cont_concat [OF Cons.prems(1)]
      by (auto simp: add.commute)
  next
    case False
    then have "set (drop k r) \<subseteq> set (tl r)" by (metis drop_Suc gr0_conv_Suc set_drop_subset neq0_conv)
    then have "list_all is_cont (drop k r)"
      using utf8_seq_shape [OF r] by (auto simp: list_all_iff)
    then have "dropWhile is_cont (drop k (concat (r # rs))) = concat rs"
      using False dropWhile_cont_concat [OF rs] by (simp add: dropWhile_append2 list_all_iff)
    then show ?thesis using False r4 by simp linarith
  qed
qed simp

lemma aligned_loss:
  "valid_utf8 b \<Longrightarrow> min n (length b) \<le> length (dropWhile is_cont (last_n n b)) + 3"
  using concat_drop_bound [of _ "length b - n"] by (fastforce simp: valid_utf8_def last_n_def)

subsection \<open>The interface the orchestrator relies on\<close>

text \<open>
  A buffer that holds the last \<open>cap\<close> bytes ever written and whose snapshot starts on a
  character boundary.
\<close>

locale resume_buffer =
  fixes wr :: "'r \<Rightarrow> bytes \<Rightarrow> 'r"
    and snap :: "'r \<Rightarrow> bytes"
    and held :: "'r \<Rightarrow> bytes"
    and cap :: "'r \<Rightarrow> nat"
  assumes held_wr: "held (wr r p) = last_n (cap r) (held r @ p)"
    and cap_wr: "cap (wr r p) = cap r"
    and snap_held: "snap r = dropWhile is_cont (held r)"
begin

lemma cap_run: "cap (foldl wr r ps) = cap r"
  by (induction ps arbitrary: r) (simp_all add: cap_wr)

lemma held_run:
  "length (held r) \<le> cap r \<Longrightarrow> held (foldl wr r ps) = last_n (cap r) (held r @ concat ps)"
proof (induction ps arbitrary: r)
  case Nil
  then show ?case by (simp add: last_n_all)
next
  case (Cons p ps)
  have "held (foldl wr (wr r p) ps) = last_n (cap r) (held (wr r p) @ concat ps)"
    using Cons.IH [of "wr r p"] by (simp add: cap_wr held_wr)
  then show ?case by (simp add: held_wr last_n_append)
qed

lemma snap_run:
  "held r = [] \<Longrightarrow> snap (foldl wr r ps) = dropWhile is_cont (last_n (cap r) (concat ps))"
  by (simp add: snap_held held_run)

lemma snap_suffix: "held r = [] \<Longrightarrow> suffix (snap (foldl wr r ps)) (concat ps)"
  unfolding snap_run by (rule suffix_order.trans [OF suffix_dropWhile' suffix_last_n])

lemma snap_bound: "held r = [] \<Longrightarrow> length (snap (foldl wr r ps)) \<le> cap r"
  by (simp add: snap_run) (metis length_dropWhile_le length_last_n min.cobounded1 order_trans)

lemma snap_utf8: "held r = [] \<Longrightarrow> valid_utf8 (concat ps) \<Longrightarrow> valid_utf8 (snap (foldl wr r ps))"
  by (simp add: snap_run last_n_def valid_utf8_dropWhile_drop)

end

definition ring_write :: "Ring \<Rightarrow> bytes \<Rightarrow> Ring" where
  "ring_write r p = fst (Write r p)"

interpretation rr: resume_buffer ring_write Snapshot rbuf rmax
proof
  fix r :: Ring and p
  show "rbuf (ring_write r p) = last_n (rmax r) (rbuf r @ p)"
    by (cases "length (rbuf r @ p) \<le> rmax r")
      (simp_all add: ring_write_def Write_def last_n_def Let_def nat_diff_distrib' nat_int_add)
  show "rmax (ring_write r p) = rmax r" by (simp add: ring_write_def Write_def Let_def)
  show "Snapshot r = dropWhile is_cont (rbuf r)" by (simp add: Snapshot_def drop_snapshot_start)
qed

lemma NewRing_fields [simp]: "rbuf (NewRing m) = []" "rmax (NewRing m) = nat (max 1 m)"
  by (simp_all add: NewRing_def Let_def)

subsection \<open>What a snapshot shows\<close>

text \<open>
  C34: What the ring holds. After any sequence of writes a snapshot is the last \<open>max\<close> bytes ever
  written (at least one), from the first byte that does not continue a character; it is always a
  suffix of the output and never longer than the ring.
\<close>

theorem ring_snapshot_exact:
  "Snapshot (foldl (\<lambda>r p. fst (Write r p)) (NewRing n) ps) =
      dropWhile is_cont (last_n (nat (max 1 n)) (concat ps))
   \<and> suffix (Snapshot (foldl (\<lambda>r p. fst (Write r p)) (NewRing n) ps)) (concat ps)
   \<and> length (Snapshot (foldl (\<lambda>r p. fst (Write r p)) (NewRing n) ps)) \<le> nat (max 1 n)"
  using rr.snap_run [of "NewRing n" ps] rr.snap_suffix [of "NewRing n" ps]
    rr.snap_bound [of "NewRing n" ps]
  by (simp add: ring_write_def [abs_def])

text \<open>
  A snapshot of well-formed UTF-8 output is well-formed UTF-8, wherever the ring cut it, and
  at most three bytes of what the ring holds are given up for that.
\<close>

theorem ring_snapshot_utf8:
  assumes "valid_utf8 (concat ps)"
  shows "valid_utf8 (Snapshot (foldl (\<lambda>r p. fst (Write r p)) (NewRing n) ps))
    \<and> min (nat (max 1 n)) (length (concat ps))
        \<le> length (Snapshot (foldl (\<lambda>r p. fst (Write r p)) (NewRing n) ps)) + 3"
  using rr.snap_run [of "NewRing n" ps] rr.snap_utf8 [of "NewRing n" ps] aligned_loss [OF assms] assms
  by (simp add: ring_write_def [abs_def])

theorem ring_snapshot_utf8_witness:
  "valid_utf8 (Snapshot (foldl (\<lambda>r p. fst (Write r p)) (NewRing 3) [[0x61, 0xE2], [0x82, 0xAC, 0x62]]))
   \<and> Snapshot (foldl (\<lambda>r p. fst (Write r p)) (NewRing 3) [[0x61, 0xE2], [0x82, 0xAC, 0x62]]) = [0x62]"
proof -
  have "valid_utf8 (concat [[0x61, 0xE2], [0x82, 0xAC, 0x62]])"
    unfolding valid_utf8_def
    by (rule exI [of _ "[[0x61], [0xE2, 0x82, 0xAC], [0x62]]"]) (simp add: is_cont_def)
  from ring_snapshot_utf8 [OF this, of 3] rr.snap_run [of "NewRing 3" "[[0x61, 0xE2], [0x82, 0xAC, 0x62]]"]
  show ?thesis by (simp add: last_n_def is_cont_def ring_write_def)
qed

end
