(* ===== verification/Js.thy ===== *)
theory Js
  imports JsonText Duration Ring
begin

text \<open>
  What the browser viewer uses of JavaScript and its platform. A string is a list of UTF-16 code
  units. A Number that holds an integer is an \<open>int\<close>; \<open>num\<close> rounds an integer to the nearest
  double, so the result of an integer operation is \<open>num\<close> of the exact one. A function that throws
  returns \<open>None\<close>. A binary string, whose units are below 256, is a list of bytes.
\<close>

type_synonym jsstr = "16 word list"

definition js :: "string \<Rightarrow> jsstr" where
  "js s = map of_char s"

subsection \<open>Numbers\<close>

definition num :: "int \<Rightarrow> int" where
  "num i =
     (let n = nat \<bar>i\<bar>; k = bit_len n - 53
      in sgn i * int (round_half_even n (2 ^ k) * 2 ^ k))"

subsection \<open>UTF-8\<close>

text \<open>The code points of a string; an unpaired surrogate counts as U+FFFD.\<close>

definition lead :: "16 word \<Rightarrow> bool" where
  "lead u \<longleftrightarrow> 0xD800 \<le> unat u \<and> unat u < 0xDC00"

definition trail :: "16 word \<Rightarrow> bool" where
  "trail u \<longleftrightarrow> 0xDC00 \<le> unat u \<and> unat u < 0xE000"

fun code_points :: "jsstr \<Rightarrow> nat list" where
  "code_points [] = []"
| "code_points [u] = [if lead u \<or> trail u then 0xFFFD else unat u]"
| "code_points (u # v # us) =
     (if lead u \<and> trail v
      then (0x10000 + (unat u - 0xD800) * 0x400 + (unat v - 0xDC00)) # code_points us
      else (if lead u \<or> trail u then 0xFFFD else unat u) # code_points (v # us))"

definition TextEncode :: "jsstr \<Rightarrow> bytes" where
  "TextEncode s = concat (map utf8_rune (code_points s))"

text \<open>The code units of a code point.\<close>

definition utf16 :: "nat \<Rightarrow> jsstr" where
  "utf16 c =
     (if c < 0x10000 then [of_nat c]
      else [of_nat (0xD800 + (c - 0x10000) div 0x400), of_nat (0xDC00 + (c - 0x10000) mod 0x400)])"

subsection \<open>Base 64\<close>

text \<open>
  \<^verbatim>\<open>atob\<close>: white space is dropped, up to two \<open>=\<close> that fill a multiple of four are removed,
  and left-over bits are discarded.
\<close>

definition js_space :: "16 word \<Rightarrow> bool" where
  "js_space u \<longleftrightarrow> u \<in> {0x09, 0x0A, 0x0C, 0x0D, 0x20}"

definition strip_padding :: "jsstr \<Rightarrow> jsstr" where
  "strip_padding s =
     (if length s mod 4 \<noteq> 0 then s
      else if last_n 2 s = js ''=='' then butlast (butlast s)
      else if last_n 1 s = js ''='' then butlast s
      else s)"

definition b64_unit :: "16 word \<Rightarrow> char" where
  "b64_unit u = char_of (unat u)"

definition atob :: "jsstr \<Rightarrow> bytes option" where
  "atob s =
     (let t = strip_padding (filter (\<lambda>u. \<not> js_space u) s);
          bits = concat (map (\<lambda>u. val_bits 6 (base64_index (b64_unit u))) t)
      in if length t mod 4 = 1 \<or> \<not> set t \<subseteq> set (js base64_alphabet) then None
         else Some (map of_nat (bit_groups 8 (take (length bits - length bits mod 8) bits))))"

subsection \<open>URI components\<close>

definition unit_hex :: "16 word \<Rightarrow> nat option" where
  "unit_hex u = (if unat u < 128 then hex_val (of_nat (unat u)) else None)"

fun pct_unit :: "jsstr \<Rightarrow> (byte \<times> jsstr) option" where
  "pct_unit (p # a # b # r) =
     (if p \<noteq> of_char (CHR ''%'') then None
      else case (unit_hex a, unit_hex b) of
        (Some x, Some y) \<Rightarrow> Some (of_nat (16 * x + y), r)
      | _ \<Rightarrow> None)"
| "pct_unit _ = None"

primrec pct_units :: "nat \<Rightarrow> jsstr \<Rightarrow> (bytes \<times> jsstr) option" where
  "pct_units 0 s = Some ([], s)"
| "pct_units (Suc n) s =
     (case pct_unit s of
        None \<Rightarrow> None
      | Some (b, r) \<Rightarrow> (case pct_units n r of None \<Rightarrow> None | Some (bs, r') \<Rightarrow> Some (b # bs, r')))"

text \<open>The code point of a well-formed UTF-8 sequence of two to four bytes.\<close>

definition utf8_point :: "bytes \<Rightarrow> nat option" where
  "utf8_point bs =
     (let tails = foldl (\<lambda>a b. a * 0x40 + unat b mod 0x40) 0 (tl bs);
          c = unat (hd bs) mod 2 ^ (7 - length bs) * 0x40 ^ (length bs - 1) + tails
      in if utf8_rune c = bs \<and> c < 0x110000 \<and> \<not> (0xD800 \<le> c \<and> c < 0xE000) then Some c else None)"

definition lead_ones :: "byte \<Rightarrow> nat" where
  "lead_ones b = length (takeWhile (\<lambda>x. x) (byte_bits b))"

primrec decode_uri :: "nat \<Rightarrow> jsstr \<Rightarrow> jsstr option" where
  "decode_uri 0 s = (if s = [] then Some [] else None)"
| "decode_uri (Suc k) s =
     (case s of
        [] \<Rightarrow> Some []
      | u # us \<Rightarrow>
          if u \<noteq> of_char (CHR ''%'') then map_option ((#) u) (decode_uri k us)
          else case pct_unit s of
            None \<Rightarrow> None
          | Some (b, r) \<Rightarrow>
              let n = lead_ones b in
              if n = 0 then map_option ((#) (of_nat (unat b))) (decode_uri k r)
              else if n = 1 \<or> n > 4 then None
              else case pct_units (n - 1) r of
                None \<Rightarrow> None
              | Some (bs, r') \<Rightarrow>
                  (case utf8_point (b # bs) of
                     None \<Rightarrow> None
                   | Some c \<Rightarrow> map_option ((@) (utf16 c)) (decode_uri k r')))"

text \<open>Every round consumes a code unit, so the length is fuel enough.\<close>

definition decodeURIComponent :: "jsstr \<Rightarrow> jsstr option" where
  "decodeURIComponent s = decode_uri (length s) s"

subsection \<open>Upper case\<close>

text \<open>
  \<^verbatim>\<open>s.toUpperCase().charCodeAt(0)\<close> of one code unit, as far as the result is below 128: the
  ASCII letters, and the other characters whose upper case starts with an ASCII letter. The last
  equation stands for every other unit, whose upper case does not start below 128 unless it is
  itself below 128.
\<close>

definition upper_ascii :: "16 word \<Rightarrow> 16 word" where
  "upper_ascii u =
     (if 97 \<le> unat u \<and> unat u \<le> 122 then u - 32
      else if u = 0x00DF then 0x53 else if u = 0x0131 then 0x49 else if u = 0x017F then 0x53
      else if u = 0x01F0 then 0x4A else if u = 0x1E96 then 0x48 else if u = 0x1E97 then 0x54
      else if u = 0x1E98 then 0x57 else if u = 0x1E99 then 0x59 else if u = 0x1E9A then 0x41
      else if 0xFB00 \<le> unat u \<and> unat u \<le> 0xFB04 then 0x46
      else if u = 0xFB05 \<or> u = 0xFB06 then 0x53
      else u)"

subsection \<open>Lemmas\<close>

lemma bit_len_53: "n < 2 ^ 53 \<Longrightarrow> bit_len n - 53 = 0"
  using bit_len_le [of n 53] by simp

lemma round_one [simp]: "round_half_even n (Suc 0) = n"
  by (simp add: round_half_even_def Let_def)

lemma num_exact: "\<bar>i\<bar> < 2 ^ 53 \<Longrightarrow> num i = i"
proof -
  assume "\<bar>i\<bar> < 2 ^ 53"
  then have "nat \<bar>i\<bar> < 2 ^ 53" by simp
  then have "bit_len (nat \<bar>i\<bar>) - 53 = 0" by (rule bit_len_53)
  then have "num i = sgn i * \<bar>i\<bar>" by (simp add: num_def Let_def)
  then show ?thesis by (simp add: mult_sgn_abs)
qed

lemma length_js [simp]: "length (js s) = length s"
  by (simp add: js_def)

lemma js_Nil [simp]: "js [] = []"
  by (simp add: js_def)

lemma js_append [simp]: "js (s @ t) = js s @ js t"
  by (simp add: js_def)

lemma of_char_nat: "of_nat (of_char c) = of_char c"
  by (cases c) (simp add: of_char_def)

lemma unat_unit_char [simp]: "unat (of_char c :: 16 word) = of_char c"
proof -
  have "(of_char c :: nat) < 2 ^ 16" by (rule less_le_trans [OF nat_of_char_less_256]) simp
  then have "unat (of_nat (of_char c) :: 16 word) = of_char c" by (simp add: unsigned_of_nat take_bit_nat_eq_self)
  then show ?thesis by (simp add: of_char_nat)
qed

lemma unit_char_inject [simp]: "(of_char c :: 16 word) = of_char d \<longleftrightarrow> c = d"
  by (metis unat_unit_char of_char_eq_iff)

lemma b64_unit_char [simp]: "b64_unit (of_char c) = c"
  by (simp add: b64_unit_def)

text \<open>ASCII text encodes to its bytes.\<close>

lemma TextEncode_ascii:
  "list_all (\<lambda>c. (of_char c :: nat) < 128) s \<Longrightarrow> TextEncode (js s) = str_bytes s"
proof -
  assume a: "list_all (\<lambda>c. (of_char c :: nat) < 128) s"
  have "code_points us = map unat us" if "list_all (\<lambda>u. unat u < 128) us" for us
    using that by (induction us rule: code_points.induct) (auto simp: lead_def trail_def)
  moreover have "list_all (\<lambda>u. unat u < 128) (js s)" using a by (simp add: js_def list_all_iff)
  ultimately have "code_points (js s) = map of_char s" by (simp add: js_def)
  moreover have "concat (map utf8_rune (map of_char s)) = str_bytes s"
    using a by (induction s) (auto simp: utf8_rune_def str_bytes_def of_char_nat)
  ultimately show ?thesis by (simp add: TextEncode_def)
qed

lemma TextEncode_eq_Nil: "TextEncode s = [] \<longleftrightarrow> s = []"
proof
  assume "TextEncode s = []"
  moreover have "utf8_rune c \<noteq> []" for c by (simp add: utf8_rune_def)
  ultimately have "code_points s = []" by (cases "code_points s") (auto simp: TextEncode_def)
  then show "s = []" by (cases s rule: code_points.cases) (auto split: if_splits)
qed (simp add: TextEncode_def)

text \<open>What a browser encodes is well-formed UTF-8.\<close>

lemma byte_nat_le: "i < 256 \<Longrightarrow> j < 256 \<Longrightarrow> (of_nat i :: byte) \<le> of_nat j \<longleftrightarrow> i \<le> j"
  by (simp add: word_le_nat_alt unsigned_of_nat take_bit_nat_eq_self)

lemma byte_nat_eq: "i < 256 \<Longrightarrow> j < 256 \<Longrightarrow> (of_nat i :: byte) = of_nat j \<longleftrightarrow> i = j"
  by (simp add: word_unat_eq_iff unsigned_of_nat take_bit_nat_eq_self)

lemma cont_byte: "n < 64 \<Longrightarrow> is_cont (of_nat (0x80 + n))"
  using byte_nat_le [of "0x80" "0x80 + n"] byte_nat_le [of "0x80 + n" "0xBF"] by (simp add: is_cont_iff)

lemma utf8_seq_rune:
  assumes "c < 0x110000" "\<not> (0xD800 \<le> c \<and> c < 0xE000)"
  shows "utf8_seq (utf8_rune c)"
proof -
  have m: "x mod 0x40 < (64 :: nat)" for x by simp
  consider "c < 0x80" | "0x80 \<le> c" "c < 0x800" | "0x800 \<le> c" "c < 0x10000" | "0x10000 \<le> c" by linarith
  then show ?thesis
  proof cases
    case 1
    then show ?thesis using byte_nat_le [of c "0x7F"] by (simp add: utf8_rune_def)
  next
    case 2
    then have "2 \<le> c div 0x40" "c div 0x40 < 32" by simp_all
    then show ?thesis
      using 2 cont_byte [OF m [of c]] byte_nat_le [of "0xC2" "0xC0 + c div 0x40"] byte_nat_le [of "0xC0 + c div 0x40" "0xDF"]
      by (simp add: utf8_rune_def)
  next
    case 3
    define a b where "a = c div 0x1000" and "b = c div 0x40 mod 0x40"
    have ab: "a < 16" "b < 64" using 3 by (simp_all add: a_def b_def)
    define q where "q = c div 0x40"
    have "a = q div 0x40" by (simp add: a_def q_def div_mult2_eq [symmetric])
    then have q: "q = 0x40 * a + b" by (simp add: b_def q_def)
    have "0x20 \<le> q" "q < 0x360 \<or> 0x380 \<le> q" using 3(1) assms(2) unfolding q_def by linarith+
    then have "a = 0 \<Longrightarrow> 0x20 \<le> b" "a = 13 \<Longrightarrow> b \<le> 31" using q ab by linarith+
    moreover have w: "(of_nat (0xE0 + a) :: byte) = 0xE0 \<longleftrightarrow> a = 0" "(0xE1 :: byte) \<le> of_nat (0xE0 + a) \<longleftrightarrow> 1 \<le> a"
      "(of_nat (0xE0 + a) :: byte) \<le> 0xEC \<longleftrightarrow> a \<le> 12" "(of_nat (0xE0 + a) :: byte) = 0xED \<longleftrightarrow> a = 13"
      "(of_nat (0xE0 + a) :: byte) = 0xEE \<longleftrightarrow> a = 14" "(of_nat (0xE0 + a) :: byte) = 0xEF \<longleftrightarrow> a = 15"
      "(0xA0 :: byte) \<le> of_nat (0x80 + b) \<longleftrightarrow> 0x20 \<le> b" "(of_nat (0x80 + b) :: byte) \<le> 0x9F \<longleftrightarrow> b \<le> 31"
      using ab byte_nat_eq [of "0xE0 + a" "0xE0"] byte_nat_le [of "0xE1" "0xE0 + a"] byte_nat_le [of "0xE0 + a" "0xEC"]
        byte_nat_eq [of "0xE0 + a" "0xED"] byte_nat_eq [of "0xE0 + a" "0xEE"] byte_nat_eq [of "0xE0 + a" "0xEF"]
        byte_nat_le [of "0xA0" "0x80 + b"] byte_nat_le [of "0x80 + b" "0x9F"] by simp_all
    moreover have "a = 0 \<or> 1 \<le> a \<and> a \<le> 12 \<or> a = 13 \<or> a = 14 \<or> a = 15" using ab(1) by linarith
    moreover have "utf8_rune c = [of_nat (0xE0 + a), of_nat (0x80 + b), of_nat (0x80 + c mod 0x40)]"
      using 3 by (simp add: utf8_rune_def a_def b_def)
    ultimately show ?thesis
      using cont_byte [OF m [of c]] cont_byte [OF ab(2)] by (simp only: utf8_seq.simps) blast
  next
    case 4
    define a b where "a = c div 0x40000" and "b = c div 0x1000 mod 0x40"
    have ab: "a < 5" "b < 64" using 4 assms(1) by (simp_all add: a_def b_def)
    define q where "q = c div 0x1000"
    have "a = q div 0x40" by (simp add: a_def q_def div_mult2_eq [symmetric])
    then have q: "q = 0x40 * a + b" by (simp add: b_def q_def)
    have "0x10 \<le> q" "q < 0x110" using 4 assms(1) unfolding q_def by linarith+
    then have "a = 0 \<Longrightarrow> 0x10 \<le> b" "a = 4 \<Longrightarrow> b \<le> 15" using q ab by linarith+
    moreover have "(of_nat (0xF0 + a) :: byte) = 0xF0 \<longleftrightarrow> a = 0" "(0xF1 :: byte) \<le> of_nat (0xF0 + a) \<longleftrightarrow> 1 \<le> a"
      "(of_nat (0xF0 + a) :: byte) \<le> 0xF3 \<longleftrightarrow> a \<le> 3" "(of_nat (0xF0 + a) :: byte) = 0xF4 \<longleftrightarrow> a = 4"
      "(0x90 :: byte) \<le> of_nat (0x80 + b) \<longleftrightarrow> 0x10 \<le> b" "(of_nat (0x80 + b) :: byte) \<le> 0x8F \<longleftrightarrow> b \<le> 15"
      using ab byte_nat_eq [of "0xF0 + a" "0xF0"] byte_nat_le [of "0xF1" "0xF0 + a"] byte_nat_le [of "0xF0 + a" "0xF3"]
        byte_nat_eq [of "0xF0 + a" "0xF4"] byte_nat_le [of "0x90" "0x80 + b"] byte_nat_le [of "0x80 + b" "0x8F"] by simp_all
    moreover have "a = 0 \<or> 1 \<le> a \<and> a \<le> 3 \<or> a = 4" using ab(1) by linarith
    moreover have "utf8_rune c = [of_nat (0xF0 + a), of_nat (0x80 + b), of_nat (0x80 + c div 0x40 mod 0x40), of_nat (0x80 + c mod 0x40)]"
      using 4 by (simp add: utf8_rune_def a_def b_def)
    ultimately show ?thesis
      using cont_byte [OF m [of c]] cont_byte [OF m [of "c div 0x40"]] cont_byte [OF ab(2)]
      by (simp only: utf8_seq.simps) blast
  qed
qed

lemma code_points_scalar: "c \<in> set (code_points s) \<Longrightarrow> c < 0x110000 \<and> \<not> (0xD800 \<le> c \<and> c < 0xE000)"
proof (induction s rule: code_points.induct)
  case (3 u v us)
  have "unat u < 2 ^ 16" "unat v < 2 ^ 16" using unsigned_less [of u] unsigned_less [of v] by simp_all
  with 3 show ?case by (auto simp: lead_def trail_def split: if_splits)
next
  case (2 u)
  have "unat u < 2 ^ 16" using unsigned_less [of u] by simp
  with 2 show ?case by (auto simp: lead_def trail_def split: if_splits)
qed simp

lemma TextEncode_valid: "valid_utf8 (TextEncode s)"
  unfolding valid_utf8_def TextEncode_def
  using code_points_scalar utf8_seq_rune
  by (intro exI [of _ "map utf8_rune (code_points s)"]) (auto simp: list_all_iff)

end
