(* ===== verification/Wire.thy ===== *)
theory Wire
  imports Prelude
begin

text \<open>
  \<^verbatim>\<open>src/runner/internal/protocol/wire.go\<close>: the message kinds, the control states, and the
  codecs of the payloads and of the two viewer envelopes. A decoder returns \<open>Inl\<close> of its error
  on every input it rejects. The two envelopes (\<^verbatim>\<open>OVP1\<close>, sealed by the viewer, and
  \<^verbatim>\<open>OTV1\<close>, written by the relay) have the same layout, and the lemmas of both come from one
  locale, \<open>id_envelope\<close>, interpreted for each.
\<close>

subsection \<open>Message kinds and control states\<close>

definition KindHello :: byte where "KindHello = 0x01"
definition KindOutput :: byte where "KindOutput = 0x02"
definition KindExit :: byte where "KindExit = 0x03"
definition KindControl :: byte where "KindControl = 0x04"
definition KindInput :: byte where "KindInput = 0x10"
definition KindResize :: byte where "KindResize = 0x11"
definition KindCtrlReq :: byte where "KindCtrlReq = 0x12"
definition KindCtrlRel :: byte where "KindCtrlRel = 0x13"

lemmas kind_defs = KindHello_def KindOutput_def KindExit_def KindControl_def
  KindInput_def KindResize_def KindCtrlReq_def KindCtrlRel_def

definition ControlReadOnly :: byte where "ControlReadOnly = 0"
definition ControlGranted :: byte where "ControlGranted = 1"
definition ControlTaken :: byte where "ControlTaken = 2"

lemmas control_state_defs = ControlReadOnly_def ControlGranted_def ControlTaken_def

datatype wire_error = errShortPayload | errBadPayload

definition viewerPayloadMagic :: bytes where
  "viewerPayloadMagic = str_bytes ''OVP1''"

definition relayViewerMagic :: bytes where
  "relayViewerMagic = str_bytes ''OTV1''"

subsection \<open>Payload codecs\<close>

definition EncodeHello :: "u64 \<Rightarrow> u16 \<Rightarrow> u16 \<Rightarrow> bytes" where
  "EncodeHello baseline cols rows = be_bytes 8 baseline @ be_bytes 2 cols @ be_bytes 2 rows"

definition DecodeHello :: "bytes \<Rightarrow> wire_error + (u64 \<times> u16 \<times> u16)" where
  "DecodeHello b =
     (if length b < 12 then Inl errShortPayload
      else Inr (be_word (take 8 b), be_word (take 2 (drop 8 b)), be_word (take 2 (drop 10 b))))"

definition EncodeResize :: "u16 \<Rightarrow> u16 \<Rightarrow> bytes" where
  "EncodeResize cols rows = be_bytes 2 cols @ be_bytes 2 rows"

definition DecodeResize :: "bytes \<Rightarrow> wire_error + (u16 \<times> u16)" where
  "DecodeResize b =
     (if length b < 4 then Inl errShortPayload
      else Inr (be_word (take 2 b), be_word (take 2 (drop 2 b))))"

text \<open>
  The exit code is a Go \<^verbatim>\<open>int32\<close>; \<^verbatim>\<open>uint32(code)\<close> keeps its 32 bits, so both are the
  same word, read as signed (\<open>sint\<close>) by the code that shows it.
\<close>

definition EncodeExit :: "u32 \<Rightarrow> bytes" where
  "EncodeExit code = be_bytes 4 code"

definition DecodeExit :: "bytes \<Rightarrow> wire_error + u32" where
  "DecodeExit b =
     (if length b < 4 then Inl errShortPayload else Inr (be_word (take 4 b)))"

subsection \<open>Envelopes\<close>

definition EncodeViewerPayload :: "string \<Rightarrow> bytes \<Rightarrow> bytes" where
  "EncodeViewerPayload viewerID payload =
     (let vid = (if length viewerID > 255 then take 255 viewerID else viewerID)
      in viewerPayloadMagic @ [of_nat (length vid)] @ str_bytes vid @ payload)"

definition DecodeViewerPayload :: "bytes \<Rightarrow> wire_error + (string \<times> bytes)" where
  "DecodeViewerPayload b =
     (let m = length viewerPayloadMagic in
      if length b < m \<or> take m b \<noteq> viewerPayloadMagic then Inl errBadPayload
      else if length b < m + 1 then Inl errShortPayload
      else let n = unat (b ! m) in
        if n = 0 then Inl errBadPayload
        else let start = m + 1 in
          if length b < start + n then Inl errShortPayload
          else Inr (bytes_str (take n (drop start b)), drop (start + n) b))"

definition EncodeRelayViewerFrame :: "string \<Rightarrow> bytes \<Rightarrow> bytes" where
  "EncodeRelayViewerFrame viewerID sealedFrame =
     (let vid = (if length viewerID > 255 then take 255 viewerID else viewerID)
      in relayViewerMagic @ [of_nat (length vid)] @ str_bytes vid @ sealedFrame)"

definition DecodeRelayViewerFrame :: "bytes \<Rightarrow> wire_error + (string \<times> bytes)" where
  "DecodeRelayViewerFrame b =
     (let m = length relayViewerMagic in
      if length b < m \<or> take m b \<noteq> relayViewerMagic then Inl errBadPayload
      else if length b < m + 1 then Inl errShortPayload
      else let n = unat (b ! m) in
        if n = 0 then Inl errBadPayload
        else let start = m + 1 in
          if length b < start + n then Inl errShortPayload
          else Inr (bytes_str (take n (drop start b)), drop (start + n) b))"

subsection \<open>The envelope interface\<close>

text \<open>
  What a client of an envelope relies on: decoding accepts exactly the encodings of a
  non-empty id of at most 255 bytes, and gives back the id and the body.
\<close>

locale id_envelope =
  fixes enc :: "string \<Rightarrow> bytes \<Rightarrow> bytes"
    and dec :: "bytes \<Rightarrow> wire_error + (string \<times> bytes)"
  assumes dec_iff: "dec b = Inr (v, p) \<longleftrightarrow> 0 < length v \<and> length v \<le> 255 \<and> b = enc v p"
    and enc_trunc: "enc v p = enc (take 255 v) p"
    and enc_empty: "dec (enc [] p) = Inl errBadPayload"
begin

lemma dec_enc: "v \<noteq> [] \<Longrightarrow> dec (enc v p) = Inr (take 255 v, p)"
  by (subst enc_trunc) (auto simp: dec_iff)

lemma dec_enc_short: "v \<noteq> [] \<Longrightarrow> length v \<le> 255 \<Longrightarrow> dec (enc v p) = Inr (v, p)"
  by (simp add: dec_iff)

lemma dec_id_nonempty: "dec b = Inr (v, p) \<Longrightarrow> v \<noteq> []"
  by (simp add: dec_iff)

lemma dec_id_bound: "dec b = Inr (v, p) \<Longrightarrow> length v \<le> 255"
  by (simp add: dec_iff)

lemma enc_inj:
  assumes "v \<noteq> []" "w \<noteq> []" "length v \<le> 255" "length w \<le> 255" "enc v p = enc w q"
  shows "v = w \<and> p = q"
proof -
  from assms(1,3) have "dec (enc v p) = Inr (v, p)" by (rule dec_enc_short)
  moreover from assms(2,4) have "dec (enc w q) = Inr (w, q)" by (rule dec_enc_short)
  ultimately show ?thesis using assms(5) by (metis Pair_inject sum.inject(2))
qed

end

text \<open>The layout both envelopes share, over their magic.\<close>

definition envelope :: "bytes \<Rightarrow> string \<Rightarrow> bytes \<Rightarrow> bytes" where
  "envelope magic v p =
     (let vid = (if length v > 255 then take 255 v else v)
      in magic @ [of_nat (length vid)] @ str_bytes vid @ p)"

definition unenvelope :: "bytes \<Rightarrow> bytes \<Rightarrow> wire_error + (string \<times> bytes)" where
  "unenvelope magic b =
     (let m = length magic in
      if length b < m \<or> take m b \<noteq> magic then Inl errBadPayload
      else if length b < m + 1 then Inl errShortPayload
      else let n = unat (b ! m) in
        if n = 0 then Inl errBadPayload
        else let start = m + 1 in
          if length b < start + n then Inl errShortPayload
          else Inr (bytes_str (take n (drop start b)), drop (start + n) b))"

lemma take_min_255: "(if length v > 255 then take 255 v else v) = take 255 v"
  by simp

lemma unat_of_nat_byte: "n \<le> 255 \<Longrightarrow> unat (of_nat n :: byte) = n"
  by (simp add: unat_of_nat take_bit_eq_mod)

lemma unenvelope_envelope:
  "v \<noteq> [] \<Longrightarrow> unenvelope magic (envelope magic v p) = Inr (take 255 v, p)"
  by (simp add: unenvelope_def envelope_def take_min_255 unat_of_nat_byte Let_def min_def
      del: of_nat_numeral)

lemma unenvelope_Inr:
  assumes "unenvelope magic b = Inr (v, p)"
  shows "0 < length v \<and> length v \<le> 255 \<and> b = envelope magic v p"
proof -
  let ?m = "length magic"
  define n where "n = unat (b ! ?m)"
  from assms have b: "take ?m b = magic" "?m < length b" "0 < n" "Suc (?m + n) \<le> length b"
    and v: "v = bytes_str (take n (drop (Suc ?m) b))" and p: "p = drop (Suc (?m + n)) b"
    by (auto simp: unenvelope_def Let_def n_def split: if_splits)
  have n255: "n \<le> 255" using unat_byte_less [of "b ! ?m"] by (simp add: n_def)
  have len: "length v = n" using b v by simp
  have "b = take ?m b @ b ! ?m # drop (Suc ?m) b" using b(2) by (rule id_take_nth_drop)
  also have "drop (Suc ?m) b = take n (drop (Suc ?m) b) @ drop (Suc (?m + n)) b"
    by (metis add.commute add_Suc_right append_take_drop_id drop_drop)
  finally have "b = magic @ b ! ?m # str_bytes v @ p" using b v p by simp
  moreover have "b ! ?m = of_nat (length v)" by (simp add: len n_def)
  ultimately show ?thesis using len b n255 by (simp add: envelope_def)
qed

lemma id_envelopeI: "id_envelope (envelope magic) (unenvelope magic)"
proof
  fix b v p
  show "unenvelope magic b = Inr (v, p) \<longleftrightarrow>
      0 < length v \<and> length v \<le> 255 \<and> b = envelope magic v p"
    using unenvelope_Inr [of magic b v p] unenvelope_envelope [of v magic p] by auto
  show "envelope magic v p = envelope magic (take 255 v) p"
    by (simp add: envelope_def)
  show "unenvelope magic (envelope magic [] p) = Inl errBadPayload"
    by (simp add: envelope_def unenvelope_def)
qed

lemma EncodeViewerPayload_envelope: "EncodeViewerPayload = envelope viewerPayloadMagic"
  by (simp add: fun_eq_iff EncodeViewerPayload_def envelope_def)

lemma DecodeViewerPayload_unenvelope: "DecodeViewerPayload = unenvelope viewerPayloadMagic"
  by (simp add: fun_eq_iff DecodeViewerPayload_def unenvelope_def)

lemma EncodeRelayViewerFrame_envelope: "EncodeRelayViewerFrame = envelope relayViewerMagic"
  by (simp add: fun_eq_iff EncodeRelayViewerFrame_def envelope_def)

lemma DecodeRelayViewerFrame_unenvelope: "DecodeRelayViewerFrame = unenvelope relayViewerMagic"
  by (simp add: fun_eq_iff DecodeRelayViewerFrame_def unenvelope_def)

interpretation ovp: id_envelope EncodeViewerPayload DecodeViewerPayload
  unfolding EncodeViewerPayload_envelope DecodeViewerPayload_unenvelope by (rule id_envelopeI)

interpretation otv: id_envelope EncodeRelayViewerFrame DecodeRelayViewerFrame
  unfolding EncodeRelayViewerFrame_envelope DecodeRelayViewerFrame_unenvelope by (rule id_envelopeI)

subsection \<open>The codecs\<close>

lemma take_drop_split: "b = take m b @ take n (drop m b) @ drop (m + n) b"
  by (metis add.commute append_take_drop_id drop_drop)

lemma DecodeResize_iff:
  "DecodeResize b = Inr (cols, rows) \<longleftrightarrow> (\<exists>rest. b = EncodeResize cols rows @ rest)"
proof
  assume d: "DecodeResize b = Inr (cols, rows)"
  then have "take 2 b = be_bytes 2 cols" "take 2 (drop 2 b) = be_bytes 2 rows"
    by (auto simp: DecodeResize_def be_bytes_be_word split: if_splits)
  then have "b = EncodeResize cols rows @ drop 4 b"
    using take_drop_split [of b 2 2] by (simp add: EncodeResize_def)
  then show "\<exists>rest. b = EncodeResize cols rows @ rest" ..
qed (auto simp: DecodeResize_def EncodeResize_def be_word_be_bytes)

lemma DecodeHello_iff:
  "DecodeHello b = Inr (base, cols, rows) \<longleftrightarrow> (\<exists>rest. b = EncodeHello base cols rows @ rest)"
proof
  assume d: "DecodeHello b = Inr (base, cols, rows)"
  then have "take 8 b = be_bytes 8 base"
    by (auto simp: DecodeHello_def be_bytes_be_word split: if_splits)
  moreover from d have "DecodeResize (drop 8 b) = Inr (cols, rows)"
    by (auto simp: DecodeHello_def DecodeResize_def split: if_splits)
  ultimately show "\<exists>rest. b = EncodeHello base cols rows @ rest"
    using append_take_drop_id [of 8 b]
    by (auto simp: DecodeResize_iff EncodeHello_def EncodeResize_def)
qed (auto simp: DecodeHello_def EncodeHello_def be_word_be_bytes)

lemma DecodeExit_iff:
  "DecodeExit b = Inr code \<longleftrightarrow> (\<exists>rest. b = EncodeExit code @ rest)"
proof
  assume d: "DecodeExit b = Inr code"
  then have "take 4 b = EncodeExit code"
    by (auto simp: DecodeExit_def EncodeExit_def be_bytes_be_word split: if_splits)
  then show "\<exists>rest. b = EncodeExit code @ rest" by (metis append_take_drop_id)
qed (auto simp: DecodeExit_def EncodeExit_def be_word_be_bytes)

text \<open>
  The fixed-size payloads. A HELLO, RESIZE or EXIT decoder returns exactly the values whose
  encoding the payload starts with: it inverts its encoder, accepts trailing bytes, and rejects
  everything shorter than an encoding, with the short-payload error.
\<close>

theorem payload_codecs:
  "(DecodeHello b = Inr (base, cols, rows)) = (\<exists>rest. b = EncodeHello base cols rows @ rest)
   \<and> (DecodeResize b = Inr (cols, rows)) = (\<exists>rest. b = EncodeResize cols rows @ rest)
   \<and> (DecodeExit b = Inr code) = (\<exists>rest. b = EncodeExit code @ rest)
   \<and> (DecodeHello b = Inl errShortPayload) = (length b < 12)
   \<and> (DecodeResize b = Inl errShortPayload) = (length b < 4)
   \<and> (DecodeExit b = Inl errShortPayload) = (length b < 4)"
  by (simp add: DecodeHello_iff DecodeResize_iff DecodeExit_iff)
    (simp add: DecodeHello_def DecodeResize_def DecodeExit_def)

text \<open>
  The envelopes. Decoding accepts exactly the encodings of an id of 1 to 255 bytes, and gives
  back that id and body; so an accepted envelope has one reading, and never an empty id.
\<close>

theorem envelopes_exact:
  "(DecodeViewerPayload b = Inr (v, p)) =
      (0 < length v \<and> length v \<le> 255 \<and> b = EncodeViewerPayload v p)
   \<and> (DecodeRelayViewerFrame b = Inr (v, p)) =
      (0 < length v \<and> length v \<le> 255 \<and> b = EncodeRelayViewerFrame v p)"
  by (simp add: ovp.dec_iff otv.dec_iff)

text \<open>
  What an encoded envelope decodes to, for every id: an empty id is refused, an id of more than
  255 bytes comes back cut to its first 255.
\<close>

lemma envelopes_roundtrip:
  "DecodeViewerPayload (EncodeViewerPayload v p) =
      (if v = [] then Inl errBadPayload else Inr (take 255 v, p))
   \<and> DecodeRelayViewerFrame (EncodeRelayViewerFrame v p) =
      (if v = [] then Inl errBadPayload else Inr (take 255 v, p))"
  by (simp add: ovp.dec_enc otv.dec_enc ovp.enc_empty otv.enc_empty)

end
