(* ===== verification/StdCrypto.thy ===== *)
theory StdCrypto
  imports Prelude
begin

text \<open>
  The parts of Go's standard cryptography that \<^verbatim>\<open>crypto.go\<close> calls, as executable
  definitions: SHA-256 (FIPS 180-4), HMAC (RFC 2104), HKDF (RFC 5869, \<^verbatim>\<open>crypto/hkdf\<close>),
  PBKDF2 (RFC 8018, \<^verbatim>\<open>crypto/pbkdf2\<close>), AES (FIPS 197, \<^verbatim>\<open>crypto/aes\<close>) and GCM with a
  12-byte nonce and a 16-byte tag (SP 800-38D, \<^verbatim>\<open>crypto/cipher\<close>). None of this is code of
  the repository. What the protocol relies on is the locale \<open>aead\<close>, whose laws are proved here
  for GCM over any block cipher. Go's limit of 64 GiB on one GCM message is not modelled.
\<close>

subsection \<open>SHA-256\<close>

text \<open>
  The constants as FIPS 180-4 defines them: the first 32 bits of the fractional parts of the cube
  roots of the first sixty-four primes, and of the square roots of the first eight. The root of
  \<open>n\<close> is found bit by bit, from bit \<open>b - 1\<close> down; 35 bits hold every root needed.
\<close>

primrec root_bits :: "nat \<Rightarrow> int \<Rightarrow> nat \<Rightarrow> int \<Rightarrow> int" where
  "root_bits k n 0 r = r"
| "root_bits k n (Suc b) r = root_bits k n b (if (r + 2 ^ b) ^ k \<le> n then r + 2 ^ b else r)"

definition root_frac :: "nat \<Rightarrow> int \<Rightarrow> u32" where
  "root_frac k p = word_of_int (root_bits k (p * 2 ^ (32 * k)) 35 0)"

definition small_primes :: "int list" where
  "small_primes = filter (\<lambda>n. list_all (\<lambda>d. n = d \<or> n mod d \<noteq> 0) [2, 3, 5, 7, 11, 13, 17]) [2..311]"

definition sha256_K :: "u32 list" where
  "sha256_K = map (root_frac 3) small_primes"

definition sha256_H0 :: "u32 list" where
  "sha256_H0 = map (root_frac 2) (take 8 small_primes)"

definition rotr32 :: "nat \<Rightarrow> u32 \<Rightarrow> u32" where
  "rotr32 n x = drop_bit n x OR push_bit (32 - n) x"

definition sha_ch :: "u32 \<Rightarrow> u32 \<Rightarrow> u32 \<Rightarrow> u32" where
  "sha_ch x y z = (x AND y) XOR (NOT x AND z)"

definition sha_maj :: "u32 \<Rightarrow> u32 \<Rightarrow> u32 \<Rightarrow> u32" where
  "sha_maj x y z = (x AND y) XOR (x AND z) XOR (y AND z)"

definition sha_S0 :: "u32 \<Rightarrow> u32" where
  "sha_S0 x = rotr32 2 x XOR rotr32 13 x XOR rotr32 22 x"

definition sha_S1 :: "u32 \<Rightarrow> u32" where
  "sha_S1 x = rotr32 6 x XOR rotr32 11 x XOR rotr32 25 x"

definition sha_s0 :: "u32 \<Rightarrow> u32" where
  "sha_s0 x = rotr32 7 x XOR rotr32 18 x XOR drop_bit 3 x"

definition sha_s1 :: "u32 \<Rightarrow> u32" where
  "sha_s1 x = rotr32 17 x XOR rotr32 19 x XOR drop_bit 10 x"

text \<open>The message schedule, kept as the last sixteen words with the oldest first.\<close>

primrec sha_rounds :: "u32 list \<Rightarrow> u32 list \<Rightarrow> u32 list \<Rightarrow> u32 list" where
  "sha_rounds [] w st = st"
| "sha_rounds (k # ks) w st =
     (case st of
        [a, b, c, d, e, f, g, h] \<Rightarrow>
          let t1 = h + sha_S1 e + sha_ch e f g + k + w ! 0;
              t2 = sha_S0 a + sha_maj a b c;
              w' = sha_s1 (w ! 14) + w ! 9 + sha_s0 (w ! 1) + w ! 0
          in sha_rounds ks (tl w @ [w']) [t1 + t2, a, b, c, d + t1, e, f, g]
      | _ \<Rightarrow> st)"

fun chunks :: "nat \<Rightarrow> 'a list \<Rightarrow> 'a list list" where
  "chunks n xs = (if xs = [] \<or> n = 0 then [] else take n xs # chunks n (drop n xs))"

declare chunks.simps [simp del]

definition sha_block :: "u32 list \<Rightarrow> bytes \<Rightarrow> u32 list" where
  "sha_block st blk = map2 (+) st (sha_rounds sha256_K (map be_word (chunks 4 blk)) st)"

definition sha_pad :: "bytes \<Rightarrow> bytes" where
  "sha_pad m = m @ 0x80 # replicate ((119 - length m mod 64) mod 64) 0
     @ be_bytes 8 (of_nat (8 * length m) :: u64)"

definition sha256 :: "bytes \<Rightarrow> bytes" where
  "sha256 m = concat (map (be_bytes 4) (foldl sha_block sha256_H0 (chunks 64 (sha_pad m))))"

subsection \<open>HMAC, HKDF, PBKDF2\<close>

definition hmac_key :: "bytes \<Rightarrow> bytes" where
  "hmac_key k = (let k' = (if length k > 64 then sha256 k else k)
                 in k' @ replicate (64 - length k') 0)"

definition hmac :: "bytes \<Rightarrow> bytes \<Rightarrow> bytes" where
  "hmac k m = sha256 (map ((XOR) 0x5c) (hmac_key k) @ sha256 (map ((XOR) 0x36) (hmac_key k) @ m))"

datatype kdf_error = KeyLengthTooLarge | KeyLengthNotPositive

primrec hkdf_blocks :: "nat \<Rightarrow> byte \<Rightarrow> bytes \<Rightarrow> bytes \<Rightarrow> bytes \<Rightarrow> bytes" where
  "hkdf_blocks 0 i prk info prev = []"
| "hkdf_blocks (Suc n) i prk info prev =
     (let t = hmac prk (prev @ info @ [i]) in t @ hkdf_blocks n (i + 1) prk info t)"

definition hkdf_Key :: "bytes \<Rightarrow> bytes \<Rightarrow> string \<Rightarrow> nat \<Rightarrow> kdf_error + bytes" where
  "hkdf_Key secret salt info keyLen =
     (if keyLen > 255 * 32 then Inl KeyLengthTooLarge
      else Inr (take keyLen
        (hkdf_blocks ((keyLen + 31) div 32) 1 (hmac salt secret) (str_bytes info) [])))"

primrec pbkdf2_iter :: "nat \<Rightarrow> bytes \<Rightarrow> bytes \<Rightarrow> bytes \<Rightarrow> bytes" where
  "pbkdf2_iter 0 pw u acc = acc"
| "pbkdf2_iter (Suc n) pw u acc =
     (let u' = hmac pw u in pbkdf2_iter n pw u' (map2 (XOR) acc u'))"

definition pbkdf2_block :: "bytes \<Rightarrow> bytes \<Rightarrow> nat \<Rightarrow> nat \<Rightarrow> bytes" where
  "pbkdf2_block pw salt iter i =
     (let u = hmac pw (salt @ be_bytes 4 (of_nat i :: u32)) in pbkdf2_iter (iter - 1) pw u u)"

definition pbkdf2_Key :: "string \<Rightarrow> bytes \<Rightarrow> nat \<Rightarrow> nat \<Rightarrow> kdf_error + bytes" where
  "pbkdf2_Key password salt iter keyLen =
     (if keyLen = 0 then Inl KeyLengthNotPositive
      else Inr (take keyLen (concat
        (map (pbkdf2_block (str_bytes password) salt iter) [1..<(keyLen + 31) div 32 + 1]))))"

subsection \<open>AES\<close>

type_synonym block = "128 word"

definition aes_sbox :: "bytes" where
  "aes_sbox = [
    0x63, 0x7c, 0x77, 0x7b, 0xf2, 0x6b, 0x6f, 0xc5, 0x30, 0x01, 0x67, 0x2b,
    0xfe, 0xd7, 0xab, 0x76, 0xca, 0x82, 0xc9, 0x7d, 0xfa, 0x59, 0x47, 0xf0,
    0xad, 0xd4, 0xa2, 0xaf, 0x9c, 0xa4, 0x72, 0xc0, 0xb7, 0xfd, 0x93, 0x26,
    0x36, 0x3f, 0xf7, 0xcc, 0x34, 0xa5, 0xe5, 0xf1, 0x71, 0xd8, 0x31, 0x15,
    0x04, 0xc7, 0x23, 0xc3, 0x18, 0x96, 0x05, 0x9a, 0x07, 0x12, 0x80, 0xe2,
    0xeb, 0x27, 0xb2, 0x75, 0x09, 0x83, 0x2c, 0x1a, 0x1b, 0x6e, 0x5a, 0xa0,
    0x52, 0x3b, 0xd6, 0xb3, 0x29, 0xe3, 0x2f, 0x84, 0x53, 0xd1, 0x00, 0xed,
    0x20, 0xfc, 0xb1, 0x5b, 0x6a, 0xcb, 0xbe, 0x39, 0x4a, 0x4c, 0x58, 0xcf,
    0xd0, 0xef, 0xaa, 0xfb, 0x43, 0x4d, 0x33, 0x85, 0x45, 0xf9, 0x02, 0x7f,
    0x50, 0x3c, 0x9f, 0xa8, 0x51, 0xa3, 0x40, 0x8f, 0x92, 0x9d, 0x38, 0xf5,
    0xbc, 0xb6, 0xda, 0x21, 0x10, 0xff, 0xf3, 0xd2, 0xcd, 0x0c, 0x13, 0xec,
    0x5f, 0x97, 0x44, 0x17, 0xc4, 0xa7, 0x7e, 0x3d, 0x64, 0x5d, 0x19, 0x73,
    0x60, 0x81, 0x4f, 0xdc, 0x22, 0x2a, 0x90, 0x88, 0x46, 0xee, 0xb8, 0x14,
    0xde, 0x5e, 0x0b, 0xdb, 0xe0, 0x32, 0x3a, 0x0a, 0x49, 0x06, 0x24, 0x5c,
    0xc2, 0xd3, 0xac, 0x62, 0x91, 0x95, 0xe4, 0x79, 0xe7, 0xc8, 0x37, 0x6d,
    0x8d, 0xd5, 0x4e, 0xa9, 0x6c, 0x56, 0xf4, 0xea, 0x65, 0x7a, 0xae, 0x08,
    0xba, 0x78, 0x25, 0x2e, 0x1c, 0xa6, 0xb4, 0xc6, 0xe8, 0xdd, 0x74, 0x1f,
    0x4b, 0xbd, 0x8b, 0x8a, 0x70, 0x3e, 0xb5, 0x66, 0x48, 0x03, 0xf6, 0x0e,
    0x61, 0x35, 0x57, 0xb9, 0x86, 0xc1, 0x1d, 0x9e, 0xe1, 0xf8, 0x98, 0x11,
    0x69, 0xd9, 0x8e, 0x94, 0x9b, 0x1e, 0x87, 0xe9, 0xce, 0x55, 0x28, 0xdf,
    0x8c, 0xa1, 0x89, 0x0d, 0xbf, 0xe6, 0x42, 0x68, 0x41, 0x99, 0x2d, 0x0f,
    0xb0, 0x54, 0xbb, 0x16]"

definition sub_byte :: "byte \<Rightarrow> byte" where
  "sub_byte b = aes_sbox ! unat b"

definition xtime :: "byte \<Rightarrow> byte" where
  "xtime b = push_bit 1 b XOR (if bit b 7 then 0x1b else 0)"

primrec rcon :: "nat \<Rightarrow> byte" where
  "rcon 0 = 1"
| "rcon (Suc n) = xtime (rcon n)"

text \<open>\<open>ws\<close> holds the schedule so far, newest word first; \<open>i\<close> is its length.\<close>

primrec key_expand :: "nat \<Rightarrow> nat \<Rightarrow> nat \<Rightarrow> bytes list \<Rightarrow> bytes list" where
  "key_expand 0 nk i ws = rev ws"
| "key_expand (Suc n) nk i ws =
     (let t = hd ws;
          t' = (if i mod nk = 0 then
                  (case map sub_byte (rotate1 t) of
                     [] \<Rightarrow> [] | x # xs \<Rightarrow> (x XOR rcon (i div nk - 1)) # xs)
                else if nk > 6 \<and> i mod nk = 4 then map sub_byte t
                else t)
      in key_expand n nk (Suc i) (map2 (XOR) (ws ! (nk - 1)) t' # ws))"

definition aes_round_keys :: "bytes \<Rightarrow> bytes list" where
  "aes_round_keys key =
     (let nk = length key div 4
      in map concat (chunks 4
           (key_expand (4 * (nk + 7) - nk) nk nk (rev (chunks 4 key)))))"

definition shift_rows :: "bytes \<Rightarrow> bytes" where
  "shift_rows s = map (\<lambda>i. s ! i) [0, 5, 10, 15, 4, 9, 14, 3, 8, 13, 2, 7, 12, 1, 6, 11]"

fun mix_column :: "bytes \<Rightarrow> bytes" where
  "mix_column [a, b, c, d] =
     [xtime a XOR (xtime b XOR b) XOR c XOR d, a XOR xtime b XOR (xtime c XOR c) XOR d,
      a XOR b XOR xtime c XOR (xtime d XOR d), (xtime a XOR a) XOR b XOR c XOR xtime d]"
| "mix_column xs = xs"

definition mix_columns :: "bytes \<Rightarrow> bytes" where
  "mix_columns s = concat (map mix_column (chunks 4 s))"

primrec aes_rounds :: "bytes list \<Rightarrow> bytes \<Rightarrow> bytes" where
  "aes_rounds [] s = s"
| "aes_rounds (k # ks) s =
     (let t = shift_rows (map sub_byte s)
      in if ks = [] then map2 (XOR) t k else aes_rounds ks (map2 (XOR) (mix_columns t) k))"

definition aes_encrypt :: "bytes \<Rightarrow> block \<Rightarrow> block" where
  "aes_encrypt key x =
     (case aes_round_keys key of
        [] \<Rightarrow> x
      | k # ks \<Rightarrow> be_word (aes_rounds ks (map2 (XOR) (be_bytes 16 x) k)))"

datatype key_size_error = KeySizeError nat

definition aes_NewCipher :: "bytes \<Rightarrow> key_size_error + (block \<Rightarrow> block)" where
  "aes_NewCipher key =
     (if length key \<in> {16, 24, 32} then Inr (aes_encrypt key) else Inl (KeySizeError (length key)))"

subsection \<open>GCM\<close>

primrec gf_mul_step :: "nat \<Rightarrow> block \<Rightarrow> block \<Rightarrow> block \<Rightarrow> block" where
  "gf_mul_step 0 x v z = z"
| "gf_mul_step (Suc i) x v z =
     gf_mul_step i x
       (if bit v 0 then drop_bit 1 v XOR push_bit 120 0xe1 else drop_bit 1 v)
       (if bit x i then z XOR v else z)"

definition gf_mul :: "block \<Rightarrow> block \<Rightarrow> block" where
  "gf_mul x y = gf_mul_step 128 x y 0"

definition pad16 :: "bytes \<Rightarrow> bytes" where
  "pad16 b = b @ replicate ((16 - length b mod 16) mod 16) 0"

definition ghash :: "block \<Rightarrow> bytes \<Rightarrow> bytes \<Rightarrow> block" where
  "ghash h aad ct =
     foldl (\<lambda>y x. gf_mul (y XOR x) h) 0
       (map be_word (chunks 16 (pad16 aad @ pad16 ct
          @ be_bytes 8 (of_nat (8 * length aad) :: u64)
          @ be_bytes 8 (of_nat (8 * length ct) :: u64))))"

definition ctr_block :: "(block \<Rightarrow> block) \<Rightarrow> bytes \<Rightarrow> u32 \<Rightarrow> bytes" where
  "ctr_block E nonce c = be_bytes 16 (E (be_word (nonce @ be_bytes 4 c)))"

function gctr :: "(block \<Rightarrow> block) \<Rightarrow> bytes \<Rightarrow> u32 \<Rightarrow> bytes \<Rightarrow> bytes" where
  "gctr E nonce c b =
     (if b = [] then []
      else map2 (XOR) (take 16 b) (ctr_block E nonce c) @ gctr E nonce (c + 1) (drop 16 b))"
  by pat_completeness auto
termination
  by (relation "measure (\<lambda>(E, nonce, c, b). length b)") auto

declare gctr.simps [simp del]

definition gcm_tag :: "(block \<Rightarrow> block) \<Rightarrow> bytes \<Rightarrow> bytes \<Rightarrow> bytes \<Rightarrow> bytes" where
  "gcm_tag E nonce aad ct = map2 (XOR) (be_bytes 16 (ghash (E 0) aad ct)) (ctr_block E nonce 1)"

definition gcm_seal :: "(block \<Rightarrow> block) \<Rightarrow> bytes \<Rightarrow> bytes \<Rightarrow> bytes \<Rightarrow> bytes" where
  "gcm_seal E nonce pt aad =
     (let ct = gctr E nonce 2 pt in ct @ gcm_tag E nonce aad ct)"

definition gcm_open :: "(block \<Rightarrow> block) \<Rightarrow> bytes \<Rightarrow> bytes \<Rightarrow> bytes \<Rightarrow> bytes option" where
  "gcm_open E nonce ct aad =
     (if length ct < 16 then None
      else let n = length ct - 16; body = take n ct in
        if drop n ct = gcm_tag E nonce aad body then Some (gctr E nonce 2 body) else None)"

subsection \<open>What the protocol relies on\<close>

text \<open>
  The contract of \<^verbatim>\<open>cipher.AEAD\<close> with a 12-byte nonce: opening a sealed message under the
  same nonce and additional data gives the message back, the overhead is the 16-byte tag, and
  only a sealed message opens (the tag is a function of nonce, data and ciphertext, so nothing
  but \<open>seal\<close>'s own output is accepted). Unforgeability without the key is a computational
  assumption and is not a law of this locale.
\<close>

locale aead =
  fixes seal :: "bytes \<Rightarrow> bytes \<Rightarrow> bytes \<Rightarrow> bytes"
    and opn :: "bytes \<Rightarrow> bytes \<Rightarrow> bytes \<Rightarrow> bytes option"
  assumes opn_seal: "opn nonce (seal nonce pt aad) aad = Some pt"
    and opn_Some: "opn nonce ct aad = Some pt \<Longrightarrow> ct = seal nonce pt aad"
    and length_seal: "length (seal nonce pt aad) = length pt + 16"
begin

lemma opn_iff: "opn nonce ct aad = Some pt \<longleftrightarrow> ct = seal nonce pt aad"
  using opn_seal opn_Some by blast

lemma length_opn: "opn nonce ct aad = Some pt \<Longrightarrow> length pt = length ct - 16"
  by (auto simp: opn_iff length_seal)

lemma opn_short: "length ct < 16 \<Longrightarrow> opn nonce ct aad = None"
  by (cases "opn nonce ct aad") (auto simp: opn_iff length_seal)

lemma seal_inj: "seal nonce pt aad = seal nonce pt' aad \<Longrightarrow> pt = pt'"
  by (metis opn_seal option.inject)

end

lemma length_ctr_block [simp]: "length (ctr_block E nonce c) = 16"
  by (simp add: ctr_block_def)

lemma length_gcm_tag [simp]: "length (gcm_tag E nonce aad ct) = 16"
  by (simp add: gcm_tag_def)

lemma gctr_Nil [simp]: "gctr E nonce c [] = []"
  by (simp add: gctr.simps)

lemma length_gctr [simp]: "length (gctr E nonce c b) = length b"
proof (induction E nonce c b rule: gctr.induct)
  case (1 E nonce c b)
  then show ?case by (cases "b = []") (simp_all add: gctr.simps [of E nonce c b])
qed

lemma map2_xor_cancel:
  "length k \<ge> length b \<Longrightarrow> map2 (XOR) (map2 (XOR) b k) k = (b :: bytes)"
  by (rule nth_equalityI) (simp_all add: xor.assoc)

lemma gctr_involutive: "gctr E nonce c (gctr E nonce c b) = b"
proof (induction E nonce c b rule: gctr.induct)
  case (1 E nonce c b)
  show ?case
  proof (cases "b = []")
    case True
    then show ?thesis by simp
  next
    case False
    let ?k = "ctr_block E nonce c"
    let ?h = "map2 (XOR) (take 16 b) ?k"
    let ?r = "gctr E nonce (c + 1) (drop 16 b)"
    have e: "gctr E nonce c b = ?h @ ?r" using False by (simp add: gctr.simps [of E nonce c b])
    have t: "take 16 (?h @ ?r) = ?h \<and> drop 16 (?h @ ?r) = ?r"
      using False by (cases "length b < 16") (auto simp: gctr.simps)
    have ne: "?h @ ?r \<noteq> []" using False length_gctr [of E nonce c b] by (metis e length_0_conv)
    have "gctr E nonce c (?h @ ?r) = map2 (XOR) ?h ?k @ gctr E nonce (c + 1) ?r"
      using ne by (subst gctr.simps) (simp only: t if_False)
    also have "\<dots> = take 16 b @ drop 16 b"
      using 1 False by (simp add: map2_xor_cancel)
    finally show ?thesis by (simp add: e)
  qed
qed

interpretation gcm: aead "gcm_seal E" "gcm_open E" for E
proof
  fix nonce pt aad ct
  show "gcm_open E nonce (gcm_seal E nonce pt aad) aad = Some pt"
    by (simp add: gcm_open_def gcm_seal_def Let_def gctr_involutive)
  show "length (gcm_seal E nonce pt aad) = length pt + 16"
    by (simp add: gcm_seal_def Let_def)
  assume "gcm_open E nonce ct aad = Some pt"
  then obtain body where "body = take (length ct - 16) ct"
      "drop (length ct - 16) ct = gcm_tag E nonce aad body" "pt = gctr E nonce 2 body"
    by (auto simp: gcm_open_def Let_def split: if_splits)
  then show "ct = gcm_seal E nonce pt aad"
    by (metis append_take_drop_id gcm_seal_def gctr_involutive)
qed

subsection \<open>Lengths of the hash-based functions\<close>

lemma length_small_primes: "length small_primes = 64"
  by code_simp

lemma length_sha_rounds: "length st = 8 \<Longrightarrow> length (sha_rounds ks w st) = 8"
proof (induction ks arbitrary: w st)
  case (Cons k ks)
  then obtain a b c d e f g h where "st = [a, b, c, d, e, f, g, h]"
    by (auto simp: numeral_eq_Suc length_Suc_conv)
  then show ?case by (simp add: Let_def Cons.IH)
qed simp

lemma length_sha_block: "length st = 8 \<Longrightarrow> length (sha_block st b) = 8"
  by (simp add: sha_block_def length_sha_rounds)

lemma length_sha256 [simp]: "length (sha256 m) = 32"
proof -
  have "length (foldl sha_block st bs) = 8" if "length st = 8" for st bs
    using that by (induction bs arbitrary: st) (simp_all add: length_sha_block)
  moreover have "length sha256_H0 = 8" by (simp add: sha256_H0_def length_small_primes)
  ultimately show ?thesis by (simp add: sha256_def length_concat_map_const)
qed

lemma length_hmac [simp]: "length (hmac k m) = 32"
  by (simp add: hmac_def)

lemma length_hkdf_blocks: "length (hkdf_blocks n i prk info prev) = 32 * n"
  by (induction n arbitrary: i prev) (simp_all add: Let_def)

lemma hkdf_Key_ok:
  assumes "l \<le> 8160"
  obtains k where "hkdf_Key s salt info l = Inr k" "length k = l"
  using assms by (simp add: hkdf_Key_def length_hkdf_blocks)

lemma length_pbkdf2_iter: "length u = 32 \<Longrightarrow> length acc = 32 \<Longrightarrow> length (pbkdf2_iter n pw u acc) = 32"
  by (induction n arbitrary: u acc) (simp_all add: Let_def)

lemma length_pbkdf2_block [simp]: "length (pbkdf2_block pw salt it i) = 32"
  by (simp add: pbkdf2_block_def Let_def length_pbkdf2_iter)

lemma pbkdf2_Key_ok:
  assumes "0 < l"
  obtains k where "pbkdf2_Key pw salt it l = Inr k" "length k = l"
  using assms by (simp add: pbkdf2_Key_def length_concat_map_const)

end
