(* ===== verification/Crypto.thy ===== *)
theory Crypto
  imports Wire StdCrypto Encoding
begin

text \<open>
  \<^verbatim>\<open>src/runner/internal/protocol/crypto.go\<close>: key derivation and the sealed frames. A
  \<^verbatim>\<open>cipher.AEAD\<close> is an interface value in Go and a record of its two methods here; a
  \<open>Cipher\<close> pairs it with the session id as additional data. The random bytes of
  \<^verbatim>\<open>rand.Read\<close> are an argument (\<open>None\<close> for its error).
\<close>

definition SecretLen :: nat where "SecretLen = 32"
definition KeyLen :: nat where "KeyLen = 32"
definition nonceLen :: nat where "nonceLen = 12"
definition seqLen :: nat where "seqLen = 8"
definition tagLen :: nat where "tagLen = 16"
definition pbkdf2Iter :: nat where "pbkdf2Iter = 600000"
definition infoR2V :: string where "infoR2V = ''relay/v1 runner->viewer''"
definition infoV2R :: string where "infoV2R = ''relay/v1 viewer->runner''"
definition infoFP :: string where "infoFP = ''relay/v1 fingerprint''"

lemmas frame_len_defs = nonceLen_def seqLen_def tagLen_def

datatype frame_error = ErrFrameShort | ErrOpen

subsection \<open>Key derivation\<close>

record Keys =
  R2V :: bytes
  V2R :: bytes
  Fingerprint :: string

datatype derive_error = SecretLength nat nat | KdfError kdf_error

definition DeriveKeys :: "bytes \<Rightarrow> string \<Rightarrow> string \<Rightarrow> derive_error + Keys" where
  "DeriveKeys secret sid passphrase =
     (if length secret \<noteq> SecretLen then Inl (SecretLength SecretLen (length secret))
      else
        case (if passphrase \<noteq> [] then
                (case pbkdf2_Key passphrase (str_bytes sid) pbkdf2Iter KeyLen of
                   Inl e \<Rightarrow> Inl e | Inr pw \<Rightarrow> Inr (secret @ pw))
              else Inr secret) of
          Inl e \<Rightarrow> Inl (KdfError e)
        | Inr ikm \<Rightarrow>
            let salt = str_bytes sid in
            (case hkdf_Key ikm salt infoR2V KeyLen of
               Inl e \<Rightarrow> Inl (KdfError e)
             | Inr r2v \<Rightarrow>
            (case hkdf_Key ikm salt infoV2R KeyLen of
               Inl e \<Rightarrow> Inl (KdfError e)
             | Inr v2r \<Rightarrow>
            (case hkdf_Key ikm salt infoFP 10 of
               Inl e \<Rightarrow> Inl (KdfError e)
             | Inr fp \<Rightarrow>
               Inr \<lparr>R2V = r2v, V2R = v2r, Fingerprint = base32_encode fp\<rparr>))))"

subsection \<open>Ciphers and frames\<close>

record AEAD =
  aead_seal :: "bytes \<Rightarrow> bytes \<Rightarrow> bytes \<Rightarrow> bytes"
  aead_open :: "bytes \<Rightarrow> bytes \<Rightarrow> bytes \<Rightarrow> bytes option"

definition NewGCM :: "(block \<Rightarrow> block) \<Rightarrow> AEAD" where
  "NewGCM E = \<lparr>aead_seal = gcm_seal E, aead_open = gcm_open E\<rparr>"

record Cipher =
  aead_of :: AEAD
  aad :: bytes

definition NewCipher :: "bytes \<Rightarrow> bytes \<Rightarrow> key_size_error + Cipher" where
  "NewCipher key aadv =
     (case aes_NewCipher key of
        Inl e \<Rightarrow> Inl e
      | Inr block \<Rightarrow> Inr \<lparr>aead_of = NewGCM block, aad = aadv\<rparr>)"

definition sealWithNonce :: "Cipher \<Rightarrow> bytes \<Rightarrow> u64 \<Rightarrow> byte \<Rightarrow> bytes \<Rightarrow> bytes" where
  "sealWithNonce c nonce seq kind payload =
     (let pt = be_bytes seqLen seq @ [kind] @ payload
      in nonce @ aead_seal (aead_of c) nonce pt (aad c))"

datatype seal_error = RandError

definition Seal :: "Cipher \<Rightarrow> bytes option \<Rightarrow> u64 \<Rightarrow> byte \<Rightarrow> bytes \<Rightarrow> seal_error + bytes" where
  "Seal c rnd seq kind payload =
     (case rnd of
        None \<Rightarrow> Inl RandError
      | Some nonce \<Rightarrow> Inr (sealWithNonce c nonce seq kind payload))"

definition Open :: "Cipher \<Rightarrow> bytes \<Rightarrow> frame_error + (u64 \<times> byte \<times> bytes)" where
  "Open c fr =
     (if length fr < nonceLen + seqLen + 1 + tagLen then Inl ErrFrameShort
      else
        let nonce = take nonceLen fr in
        case aead_open (aead_of c) nonce (drop nonceLen fr) (aad c) of
          None \<Rightarrow> Inl ErrOpen
        | Some pt \<Rightarrow>
            if length pt < seqLen + 1 then Inl ErrFrameShort
            else Inr (be_word (take seqLen pt), pt ! seqLen, drop (seqLen + 1) pt))"

text \<open>The AEAD a cipher holds satisfies the contract.\<close>

definition cipher_ok :: "Cipher \<Rightarrow> bool" where
  "cipher_ok c \<longleftrightarrow> aead (aead_seal (aead_of c)) (aead_open (aead_of c))"

subsection \<open>Lemmas\<close>

lemma aead_NewGCM: "aead (aead_seal (NewGCM E)) (aead_open (NewGCM E))"
  by (simp add: NewGCM_def gcm.aead_axioms)

lemma NewCipher_ok: "NewCipher key aadv = Inr c \<Longrightarrow> cipher_ok c \<and> aad c = aadv"
  by (auto simp: NewCipher_def cipher_ok_def aead_NewGCM split: sum.splits)

lemma NewCipher_Inr_iff: "(\<exists>c. NewCipher key aadv = Inr c) \<longleftrightarrow> length key \<in> {16, 24, 32}"
  by (auto simp: NewCipher_def aes_NewCipher_def split: sum.splits)

lemma length_sealWithNonce:
  "cipher_ok c \<Longrightarrow>
   length (sealWithNonce c nonce seq kind p) = length nonce + length p + 25"
  by (simp add: sealWithNonce_def cipher_ok_def aead.length_seal frame_len_defs)

lemma Open_sealWithNonce:
  assumes "cipher_ok c" "length nonce = nonceLen"
  shows "Open c (sealWithNonce c nonce seq kind p) = Inr (seq, kind, p)"
  using assms
  by (simp add: Open_def length_sealWithNonce frame_len_defs)
    (simp add: sealWithNonce_def cipher_ok_def aead.opn_seal frame_len_defs be_word_be_bytes
      Let_def nth_append)

lemma Open_InrD:
  assumes ok: "cipher_ok c" and o: "Open c fr = Inr (seq, kind, p)"
  shows "fr = sealWithNonce c (take nonceLen fr) seq kind p \<and> nonceLen + 25 \<le> length fr"
proof -
  from o obtain pt where len: "37 \<le> length fr"
    and op: "aead_open (aead_of c) (take 12 fr) (drop 12 fr) (aad c) = Some pt"
    and pt: "9 \<le> length pt" "seq = be_word (take 8 pt)" "kind = pt ! 8" "p = drop 9 pt"
    by (auto simp: Open_def frame_len_defs Let_def split: if_splits option.splits)
  have "8 < length pt" using pt(1) by simp
  then have "pt = take 8 pt @ pt ! 8 # drop (Suc 8) pt" by (rule id_take_nth_drop)
  moreover have "take 8 pt = be_bytes 8 seq" using pt by (simp add: be_bytes_be_word)
  moreover have "drop (Suc 8) pt = p" using pt by simp
  ultimately have "pt = be_bytes 8 seq @ [kind] @ p" using pt(3) by simp
  moreover have "drop 12 fr = aead_seal (aead_of c) (take 12 fr) pt (aad c)"
    using ok op by (simp add: cipher_ok_def aead.opn_iff)
  ultimately show ?thesis
    using len by (simp add: sealWithNonce_def frame_len_defs Let_def)
      (metis append_take_drop_id)
qed

subsection \<open>What the frames and keys promise\<close>

lemma Open_iff:
  assumes "cipher_ok c"
  shows "Open c fr = Inr (seq, kind, p) \<longleftrightarrow>
    (\<exists>nonce. length nonce = nonceLen \<and> fr = sealWithNonce c nonce seq kind p)"
  using Open_InrD [OF assms, of fr seq kind p] Open_sealWithNonce [OF assms]
  by (auto intro!: exI [of _ "take nonceLen fr"])

lemma Open_errors:
  assumes "cipher_ok c"
  shows "Open c fr = Inl ErrFrameShort \<longleftrightarrow> length fr < 37"
proof (cases "length fr < 37")
  case False
  show ?thesis
  proof (cases "aead_open (aead_of c) (take 12 fr) (drop 12 fr) (aad c)")
    case None
    with False show ?thesis by (simp add: Open_def frame_len_defs)
  next
    case (Some pt)
    then have "length pt = length fr - 28"
      using aead.length_opn [OF assms [unfolded cipher_ok_def] Some] by simp
    with Some False show ?thesis by (simp add: Open_def frame_len_defs)
  qed
qed (simp add: Open_def frame_len_defs)

text \<open>
  C33: Sealed frames. With a cipher made by \<^verbatim>\<open>NewCipher\<close>, opening succeeds exactly on the
  frames sealing makes, under some 12-byte nonce, and returns what was sealed; everything shorter
  than 37 bytes is refused as too short and every other forgery as not opening. (Keys of 16, 24 and
  32 bytes make a cipher, no others do.)
\<close>

theorem open_exact:
  assumes "NewCipher key a = Inr c"
  shows "(Open c fr = Inr (seq, kind, p)) =
      (\<exists>nonce. length nonce = nonceLen \<and> fr = sealWithNonce c nonce seq kind p)
    \<and> (Open c fr = Inl ErrFrameShort) = (length fr < 37)"
  using NewCipher_ok [OF assms] Open_iff Open_errors by blast

theorem open_exact_witness:
  "Open \<lparr>aead_of = NewGCM (aes_encrypt (replicate 32 7)), aad = []\<rparr> [] = Inl ErrFrameShort"
  using open_exact [of "replicate 32 7" "[]" "\<lparr>aead_of = NewGCM (aes_encrypt (replicate 32 7)), aad = []\<rparr>" "[]"]
  by (simp add: NewCipher_def aes_NewCipher_def)

text \<open>
  Sealing and opening are inverse: a message sealed with fresh random bytes opens to itself,
  and sealing fails exactly when the random source does.
\<close>

theorem seal_open:
  assumes "NewCipher key a = Inr c" "length nonce = nonceLen"
  shows "Seal c (Some nonce) seq kind p = Inr (sealWithNonce c nonce seq kind p)
    \<and> Open c (sealWithNonce c nonce seq kind p) = Inr (seq, kind, p)
    \<and> length (sealWithNonce c nonce seq kind p) = length p + 37
    \<and> Seal c None seq kind p = Inl RandError"
  using NewCipher_ok [OF assms(1)] assms(2)
  by (simp add: Seal_def Open_sealWithNonce length_sealWithNonce nonceLen_def)

theorem seal_open_witness:
  "Open \<lparr>aead_of = NewGCM (aes_encrypt (replicate 32 7)), aad = []\<rparr>
     (sealWithNonce \<lparr>aead_of = NewGCM (aes_encrypt (replicate 32 7)), aad = []\<rparr> (replicate 12 0) 5 KindInput [3])
   = Inr (5, KindInput, [3])"
  using seal_open [of "replicate 32 7" "[]" "\<lparr>aead_of = NewGCM (aes_encrypt (replicate 32 7)), aad = []\<rparr>"
      "replicate 12 0" 5 KindInput "[3]"]
  by (simp add: NewCipher_def aes_NewCipher_def nonceLen_def)

lemma DeriveKeys_ok:
  assumes "length secret = SecretLen"
  obtains k where "DeriveKeys secret sid pass = Inr k" "length (R2V k) = 32" "length (V2R k) = 32"
    "length (Fingerprint k) = 16" "set (Fingerprint k) \<subseteq> set base32_alphabet"
proof -
  obtain pw where pw: "pbkdf2_Key pass (str_bytes sid) pbkdf2Iter KeyLen = Inr pw"
    using pbkdf2_Key_ok [of KeyLen] by (metis KeyLen_def zero_less_numeral)
  define ikm where "ikm = (if pass \<noteq> [] then secret @ pw else secret)"
  obtain r where r: "hkdf_Key ikm (str_bytes sid) infoR2V KeyLen = Inr r" "length r = 32"
    by (rule hkdf_Key_ok [of KeyLen ikm]) (simp_all add: KeyLen_def)
  obtain v where v: "hkdf_Key ikm (str_bytes sid) infoV2R KeyLen = Inr v" "length v = 32"
    by (rule hkdf_Key_ok [of KeyLen ikm]) (simp_all add: KeyLen_def)
  obtain f where f: "hkdf_Key ikm (str_bytes sid) infoFP 10 = Inr f" "length f = 10"
    by (rule hkdf_Key_ok [of 10 ikm]) simp_all
  have "DeriveKeys secret sid pass = Inr \<lparr>R2V = r, V2R = v, Fingerprint = base32_encode f\<rparr>"
    using assms pw r v f by (simp add: DeriveKeys_def ikm_def Let_def split: if_splits)
  with r v f base32_encode_shape [of f] that show thesis by simp
qed

text \<open>
  Key derivation is total on secrets of 32 bytes: it never fails there, with or without a
  passphrase, both keys have 32 bytes (so they make ciphers), and the fingerprint is 16 characters
  of the base32 alphabet. Every other secret is refused with its length.
\<close>

theorem derive_keys_total:
  "(if length secret = SecretLen
    then \<exists>k. DeriveKeys secret sid pass = Inr k \<and> length (R2V k) = 32 \<and> length (V2R k) = 32
      \<and> length (Fingerprint k) = 16 \<and> set (Fingerprint k) \<subseteq> set base32_alphabet
      \<and> (\<exists>c. NewCipher (R2V k) (str_bytes sid) = Inr c) \<and> (\<exists>c. NewCipher (V2R k) (str_bytes sid) = Inr c)
    else DeriveKeys secret sid pass = Inl (SecretLength 32 (length secret)))"
proof (cases "length secret = SecretLen")
  case True
  then show ?thesis by (auto intro: DeriveKeys_ok [of secret sid pass] simp: NewCipher_Inr_iff)
qed (simp add: DeriveKeys_def SecretLen_def)

end
