(* ===== verification/BrowserCrypto.thy ===== *)
theory BrowserCrypto
  imports Js Crypto
begin

text \<open>
  The browser's side of the protocol: \<^verbatim>\<open>src/portal/priv/static/assets/wire.js\<close> and
  \<^verbatim>\<open>src/portal/priv/static/assets/crypto.js\<close>. Web Crypto's HKDF, PBKDF2 and AES-GCM are the
  same standards that Go implements, so they are the definitions of the theory \<open>StdCrypto\<close>.
\<close>

subsection \<open>wire.js\<close>

definition jsHello :: byte where "jsHello = 0x01"
definition jsOutput :: byte where "jsOutput = 0x02"
definition jsExit :: byte where "jsExit = 0x03"
definition jsControl :: byte where "jsControl = 0x04"
definition jsInput :: byte where "jsInput = 0x10"
definition jsResize :: byte where "jsResize = 0x11"
definition jsCtrlReq :: byte where "jsCtrlReq = 0x12"
definition jsCtrlRel :: byte where "jsCtrlRel = 0x13"

definition jsReadOnly :: byte where "jsReadOnly = 0"
definition jsGranted :: byte where "jsGranted = 1"
definition jsTaken :: byte where "jsTaken = 2"

definition VIEWER_PAYLOAD_MAGIC :: bytes where
  "VIEWER_PAYLOAD_MAGIC = TextEncode (js ''OVP1'')"

definition decodeHello :: "bytes \<Rightarrow> (int \<times> u16 \<times> u16) option" where
  "decodeHello b =
     (if length b < 12 then None
      else Some (num (uint (be_word (take 8 b) :: u64)), be_word (take 2 (drop 8 b)), be_word (take 2 (drop 10 b))))"

text \<open>\<^verbatim>\<open>setUint16\<close> keeps a number modulo \<open>2 ^ 16\<close>.\<close>

definition encodeResize :: "int \<Rightarrow> int \<Rightarrow> bytes" where
  "encodeResize cols rows = be_bytes 2 (word_of_int cols :: u16) @ be_bytes 2 (word_of_int rows :: u16)"

definition decodeExit :: "bytes \<Rightarrow> int option" where
  "decodeExit b = (if length b < 4 then None else Some (sint (be_word (take 4 b) :: u32)))"

definition decodeControl :: "bytes \<Rightarrow> byte" where
  "decodeControl b = (if length b > 0 then b ! 0 else 0)"

definition encodeViewerPayload :: "jsstr \<Rightarrow> bytes \<Rightarrow> bytes option" where
  "encodeViewerPayload viewerId payload =
     (if viewerId = [] then None
      else
        let i = take 255 (TextEncode viewerId)
        in Some (VIEWER_PAYLOAD_MAGIC @ [of_nat (length i)] @ i @ payload))"

subsection \<open>Encodings of crypto.js\<close>

definition jsHexDigits :: string where "jsHexDigits = ''0123456789abcdef''"

definition bytesToHex :: "bytes \<Rightarrow> jsstr" where
  "bytesToHex b = concat (map (\<lambda>x. js [jsHexDigits ! (unat x div 16), jsHexDigits ! (unat x mod 16)]) b)"

definition b64url_unit :: "16 word \<Rightarrow> 16 word" where
  "b64url_unit u =
     (if u = of_char (CHR ''-'') then of_char (CHR ''+'')
      else if u = of_char (CHR ''_'') then of_char (CHR ''/'') else u)"

definition b64urlToBytes :: "jsstr \<Rightarrow> bytes option" where
  "b64urlToBytes s =
     (let t = map b64url_unit s
      in atob (t @ replicate ((4 - length t mod 4) mod 4) (of_char (CHR ''=''))))"

text \<open>
  \<^verbatim>\<open>base32nopad\<close>: \<open>bits\<close> counts the bits in \<open>value\<close> not yet written, a 32-bit integer
  whose higher bits are stale.
\<close>

definition B32 :: jsstr where "B32 = js ''ABCDEFGHIJKLMNOPQRSTUVWXYZ234567''"

fun b32_write :: "nat \<Rightarrow> u32 \<Rightarrow> jsstr \<Rightarrow> nat \<times> jsstr" where
  "b32_write bits value out =
     (if bits \<ge> 5 then b32_write (bits - 5) value (out @ [B32 ! unat (drop_bit (bits - 5) value AND 31)])
      else (bits, out))"

declare b32_write.simps [simp del]

fun b32_loop :: "bytes \<Rightarrow> nat \<Rightarrow> u32 \<Rightarrow> jsstr \<Rightarrow> nat \<times> u32 \<times> jsstr" where
  "b32_loop [] bits value out = (bits, value, out)"
| "b32_loop (b # bs) bits value out =
     (let value' = push_bit 8 value OR ucast b; (bits', out') = b32_write (bits + 8) value' out
      in b32_loop bs bits' value' out')"

definition base32nopad :: "bytes \<Rightarrow> jsstr" where
  "base32nopad bs =
     (case b32_loop bs 0 0 [] of
        (bits, value, out) \<Rightarrow>
          if bits > 0 then out @ [B32 ! unat (push_bit (5 - bits) value AND 31)] else out)"

subsection \<open>Key derivation\<close>

definition jsPBKDF2_ITER :: nat where "jsPBKDF2_ITER = 600000"
definition jsINFO_R2V :: string where "jsINFO_R2V = ''relay/v1 runner->viewer''"
definition jsINFO_V2R :: string where "jsINFO_V2R = ''relay/v1 viewer->runner''"
definition jsINFO_FP :: string where "jsINFO_FP = ''relay/v1 fingerprint''"

definition js_hkdf :: "bytes \<Rightarrow> bytes \<Rightarrow> string \<Rightarrow> nat \<Rightarrow> bytes option" where
  "js_hkdf ikm salt info len = (case hkdf_Key ikm salt info len of Inl _ \<Rightarrow> None | Inr k \<Rightarrow> Some k)"

definition js_pbkdf2 :: "jsstr \<Rightarrow> bytes \<Rightarrow> nat \<Rightarrow> nat \<Rightarrow> bytes option" where
  "js_pbkdf2 passphrase salt iter len =
     (case pbkdf2_Key (bytes_str (TextEncode passphrase)) salt iter len of Inl _ \<Rightarrow> None | Inr k \<Rightarrow> Some k)"

record JsKeys =
  js_r2v :: bytes
  js_v2r :: bytes
  js_fingerprint :: jsstr

definition jsDeriveKeys :: "bytes \<Rightarrow> jsstr \<Rightarrow> jsstr \<Rightarrow> JsKeys option" where
  "jsDeriveKeys secret i passphrase =
     (let salt = TextEncode i in
      case (if passphrase \<noteq> []
            then map_option (\<lambda>pw. secret @ pw) (js_pbkdf2 passphrase salt jsPBKDF2_ITER 32)
            else Some secret) of
        None \<Rightarrow> None
      | Some ikm \<Rightarrow>
          (case (js_hkdf ikm salt jsINFO_R2V 32, js_hkdf ikm salt jsINFO_V2R 32, js_hkdf ikm salt jsINFO_FP 10) of
             (Some r, Some v, Some fp) \<Rightarrow> Some \<lparr>js_r2v = r, js_v2r = v, js_fingerprint = base32nopad fp\<rparr>
           | _ \<Rightarrow> None))"

subsection \<open>Sealed frames\<close>

definition jsNONCE_LEN :: nat where "jsNONCE_LEN = 12"
definition jsTAG_LEN :: nat where "jsTAG_LEN = 16"
definition jsSEQ_LEN :: nat where "jsSEQ_LEN = 8"

record JsCipher =
  jc_block :: "block \<Rightarrow> block"
  jc_aad :: bytes

definition jsNewCipher :: "bytes \<Rightarrow> bytes \<Rightarrow> JsCipher option" where
  "jsNewCipher keyBytes aadv =
     (case aes_NewCipher keyBytes of Inl _ \<Rightarrow> None | Inr block \<Rightarrow> Some \<lparr>jc_block = block, jc_aad = aadv\<rparr>)"

definition jsSeal :: "JsCipher \<Rightarrow> bytes \<Rightarrow> int \<Rightarrow> byte \<Rightarrow> bytes \<Rightarrow> bytes" where
  "jsSeal c nonce seq kind payload =
     (let pt = be_bytes jsSEQ_LEN (word_of_int seq :: u64) @ [kind] @ payload
      in nonce @ gcm_seal (jc_block c) nonce pt (jc_aad c))"

definition jsOpen :: "JsCipher \<Rightarrow> bytes \<Rightarrow> (int \<times> byte \<times> bytes) option" where
  "jsOpen c fr =
     (if length fr < jsNONCE_LEN + jsSEQ_LEN + 1 + jsTAG_LEN then None
      else
        case gcm_open (jc_block c) (take jsNONCE_LEN fr) (drop jsNONCE_LEN fr) (jc_aad c) of
          None \<Rightarrow> None
        | Some pt \<Rightarrow>
            if length pt < jsSEQ_LEN + 1 then None
            else Some (num (uint (be_word (take jsSEQ_LEN pt) :: u64)), pt ! jsSEQ_LEN, drop (jsSEQ_LEN + 1) pt))"

lemmas js_const_defs =
  jsHello_def jsOutput_def jsExit_def jsControl_def jsInput_def jsResize_def jsCtrlReq_def jsCtrlRel_def
  jsReadOnly_def jsGranted_def jsTaken_def jsNONCE_LEN_def jsTAG_LEN_def jsSEQ_LEN_def jsPBKDF2_ITER_def
  jsINFO_R2V_def jsINFO_V2R_def jsINFO_FP_def

lemma js_kinds_distinct [simp]:
  "jsHello \<noteq> jsOutput" "jsHello \<noteq> jsControl" "jsHello \<noteq> jsExit" "jsOutput \<noteq> jsHello" "jsOutput \<noteq> jsControl"
  "jsOutput \<noteq> jsExit" "jsControl \<noteq> jsHello" "jsControl \<noteq> jsOutput" "jsControl \<noteq> jsExit" "jsExit \<noteq> jsHello"
  "jsExit \<noteq> jsOutput" "jsExit \<noteq> jsControl" "jsTaken \<noteq> jsGranted" "jsReadOnly \<noteq> jsGranted"
  by (simp_all add: js_const_defs)

subsection \<open>The same contract as Go's\<close>

text \<open>The browser's cipher for a key, and the runner's.\<close>

definition go_cipher :: "JsCipher \<Rightarrow> Cipher" where
  "go_cipher c = \<lparr>aead_of = NewGCM (jc_block c), aad = jc_aad c\<rparr>"

lemma go_cipher_ok [simp]: "cipher_ok (go_cipher c)"
  by (simp add: go_cipher_def cipher_ok_def aead_NewGCM)

lemma jsNewCipher_go: "jsNewCipher key a = Some c \<longleftrightarrow> NewCipher key a = Inr (go_cipher c) \<and> jsNewCipher key a = Some c"
  by (auto simp: jsNewCipher_def NewCipher_def go_cipher_def split: sum.splits)

lemma js_kinds:
  "jsHello = KindHello" "jsOutput = KindOutput" "jsExit = KindExit" "jsControl = KindControl" "jsInput = KindInput"
  "jsResize = KindResize" "jsCtrlReq = KindCtrlReq" "jsCtrlRel = KindCtrlRel"
  by (simp_all add: js_const_defs KindHello_def KindOutput_def KindExit_def KindControl_def KindInput_def
      KindResize_def KindCtrlReq_def KindCtrlRel_def)

lemma jsSeal_go: "jsSeal c nonce seq kind p = sealWithNonce (go_cipher c) nonce (word_of_int seq) kind p"
  by (simp add: jsSeal_def sealWithNonce_def go_cipher_def NewGCM_def js_const_defs seqLen_def Let_def)

lemma jsOpen_go:
  "jsOpen c fr = (case Open (go_cipher c) fr of Inl _ \<Rightarrow> None | Inr (seq, kind, p) \<Rightarrow> Some (num (uint seq), kind, p))"
  by (simp add: jsOpen_def Open_def go_cipher_def NewGCM_def js_const_defs frame_len_defs Let_def split: option.split)

lemma jsMagic: "VIEWER_PAYLOAD_MAGIC = viewerPayloadMagic"
proof -
  have "TextEncode (js ''OVP1'') = str_bytes ''OVP1''" by (rule TextEncode_ascii) simp
  then show ?thesis by (simp add: VIEWER_PAYLOAD_MAGIC_def viewerPayloadMagic_def)
qed

lemma encodeViewerPayload_go:
  assumes "v \<noteq> []" "list_all (\<lambda>c. (of_char c :: nat) < 128) v"
  shows "encodeViewerPayload (js v) p = Some (EncodeViewerPayload v p)"
  using assms TextEncode_ascii [OF assms(2)] jsMagic
  by (simp add: encodeViewerPayload_def EncodeViewerPayload_def Let_def js_def str_bytes_def take_map)

subsection \<open>Base 32\<close>

text \<open>The lowest \<open>n\<close> bits of a word, most significant first.\<close>

definition low_bits :: "nat \<Rightarrow> u32 \<Rightarrow> bool list" where
  "low_bits n v = map (\<lambda>i. bit v (n - 1 - i)) [0..<n]"

lemma length_low_bits [simp]: "length (low_bits n v) = n"
  by (simp add: low_bits_def)

lemma low_bits_nth: "i < n \<Longrightarrow> low_bits n v ! i = bit v (n - 1 - i)"
  by (simp add: low_bits_def)

lemma byte_bits_nth: "i < 8 \<Longrightarrow> byte_bits b ! i = bit b (7 - i)"
  by (simp only: byte_bits_def nth_map length_upt nth_upt) simp

lemma low_bits_push: "low_bits (n + 8) (push_bit 8 v OR ucast (b :: byte)) = low_bits n v @ byte_bits b"
  if "n + 8 \<le> 32"
proof (rule nth_equalityI)
  show "length (low_bits (n + 8) (push_bit 8 v OR ucast b)) = length (low_bits n v @ byte_bits b)"
    by (simp add: byte_bits_def)
  fix i assume "i < length (low_bits (n + 8) (push_bit 8 v OR ucast b))"
  then have i: "i < n + 8" by simp
  define k where "k = n + 7 - i"
  have big: "\<not> bit b k" if "8 \<le> k" using bit_imp_le_length [of b k] that by auto
  have k: "k < 32" using that by (simp add: k_def)
  have l: "low_bits (n + 8) (push_bit 8 v OR ucast b) ! i = (8 \<le> k \<and> bit v (k - 8) \<or> bit b k)"
  proof -
    have "n + 8 - 1 - i = k" by (simp add: k_def)
    then have "low_bits (n + 8) (push_bit 8 v OR ucast b) ! i = bit (push_bit 8 v OR ucast b) k"
      using low_bits_nth [OF i] by simp
    then show ?thesis using k by (auto simp: bit_or_iff bit_push_bit_iff bit_ucast_iff)
  qed
  show "low_bits (n + 8) (push_bit 8 v OR ucast b) ! i = (low_bits n v @ byte_bits b) ! i"
  proof (cases "i < n")
    case True
    then have "8 \<le> k" "k - 8 = n - 1 - i" by (simp_all add: k_def)
    with True big show ?thesis by (simp only: l) (simp add: nth_append low_bits_nth)
  next
    case False
    then have "\<not> 8 \<le> k" "k = 7 - (i - n)" "i - n < 8" using i by (simp_all add: k_def)
    with False show ?thesis by (simp only: l) (simp add: nth_append byte_bits_nth)
  qed
qed

lemma bits_val_low: "bits_val (low_bits n v) = take_bit n (unat v)" if "n \<le> 32"
proof -
  have "low_bits n v = rev (map (bit v) [0..<n])"
    by (rule nth_equalityI) (simp_all add: low_bits_def rev_nth)
  then have "bits_val (low_bits n v) = horner_sum of_bool 2 (map (bit v) [0..<n])"
    by (simp add: bits_val_horner)
  also have "map (bit v) [0..<n] = map (bit (unat v)) [0..<n]" by (simp add: bit_unsigned_iff)
  also have "horner_sum of_bool 2 \<dots> = take_bit n (unat v)" by (simp add: horner_sum_bit_eq_take_bit)
  finally show ?thesis .
qed

lemma take_low_bits: "k \<le> n \<Longrightarrow> n \<le> 32 \<Longrightarrow> take k (low_bits n v) = low_bits k (drop_bit (n - k) v)"
  by (rule nth_equalityI) (auto simp: low_bits_def bit_drop_bit_eq)

lemma drop_low_bits: "drop k (low_bits n v) = low_bits (n - k) v"
  by (rule nth_equalityI) (auto simp: low_bits_def)

lemma unat_and_31: "unat (w AND 31 :: u32) = take_bit 5 (unat w)"
proof -
  have "(31 :: u32) = mask 5" by (simp add: mask_eq_exp_minus_1)
  then have "w AND 31 = take_bit 5 w" by (simp add: take_bit_eq_mask)
  then show ?thesis by (simp add: unsigned_take_bit_eq)
qed

abbreviation b32_units :: "bool list \<Rightarrow> jsstr" where
  "b32_units bs \<equiv> map (\<lambda>i. B32 ! i) (bit_groups 5 bs)"

text \<open>Writing takes whole groups of five off the front of the pending bits.\<close>

lemma b32_write_groups:
  assumes "n \<le> 32"
  shows "\<exists>m out'. b32_write n v out = (m, out') \<and> m < 5 \<and> m \<le> n
    \<and> (\<forall>rest. out' @ b32_units (low_bits m v @ rest) = out @ b32_units (low_bits n v @ rest))"
  using assms
proof (induction n v out rule: b32_write.induct)
  case (1 n v out)
  show ?case
  proof (cases "5 \<le> n")
    case True
    let ?x = "B32 ! unat (drop_bit (n - 5) v AND 31)"
    obtain m out' where m: "b32_write (n - 5) v (out @ [?x]) = (m, out')" "m < 5" "m \<le> n - 5"
      "\<And>rest. out' @ b32_units (low_bits m v @ rest) = (out @ [?x]) @ b32_units (low_bits (n - 5) v @ rest)"
      using "1.IH" [OF True] "1.prems" by (simp add: le_diff_conv) blast
    have "b32_units (low_bits n v @ rest) = ?x # b32_units (low_bits (n - 5) v @ rest)" for rest
    proof -
      have "take 5 (low_bits n v @ rest) = low_bits 5 (drop_bit (n - 5) v)"
        "drop 5 (low_bits n v @ rest) = low_bits (n - 5) v @ rest" "low_bits n v @ rest \<noteq> []" "5 - length (low_bits n v @ rest) = 0"
        using True "1.prems" by (auto simp: take_low_bits drop_low_bits simp flip: length_0_conv)
      then show ?thesis
        by (subst bit_groups.simps) (simp add: bits_val_low unat_and_31)
    qed
    with m True show ?thesis by (intro exI [of _ m] exI [of _ out']) (simp add: b32_write.simps [of n])
  qed (simp add: b32_write.simps [of n])
qed

lemma b32_loop_groups:
  assumes "n < 5"
  shows "\<exists>m v' out'. b32_loop bs n v out = (m, v', out') \<and> m < 5
    \<and> out' @ b32_units (low_bits m v') = out @ b32_units (low_bits n v @ bits_of bs)"
  using assms
proof (induction bs arbitrary: n v out)
  case Nil
  then show ?case by (simp add: bits_of_def)
next
  case (Cons b bs)
  let ?v = "push_bit 8 v OR ucast b"
  have le: "n + 8 \<le> 32" using Cons.prems by simp
  obtain m out' where w: "b32_write (n + 8) ?v out = (m, out')" "m < 5"
    "\<And>rest. out' @ b32_units (low_bits m ?v @ rest) = out @ b32_units (low_bits (n + 8) ?v @ rest)"
    using b32_write_groups [OF le, of ?v out] by blast
  from Cons.IH [OF w(2), of ?v out'] w show ?case
    by (simp add: low_bits_push [OF le] bits_of_def)
qed

lemma base32nopad_groups: "base32nopad bs = b32_units (bits_of bs)"
proof -
  obtain m v out where l: "b32_loop bs 0 0 [] = (m, v, out)" "m < 5"
    "out @ b32_units (low_bits m v) = b32_units (bits_of bs)"
    using b32_loop_groups [of 0 bs 0 "[]"] by (auto simp: low_bits_def)
  have "b32_units (low_bits m v) = (if m > 0 then [B32 ! unat (push_bit (5 - m) v AND 31)] else [])"
  proof (cases "m = 0")
    case False
    then have "low_bits m v \<noteq> []" by (simp flip: length_0_conv)
    moreover have "low_bits m v @ replicate (5 - m) False = low_bits 5 (push_bit (5 - m) v)"
      using l(2) by (intro nth_equalityI) (auto simp: low_bits_def nth_append bit_push_bit_iff)
    ultimately show ?thesis
      using False l(2) by (simp add: bit_groups.simps [of 5 "low_bits m v"] bit_groups.simps [of 5 "[]"] bits_val_low unat_and_31)
  qed (simp add: bit_groups.simps low_bits_def)
  with l show ?thesis by (auto simp: base32nopad_def)
qed

lemma base32nopad_exact: "base32nopad bs = js (base32_encode bs)"
proof -
  have "length base32_alphabet = 32" "B32 = map of_char base32_alphabet" by (simp_all add: base32_alphabet_def B32_def js_def)
  then have "B32 ! i = of_char (base32_alphabet ! i)" if "i < 32" for i
    using that nth_map [of i base32_alphabet "of_char :: char \<Rightarrow> 16 word"] by simp
  then show ?thesis
    using bit_groups_less [of _ 5 "bits_of bs"] by (auto simp: base32nopad_groups base32_encode_def js_def)
qed

subsection \<open>Base 64\<close>

lemma base64_bits:
  "\<exists>k<6. concat (map (\<lambda>i. val_bits 6 (base64_index (base64_alphabet ! i))) (bit_groups 6 (bits_of b)))
     = bits_of b @ replicate k False"
proof -
  have e: "map (\<lambda>i. val_bits 6 (base64_index (base64_alphabet ! i))) (bit_groups 6 (bits_of b))
      = map (val_bits 6) (bit_groups 6 (bits_of b))"
    using bit_groups_less [of _ 6 "bits_of b"] by (auto simp: base64_index_def index_nth base64_alphabet_facts)
  show ?thesis unfolding e by (rule val_bits_groups) simp
qed

lemma strip_padding_eq:
  assumes "(length t + p) mod 4 = 0" "p \<le> 2" "of_char (CHR ''='') \<notin> set t"
  shows "strip_padding (t @ replicate p (of_char (CHR ''=''))) = t"
proof -
  let ?eq = "of_char (CHR ''='') :: 16 word"
  have l: "last_n 2 t \<noteq> [?eq, ?eq]" "last_n 1 t \<noteq> [?eq]" "last_n 2 (t @ [?eq]) \<noteq> [?eq, ?eq]"
  proof -
    have sub: "set (last_n k t) \<subseteq> set t" for k by (auto simp: last_n_def dest: in_set_dropD)
    show "last_n 2 t \<noteq> [?eq, ?eq]" "last_n 1 t \<noteq> [?eq]"
      using sub [of 2] sub [of 1] assms(3) by fastforce+
    have "last_n 2 (t @ [?eq]) = last_n 1 t @ [?eq]" by (cases t rule: rev_cases) (simp_all add: last_n_def)
    then show "last_n 2 (t @ [?eq]) \<noteq> [?eq, ?eq]" using \<open>last_n 1 t \<noteq> [?eq]\<close> by auto
  qed
  consider "p = 0" | "p = 1" | "p = 2" using assms(2) by linarith
  then show ?thesis
  proof cases
    case 1
    then show ?thesis using assms(1) l by (simp add: strip_padding_def js_def)
  next
    case 2
    moreover have "last_n (Suc 0) (t @ [?eq]) = [?eq]" by (simp add: last_n_def)
    ultimately show ?thesis using assms(1) l by (simp add: strip_padding_def js_def)
  next
    case 3
    have "last_n 2 (t @ [?eq, ?eq]) = [?eq, ?eq]" by (simp add: last_n_def)
    moreover have "replicate 2 ?eq = [?eq, ?eq]" by (simp add: numeral_2_eq_2)
    ultimately show ?thesis using 3 assms(1) by (simp add: strip_padding_def js_def butlast_append)
  qed
qed

lemma atob_std: "atob (js (base64_std_encode b)) = Some b"
proof -
  define g where "g = bit_groups 6 (bits_of b)"
  define t where "t = map (\<lambda>i. of_char (base64_alphabet ! i) :: 16 word) g"
  define p where "p = (3 - length b mod 3) mod 3"
  have g: "x < 64" if "x \<in> set g" for x using bit_groups_less [of x 6] that by (simp add: g_def)
  have enc: "js (base64_std_encode b) = t @ replicate p (of_char (CHR ''=''))"
    by (simp add: base64_std_encode_def js_def t_def g_def p_def)
  have al: "set t \<subseteq> of_char ` set base64_alphabet" using g by (auto simp: t_def base64_alphabet_facts)
  have no: "list_all (\<lambda>c. \<not> js_space (of_char c)) (CHR ''='' # base64_alphabet)"
    by (simp add: base64_alphabet_def js_space_def)
  have sp: "filter (\<lambda>u. \<not> js_space u) (t @ replicate p (of_char (CHR ''=''))) = t @ replicate p (of_char (CHR ''=''))"
    using al no by (auto simp: filter_id_conv list_all_iff)
  have "length t = (8 * length b + 5) div 6" by (simp add: t_def g_def length_bit_groups)
  then have len: "(length t + p) mod 4 = 0" "p \<le> 2" unfolding p_def using base64_length by blast+
  have "of_char (CHR ''='') \<notin> set t"
  proof
    assume "of_char (CHR ''='') \<in> set t"
    with al obtain c where "c \<in> set base64_alphabet" "of_char (CHR ''='') = (of_char c :: 16 word)" by blast
    then show False using base64_alphabet_facts(3) unit_char_inject by metis
  qed
  then have st: "strip_padding (t @ replicate p (of_char (CHR ''=''))) = t" using len by (intro strip_padding_eq)
  obtain k where k: "k < 6" "concat (map (\<lambda>u. val_bits 6 (base64_index (b64_unit u))) t) = bits_of b @ replicate k False"
    using base64_bits [of b] by (auto simp: t_def g_def o_def)
  have "(8 * length b + k) mod 8 = k" "length t mod 4 \<noteq> 1" using k(1) len by presburger+
  moreover have "strip_padding (filter (\<lambda>u. \<not> js_space u) (js (base64_std_encode b))) = t" by (simp only: enc sp st)
  moreover have "set (js base64_alphabet) = of_char ` set base64_alphabet" by (simp add: js_def)
  ultimately show ?thesis using al by (simp add: atob_def k(2) bit_groups_bits_of)
qed

lemma b64url_units:
  "list_all (\<lambda>i. b64url_unit (of_char (base64url_alphabet ! i)) = of_char (base64_alphabet ! i)) [0..<64]"
  by code_simp

lemma pad_length: "(l + p) mod 4 = 0 \<Longrightarrow> p \<le> 2 \<Longrightarrow> (4 - l mod 4) mod 4 = (p :: nat)"
proof -
  assume a: "(l + p) mod 4 = 0" "p \<le> 2"
  consider "p = 0" | "p = 1" | "p = 2" using a(2) by linarith
  then show ?thesis
  proof cases
    case 2
    then have "l mod 4 = 3" using a(1) by presburger
    with 2 show ?thesis by simp
  next
    case 3
    then have "l mod 4 = 2" using a(1) by presburger
    with 3 show ?thesis by simp
  qed (use a(1) in simp)
qed

lemma b64url_roundtrip: "b64urlToBytes (js (base64_rawurl_encode b)) = Some b"
proof -
  define g where "g = bit_groups 6 (bits_of b)"
  have g: "x < 64" if "x \<in> set g" for x using bit_groups_less [of x 6] that by (simp add: g_def)
  have t: "map b64url_unit (js (base64_rawurl_encode b)) = map (\<lambda>i. of_char (base64_alphabet ! i)) g"
    using b64url_units g by (auto simp: base64_rawurl_encode_def js_def g_def [symmetric] list_all_iff)
  have "length g = (8 * length b + 5) div 6" by (simp add: g_def length_bit_groups)
  then have "(length g + (3 - length b mod 3) mod 3) mod 4 = 0" "(3 - length b mod 3) mod 3 \<le> 2"
    using base64_length by blast+
  then have "(4 - length g mod 4) mod 4 = (3 - length b mod 3) mod 3" by (rule pad_length)
  then have "map b64url_unit (js (base64_rawurl_encode b)) @ replicate ((4 - length g mod 4) mod 4) (of_char (CHR ''=''))
      = js (base64_std_encode b)"
    unfolding t by (simp add: base64_std_encode_def js_def g_def)
  then show ?thesis
    using atob_std [of b] by (simp add: b64urlToBytes_def t Let_def)
qed

subsection \<open>The same keys\<close>

lemma jsDeriveKeys_go:
  assumes "length secret = SecretLen" "TextEncode i = str_bytes sid" "TextEncode pw = str_bytes passphrase"
  shows "\<exists>k. DeriveKeys secret sid passphrase = Inr k
    \<and> jsDeriveKeys secret i pw = Some \<lparr>js_r2v = R2V k, js_v2r = V2R k, js_fingerprint = js (Fingerprint k)\<rparr>"
proof -
  have e: "pw = [] \<longleftrightarrow> passphrase = []"
    using TextEncode_eq_Nil [of pw] assms(3) by (simp add: str_bytes_def)
  show ?thesis
    using assms
    by (simp add: DeriveKeys_def jsDeriveKeys_def js_hkdf_def js_pbkdf2_def hkdf_Key_def pbkdf2_Key_def e
        base32nopad_exact js_const_defs infoR2V_def infoV2R_def infoFP_def KeyLen_def pbkdf2Iter_def Let_def)
qed

end
