(* ===== verification/PortalSession.thy ===== *)
theory PortalSession
  imports JsonText "HOL-Library.AList"
begin

text \<open>
  The relay's session process, \<^verbatim>\<open>OnlyTTY.Session\<close> (\<^verbatim>\<open>portal/lib/onlytty/session.ex\<close>): one
  GenServer per session, which knows the runner's socket, the viewers' sockets and the timers, and
  wires the sockets to each other by messages. A process id, a monitor reference and a timer
  deadline are numbers; an Elixir map that is iterated over is an association list. A handler
  returns the messages it sends, in order, and the next state, \<open>None\<close> when the process stops.
  \<^verbatim>\<open>Process.monitor\<close>'s fresh reference, the random bytes of a viewer id and the clock are
  arguments, and so is \<^verbatim>\<open>Jason.encode!\<close> (\<open>jenc\<close>), a package outside the repository.
\<close>

type_synonym pid = nat
type_synonym monitor = nat
type_synonym encoder = "(string \<times> json) list \<Rightarrow> bytes"

text \<open>The messages a socket process gets, from the session and from its peers.\<close>

datatype mail =
    OnlyttyControl bytes
  | AddPeer pid
  | AddViewerPeer pid string
  | DelPeer pid
  | CloseMsg nat string
  | OnlyttyBinary bytes
  | OnlyttyViewerBinary "string option" bytes

record viewer_info =
  vi_ref :: monitor
  vi_id :: string

record PSession =
  ss_id :: string
  ss_runner_token :: string
  ss_created_at :: int
  ss_expires_at :: int
  ss_runner :: "pid option"
  ss_runner_ref :: "monitor option"
  ss_viewers :: "(pid \<times> viewer_info) list"
  ss_locked :: bool
  ss_max_viewers :: nat
  ss_idle_ms :: int
  ss_idle_timer :: "int option"
  ss_unconnected_ms :: int
  ss_ttl_timer :: "int option"
  ss_unconnected_timer :: "int option"

definition close_bye :: nat where "close_bye = 4000"

definition unconnected_ms_default :: int where "unconnected_ms_default = 120000"

text \<open>\<open>now\<close> is the clock in milliseconds; timers are the deadlines of \<^verbatim>\<open>Process.send_after\<close>.\<close>

definition session_init :: "int \<Rightarrow> string \<Rightarrow> string \<Rightarrow> int \<Rightarrow> int \<Rightarrow> nat \<Rightarrow> bool \<Rightarrow> PSession" where
  "session_init now sid tok ttl idle maxv lock =
     (let secs = now div 1000 in
      \<lparr>ss_id = sid, ss_runner_token = tok, ss_created_at = secs,
       ss_expires_at = (if ttl > 0 then secs + ttl else 0), ss_runner = None, ss_runner_ref = None,
       ss_viewers = [], ss_locked = lock, ss_max_viewers = maxv, ss_idle_ms = idle,
       ss_idle_timer = None, ss_unconnected_ms = unconnected_ms_default,
       ss_ttl_timer = (if ttl > 0 then Some (now + ttl * 1000) else None),
       ss_unconnected_timer = Some (now + unconnected_ms_default)\<rparr>)"

subsection \<open>Helpers\<close>

record hello_snapshot =
  hs_viewers :: nat
  hs_locked :: bool
  hs_expires_at :: int

definition hello_snapshot_of :: "PSession \<Rightarrow> hello_snapshot" where
  "hello_snapshot_of s =
     \<lparr>hs_viewers = length (ss_viewers s), hs_locked = ss_locked s, hs_expires_at = ss_expires_at s\<rparr>"

definition reset_idle_timer :: "int \<Rightarrow> PSession \<Rightarrow> PSession" where
  "reset_idle_timer now s = s\<lparr>ss_idle_timer := Some (now + ss_idle_ms s)\<rparr>"

definition to_runner :: "PSession \<Rightarrow> mail \<Rightarrow> (pid \<times> mail) list" where
  "to_runner s m = (case ss_runner s of None \<Rightarrow> [] | Some r \<Rightarrow> [(r, m)])"

definition to_viewers :: "PSession \<Rightarrow> mail \<Rightarrow> (pid \<times> mail) list" where
  "to_viewers s m = map (\<lambda>(v, i). (v, m)) (ss_viewers s)"

definition close_all :: "nat \<Rightarrow> string \<Rightarrow> PSession \<Rightarrow> (pid \<times> mail) list" where
  "close_all code reason s = to_runner s (CloseMsg code reason) @ to_viewers s (CloseMsg code reason)"

definition jnum :: "nat \<Rightarrow> json" where "jnum n = JNum (show_nat n)"

definition control_peer :: "encoder \<Rightarrow> string \<Rightarrow> string \<Rightarrow> nat \<Rightarrow> bytes" where
  "control_peer jenc t viewer_id viewers =
     jenc [(''t'', JStr t), (''viewer_id'', JStr viewer_id), (''viewers'', jnum viewers)]"

definition control_going_away :: "encoder \<Rightarrow> bytes" where
  "control_going_away jenc = jenc [(''t'', JStr ''going_away'')]"

text \<open>Nine random bytes in URL-safe base 64.\<close>

definition viewer_id_of :: "bytes \<Rightarrow> string" where
  "viewer_id_of rnd = base64_rawurl_encode (take 9 rnd)"

subsection \<open>Calls\<close>

definition valid_runner_token :: "string \<Rightarrow> PSession \<Rightarrow> bool" where
  "valid_runner_token presented s \<longleftrightarrow> presented = ss_runner_token s"

text \<open>
  A runner joins, or replaces the one that is there: the displaced socket is told to close and
  every viewer is taken off it before it is wired to the new one.
\<close>

definition join_runner_wiring :: "encoder \<Rightarrow> pid \<Rightarrow> pid option \<Rightarrow> PSession \<Rightarrow> (pid \<times> mail) list" where
  "join_runner_wiring jenc pid old s =
     concat (map (\<lambda>(viewer, info).
         (case old of Some o' \<Rightarrow> if o' \<noteq> pid then [(viewer, DelPeer o')] else [] | None \<Rightarrow> [])
         @ [(viewer, AddPeer pid), (pid, AddViewerPeer viewer (vi_id info)),
            (viewer, OnlyttyControl (control_peer jenc ''peer_join'' (vi_id info) (length (ss_viewers s))))])
       (ss_viewers s))"

definition join_runner ::
  "encoder \<Rightarrow> int \<Rightarrow> pid \<Rightarrow> monitor \<Rightarrow> PSession \<Rightarrow> hello_snapshot \<times> (pid \<times> mail) list \<times> PSession" where
  "join_runner jenc now pid ref s =
     (let old = ss_runner s;
          fence = (case old of Some o' \<Rightarrow> if o' \<noteq> pid then [(o', CloseMsg close_bye ''replaced'')] else [] | None \<Rightarrow> []);
          s' = reset_idle_timer now
                 (s\<lparr>ss_runner := Some pid, ss_runner_ref := Some ref, ss_unconnected_timer := None\<rparr>)
      in (hello_snapshot_of s', fence @ join_runner_wiring jenc pid old s', s'))"

datatype join_reply = Joined hello_snapshot string bool | Busy

definition viewer_cap :: "PSession \<Rightarrow> nat" where
  "viewer_cap s = (if ss_locked s then 1 else ss_max_viewers s)"

definition join_viewer ::
  "encoder \<Rightarrow> pid \<Rightarrow> monitor \<Rightarrow> bytes \<Rightarrow> PSession \<Rightarrow> join_reply \<times> (pid \<times> mail) list \<times> PSession" where
  "join_viewer jenc pid ref rnd s =
     (if length (ss_viewers s) \<ge> viewer_cap s then (Busy, [], s)
      else
        let vid = viewer_id_of rnd;
            s' = s\<lparr>ss_viewers := AList.update pid \<lparr>vi_ref = ref, vi_id = vid\<rparr> (ss_viewers s)\<rparr>;
            sends =
              (case ss_runner s' of
                 None \<Rightarrow> []
               | Some r \<Rightarrow>
                   [(r, AddViewerPeer pid vid), (pid, AddPeer r),
                    (r, OnlyttyControl (control_peer jenc ''peer_join'' vid (length (ss_viewers s'))))])
        in (Joined (hello_snapshot_of s') vid (ss_runner s' \<noteq> None), sends, s'))"

subsection \<open>Casts and timers\<close>

type_synonym sess_result = "(pid \<times> mail) list \<times> PSession option"

definition runner_active :: "int \<Rightarrow> PSession \<Rightarrow> sess_result" where
  "runner_active now s = ([], Some (reset_idle_timer now s))"

definition session_close :: "string \<Rightarrow> PSession \<Rightarrow> sess_result" where
  "session_close reason s = (close_all close_bye reason s, None)"

definition session_drain :: "encoder \<Rightarrow> PSession \<Rightarrow> sess_result" where
  "session_drain jenc s =
     (to_runner s (OnlyttyControl (control_going_away jenc)) @ to_viewers s (OnlyttyControl (control_going_away jenc)),
      Some s)"

definition ttl_expired :: "PSession \<Rightarrow> sess_result" where
  "ttl_expired s = (close_all close_bye ''expired'' s, None)"

definition idle_expired :: "PSession \<Rightarrow> sess_result" where
  "idle_expired s = (close_all close_bye ''idle'' s, None)"

definition reap_unconnected :: "PSession \<Rightarrow> sess_result" where
  "reap_unconnected s =
     (if ss_runner s = None then (close_all close_bye ''expired'' s, None) else ([], Some s))"

subsection \<open>A monitored socket is gone\<close>

definition runner_down :: "encoder \<Rightarrow> int \<Rightarrow> PSession \<Rightarrow> sess_result" where
  "runner_down jenc now s =
     (concat (map (\<lambda>(viewer, info).
          (viewer, OnlyttyControl (control_peer jenc ''peer_left'' (vi_id info) (length (ss_viewers s))))
          # (case ss_runner s of Some r \<Rightarrow> [(viewer, DelPeer r)] | None \<Rightarrow> []))
        (ss_viewers s)),
      Some (s\<lparr>ss_runner := None, ss_runner_ref := None,
              ss_unconnected_timer := Some (now + ss_unconnected_ms s)\<rparr>))"

definition viewer_down :: "encoder \<Rightarrow> monitor \<Rightarrow> pid \<Rightarrow> PSession \<Rightarrow> sess_result" where
  "viewer_down jenc ref pid s =
     (case map_of (ss_viewers s) pid of
        None \<Rightarrow> ([], Some s)
      | Some info \<Rightarrow>
          if vi_ref info \<noteq> ref then ([], Some s)
          else
            let vs = AList.delete pid (ss_viewers s)
            in (to_runner s (DelPeer pid)
                @ to_runner s (OnlyttyControl (control_peer jenc ''peer_left'' (vi_id info) (length vs))),
                Some (s\<lparr>ss_viewers := vs\<rparr>)))"

definition session_down :: "encoder \<Rightarrow> int \<Rightarrow> monitor \<Rightarrow> pid \<Rightarrow> PSession \<Rightarrow> sess_result" where
  "session_down jenc now ref pid s =
     (if ss_runner_ref s = Some ref then runner_down jenc now s else viewer_down jenc ref pid s)"

end
