(* ===== verification/PtySession.thy ===== *)
theory PtySession
  imports Prelude
begin

text \<open>
  \<^verbatim>\<open>src/runner/internal/ptysession/session.go\<close>: a command in a PTY. The operating system
  is seen through what the session does to it: \<open>pty_in\<close> is the sequence of byte chunks written
  to the PTY, \<open>winsizes\<close> the window sizes set on it, \<open>sent_signals\<close> the signals sent to
  the child. What the system answers (whether the command starts, the error of a resize, the exit
  code a wait collects) is an argument of the operation that asks.
\<close>

datatype signal = SIGTERM

record Session =
  ptmx_open :: bool
  has_process :: bool
  process_state :: "int option"
  s_cols :: u16
  s_rows :: u16
  pty_in :: "bytes list"
  winsizes :: "(u16 \<times> u16) list"
  sent_signals :: "signal list"

datatype 'e start_error = EmptyCommand | StartFailed 'e

definition Start ::
  "(string \<Rightarrow> string list \<Rightarrow> string list \<Rightarrow> 'e option) \<Rightarrow> string list \<Rightarrow> string list
   \<Rightarrow> 'e start_error + Session" where
  "Start pty_start argv env =
     (case argv of
        [] \<Rightarrow> Inl EmptyCommand
      | cmd # args \<Rightarrow>
          (case pty_start cmd args env of
             Some e \<Rightarrow> Inl (StartFailed e)
           | None \<Rightarrow> Inr \<lparr>ptmx_open = True, has_process = True, process_state = None,
                 s_cols = 0, s_rows = 0, pty_in = [], winsizes = [], sent_signals = []\<rparr>))"

text \<open>A write to a closed PTY fails and delivers nothing.\<close>

definition SessionWrite :: "Session \<Rightarrow> bytes \<Rightarrow> Session \<times> bool" where
  "SessionWrite s p =
     (if ptmx_open s then (s\<lparr>pty_in := pty_in s @ [p]\<rparr>, True) else (s, False))"

definition SetSize :: "Session \<Rightarrow> u16 \<Rightarrow> u16 \<Rightarrow> 'e option \<Rightarrow> Session \<times> 'e option" where
  "SetSize s cols rows os_answer =
     (if cols = 0 \<or> rows = 0 then (s, None)
      else (s\<lparr>s_cols := cols, s_rows := rows, winsizes := winsizes s @ [(cols, rows)]\<rparr>, os_answer))"

definition Size :: "Session \<Rightarrow> u16 \<times> u16" where
  "Size s = (s_cols s, s_rows s)"

definition Wait :: "Session \<Rightarrow> int \<Rightarrow> Session" where
  "Wait s code = s\<lparr>process_state := Some code\<rparr>"

definition ExitCode :: "Session \<Rightarrow> int" where
  "ExitCode s = (case process_state s of None \<Rightarrow> -1 | Some c \<Rightarrow> c)"

definition Close :: "Session \<Rightarrow> Session" where
  "Close s = s\<lparr>ptmx_open := False\<rparr>"

definition Terminate :: "Session \<Rightarrow> Session" where
  "Terminate s =
     Close (if has_process s then s\<lparr>sent_signals := sent_signals s @ [SIGTERM]\<rparr> else s)"

subsection \<open>Lemmas\<close>

text \<open>
  Both dimensions are known or neither is, and the remembered size is the last one that was
  set on the PTY.
\<close>

definition size_inv :: "Session \<Rightarrow> bool" where
  "size_inv s \<longleftrightarrow>
     (if winsizes s = [] then Size s = (0, 0)
      else Size s = last (winsizes s) \<and> s_cols s \<noteq> 0 \<and> s_rows s \<noteq> 0)"

lemma size_inv_Start [inv_intro]: "Start pty argv env = Inr s \<Longrightarrow> size_inv s"
  by (auto simp: Start_def size_inv_def Size_def split: list.splits option.splits)

lemma size_inv_SetSize [inv_intro]: "size_inv s \<Longrightarrow> size_inv (fst (SetSize s c r os))"
  by (auto simp: SetSize_def size_inv_def Size_def)

lemma SessionWrite_frame [frame]:
  "Size (fst (SessionWrite s p)) = Size s"
  "winsizes (fst (SessionWrite s p)) = winsizes s"
  "process_state (fst (SessionWrite s p)) = process_state s"
  "ptmx_open (fst (SessionWrite s p)) = ptmx_open s"
  by (simp_all add: SessionWrite_def Size_def)

lemma SetSize_frame [frame]:
  "pty_in (fst (SetSize s c r os)) = pty_in s"
  "process_state (fst (SetSize s c r os)) = process_state s"
  "ptmx_open (fst (SetSize s c r os)) = ptmx_open s"
  by (simp_all add: SetSize_def)

lemma Terminate_closed [simp]: "\<not> ptmx_open (Terminate s)"
  by (simp add: Terminate_def Close_def)

end
