(* ===== verification/Screen.thy ===== *)
theory Screen
  imports Prelude
begin

text \<open>
  The screen-activity detector of \<^verbatim>\<open>src/runner/internal/runner/runner.go\<close>
  (\<^verbatim>\<open>markScreenActivity\<close>, \<^verbatim>\<open>isCursorControl\<close>, \<^verbatim>\<open>screenBusy\<close>): a byte scanner over
  one chunk of the child's output. \<open>mark_loop\<close> is the source's index loop, \<open>mark_list\<close>
  the same without indices; \<open>last_toggle\<close> and \<open>draws\<close> say what a stream of terminal
  tokens means, and the scanner is proved to compute that.
\<close>

definition isCursorControl :: "byte \<Rightarrow> bool" where
  "isCursorControl final \<longleftrightarrow> final \<in> set (str_bytes ''ABCDEFGHfdJKSTsu'')"

definition is_param :: "byte \<Rightarrow> bool" where
  "is_param b \<longleftrightarrow> of_char (CHR ''0'') \<le> b \<and> b \<le> of_char (CHR ''9'') \<or> b = of_char (CHR '';'')"

definition is_priv :: "byte \<Rightarrow> bool" where
  "is_priv b \<longleftrightarrow> b = of_char (CHR ''?'') \<or> b = of_char (CHR ''>'') \<or> b = of_char (CHR ''!'')"

definition alt_mode :: "bytes \<Rightarrow> bool" where
  "alt_mode ps \<longleftrightarrow> bytes_str ps = ''1049'' \<or> bytes_str ps = ''47'' \<or> bytes_str ps = ''1047''"

function scan_params :: "bytes \<Rightarrow> nat \<Rightarrow> nat" where
  "scan_params p j = (if j < length p \<and> is_param (p ! j) then scan_params p (j + 1) else j)"
  by pat_completeness auto
termination
  by (relation "measure (\<lambda>(p, j). length p - j)") auto

declare scan_params.simps [simp del]

lemma scan_params_ge: "j \<le> scan_params p j"
proof (induction p j rule: scan_params.induct)
  case (1 p j)
  then show ?case by (cases "j < length p \<and> is_param (p ! j)") (auto simp: scan_params.simps [of p j])
qed

lemma scan_params_gt: "i \<le> j \<Longrightarrow> i < Suc (scan_params p j)"
  using scan_params_ge [of j p] by simp

text \<open>The state is the alternate-screen flag and whether a screen-owning control was seen.\<close>

function mark_loop :: "bytes \<Rightarrow> nat \<Rightarrow> bool \<Rightarrow> bool \<Rightarrow> bool \<times> bool" where
  "mark_loop p i alt ctl =
     (if i \<ge> length p then (alt, ctl)
      else
        let b = p ! i in
        if b = 0x0D then
          mark_loop p (i + 1) alt (ctl \<or> i + 1 \<ge> length p \<or> p ! (i + 1) \<noteq> 0x0A)
        else if b \<noteq> 0x1B \<or> i + 1 \<ge> length p \<or> p ! (i + 1) \<noteq> of_char (CHR ''['') then
          mark_loop p (i + 1) alt ctl
        else
          let j0 = i + 2;
              priv = (j0 < length p \<and> is_priv (p ! j0));
              start = (if priv then j0 + 1 else j0);
              j = scan_params p start
          in if j \<ge> length p then (alt, ctl)
             else
               let final = p ! j in
               if priv \<and> (final = of_char (CHR ''h'') \<or> final = of_char (CHR ''l'')) then
                 mark_loop p (j + 1)
                   (if alt_mode (take (j - start) (drop start p))
                    then final = of_char (CHR ''h'') else alt) True
               else if \<not> priv \<and> isCursorControl final then mark_loop p (j + 1) alt True
               else mark_loop p (j + 1) alt ctl)"
  by pat_completeness auto
termination
  by (relation "measure (\<lambda>(p, i, alt, ctl). length p - i)")
    (auto simp: scan_params_gt intro!: diff_less_mono2)

declare mark_loop.simps [simp del]

record screen_state =
  altScreen :: bool
  lastCtl :: int

definition markScreenActivity :: "int \<Rightarrow> bytes \<Rightarrow> screen_state \<Rightarrow> screen_state" where
  "markScreenActivity now p s =
     (case mark_loop p 0 (altScreen s) False of
        (alt, ctl) \<Rightarrow>
          let s' = s\<lparr>altScreen := alt\<rparr> in if ctl then s'\<lparr>lastCtl := now\<rparr> else s')"

definition screenBusyWindow :: int where
  "screenBusyWindow = 1500 * 1000000"

definition screenBusy :: "int \<Rightarrow> screen_state \<Rightarrow> bool" where
  "screenBusy now s \<longleftrightarrow>
     altScreen s \<or> (lastCtl s \<noteq> 0 \<and> now - lastCtl s < screenBusyWindow)"

subsection \<open>The scanner on lists\<close>

lemma dropWhile_shorter: "dropWhile P xs = y # ys \<Longrightarrow> length ys < length xs"
  by (metis Suc_le_eq length_Cons length_dropWhile_le)

text \<open>The same scan without indices, recursive on the rest of the chunk.\<close>

function mark_list :: "bytes \<Rightarrow> bool \<Rightarrow> bool \<Rightarrow> bool \<times> bool" where
  "mark_list [] alt ctl = (alt, ctl)"
| "mark_list (b # rest) alt ctl =
     (if b = 0x0D then mark_list rest alt (ctl \<or> rest = [] \<or> hd rest \<noteq> 0x0A)
      else if b \<noteq> 0x1B \<or> rest = [] \<or> hd rest \<noteq> of_char (CHR ''['') then mark_list rest alt ctl
      else
        let body = tl rest;
            priv = (body \<noteq> [] \<and> is_priv (hd body));
            params = (if priv then tl body else body)
        in case dropWhile is_param params of
             [] \<Rightarrow> (alt, ctl)
           | final # after \<Rightarrow>
               if priv \<and> (final = of_char (CHR ''h'') \<or> final = of_char (CHR ''l'')) then
                 mark_list after
                   (if alt_mode (takeWhile is_param params) then final = of_char (CHR ''h'') else alt) True
               else mark_list after alt (ctl \<or> \<not> priv \<and> isCursorControl final))"
  by pat_completeness auto
termination
  by (relation "measure (\<lambda>(p, alt, ctl). length p)")
    (auto dest!: dropWhile_shorter split: if_splits)

declare mark_list.simps(2) [simp del]

lemma scan_params_list:
  "j \<le> length p \<Longrightarrow> drop (scan_params p j) p = dropWhile is_param (drop j p)
     \<and> take (scan_params p j - j) (drop j p) = takeWhile is_param (drop j p)
     \<and> scan_params p j \<le> length p"
proof (induction p j rule: scan_params.induct)
  case (1 p j)
  show ?case
  proof (cases "j < length p \<and> is_param (p ! j)")
    case True
    then have d: "drop j p = p ! j # drop (Suc j) p" by (simp add: Cons_nth_drop_Suc)
    have "scan_params p (j + 1) - j = Suc (scan_params p (j + 1) - (j + 1))"
      using scan_params_ge [of "j + 1" p] by simp
    with 1 True d show ?thesis by (simp add: scan_params.simps [of p j])
  next
    case False
    then have "dropWhile is_param (drop j p) = drop j p \<and> takeWhile is_param (drop j p) = []"
      by (cases "j < length p") (auto simp: Cons_nth_drop_Suc [symmetric])
    with False 1(2) show ?thesis by (auto simp: scan_params.simps [of p j])
  qed
qed

lemma mark_loop_list: "mark_loop p i alt ctl = mark_list (drop i p) alt ctl"
proof (induction "length p - i" arbitrary: i alt ctl rule: less_induct)
  case (less i)
  show ?case
  proof (cases "i < length p")
    case False
    then show ?thesis by (simp add: mark_loop.simps [of p i])
  next
    case i: True
    then have d: "drop i p = p ! i # drop (Suc i) p" by (simp add: Cons_nth_drop_Suc)
    have h: "drop (Suc i) p \<noteq> [] \<Longrightarrow> hd (drop (Suc i) p) = p ! Suc i" by (simp add: hd_drop_conv_nth)
    consider "p ! i = 0x0D"
      | "p ! i \<noteq> 0x0D" "p ! i \<noteq> 0x1B \<or> i + 1 \<ge> length p \<or> p ! (i + 1) \<noteq> of_char (CHR ''['')"
      | "p ! i = 0x1B" "i + 1 < length p" "p ! (i + 1) = of_char (CHR ''['')"
      by (cases "p ! i = 0x0D") force+
    then show ?thesis
    proof cases
      case 1
      with i d less [of "Suc i"] show ?thesis
        by (cases "Suc i < length p") (simp_all add: mark_loop.simps [of p i] mark_list.simps(2) h not_le)
    next
      case 2
      with i d less [of "Suc i"] show ?thesis
        by (cases "Suc i < length p") (auto simp: mark_loop.simps [of p i] mark_list.simps(2) h not_le)
    next
      case 3
      define j0 where "j0 = i + 2"
      define priv where "priv = (j0 < length p \<and> is_priv (p ! j0))"
      define start where "start = (if priv then j0 + 1 else j0)"
      define j where "j = scan_params p start"
      have body: "tl (drop (Suc i) p) = drop j0 p" by (simp add: j0_def tl_drop drop_Suc)
      have pr: "(drop j0 p \<noteq> [] \<and> is_priv (hd (drop j0 p))) = priv"
        by (auto simp: priv_def hd_drop_conv_nth)
      have pa: "(if priv then tl (drop j0 p) else drop j0 p) = drop start p"
        by (simp add: start_def drop_Suc tl_drop)
      have st: "start \<le> length p" using 3(2) by (auto simp: start_def priv_def j0_def)
      note sp = scan_params_list [OF st, folded j_def]
      have L: "mark_loop p i alt ctl = (if j \<ge> length p then (alt, ctl) else
          if priv \<and> (p ! j = of_char (CHR ''h'') \<or> p ! j = of_char (CHR ''l'')) then
            mark_loop p (j + 1) (if alt_mode (take (j - start) (drop start p)) then p ! j = of_char (CHR ''h'') else alt) True
          else mark_loop p (j + 1) alt (ctl \<or> \<not> priv \<and> isCursorControl (p ! j)))"
        using i 3 unfolding mark_loop.simps [of p i alt ctl] Let_def j0_def [symmetric]
          priv_def [symmetric] start_def [symmetric] j_def [symmetric] by auto
      have R: "mark_list (drop i p) alt ctl = (case drop j p of [] \<Rightarrow> (alt, ctl) | final # after \<Rightarrow>
          if priv \<and> (final = of_char (CHR ''h'') \<or> final = of_char (CHR ''l'')) then
            mark_list after (if alt_mode (take (j - start) (drop start p)) then final = of_char (CHR ''h'') else alt) True
          else mark_list after alt (ctl \<or> \<not> priv \<and> isCursorControl final))"
        using 3 h unfolding d mark_list.simps(2) body Let_def pr pa sp [THEN conjunct1, symmetric]
          sp [THEN conjunct2, THEN conjunct1, symmetric] by simp
      show ?thesis
      proof (cases "j < length p")
        case True
        then have "drop j p = p ! j # drop (Suc j) p" by (simp add: Cons_nth_drop_Suc)
        moreover have "mark_loop p (j + 1) a c = mark_list (drop (Suc j) p) a c" for a c
          using less [of "j + 1"] i True scan_params_ge [of start p]
          by (auto simp: j_def start_def j0_def split: if_splits)
        ultimately show ?thesis unfolding L R using True by (auto simp: not_le)
      next
        case False
        then show ?thesis unfolding L R by simp
      qed
    qed
  qed
qed

subsection \<open>The scanner on terminal tokens\<close>

text \<open>
  Output as a terminal reads it: single bytes, a carriage return on its own or in a newline, an
  escape that starts no control sequence, and control sequences with their private marker,
  parameters and final byte. \<open>toks_ok\<close> says that a list of tokens is the way its bytes read.
\<close>

datatype tok = Byte byte | CR | CRLF | Esc | Csi "byte option" bytes byte

definition render :: "tok \<Rightarrow> bytes" where
  "render t =
     (case t of
        Byte b \<Rightarrow> [b]
      | CR \<Rightarrow> [0x0D]
      | CRLF \<Rightarrow> [0x0D, 0x0A]
      | Esc \<Rightarrow> [0x1B]
      | Csi priv ps final \<Rightarrow>
          [0x1B, of_char (CHR ''['')] @ (case priv of None \<Rightarrow> [] | Some c \<Rightarrow> [c]) @ ps @ [final])"

definition tok_ok :: "tok \<Rightarrow> bytes \<Rightarrow> bool" where
  "tok_ok t rest =
     (case t of
        Byte b \<Rightarrow> b \<noteq> 0x0D \<and> b \<noteq> 0x1B
      | CR \<Rightarrow> rest = [] \<or> hd rest \<noteq> 0x0A
      | CRLF \<Rightarrow> True
      | Esc \<Rightarrow> rest = [] \<or> hd rest \<noteq> of_char (CHR ''['')
      | Csi priv ps final \<Rightarrow>
          list_all is_param ps \<and> \<not> is_param final
          \<and> (case priv of None \<Rightarrow> \<not> is_priv (hd (ps @ [final])) | Some c \<Rightarrow> is_priv c))"

primrec toks_ok :: "tok list \<Rightarrow> bytes \<Rightarrow> bool" where
  "toks_ok [] rest = True"
| "toks_ok (t # ts) rest = (tok_ok t (concat (map render ts) @ rest) \<and> toks_ok ts rest)"

text \<open>The end of a chunk may cut a control sequence before its final byte.\<close>

definition cut_csi :: "bytes \<Rightarrow> bool" where
  "cut_csi b \<longleftrightarrow>
     b = [] \<or> (\<exists>priv ps. list_all is_param ps \<and> (case priv of None \<Rightarrow> True | Some c \<Rightarrow> is_priv c)
       \<and> b = [0x1B, of_char (CHR ''['')] @ (case priv of None \<Rightarrow> [] | Some c \<Rightarrow> [c]) @ ps)"

text \<open>What a token means: it toggles the alternate screen, or shows that the program draws.\<close>

definition toggles :: "tok \<Rightarrow> bool option" where
  "toggles t =
     (case t of
        Csi (Some c) ps final \<Rightarrow>
          if alt_mode ps \<and> final = of_char (CHR ''h'') then Some True
          else if alt_mode ps \<and> final = of_char (CHR ''l'') then Some False
          else None
      | _ \<Rightarrow> None)"

definition draws :: "tok \<Rightarrow> bool" where
  "draws t =
     (case t of
        CR \<Rightarrow> True
      | Csi (Some c) ps final \<Rightarrow> final = of_char (CHR ''h'') \<or> final = of_char (CHR ''l'')
      | Csi None ps final \<Rightarrow> isCursorControl final
      | _ \<Rightarrow> False)"

primrec last_toggle :: "bool \<Rightarrow> tok list \<Rightarrow> bool" where
  "last_toggle alt [] = alt"
| "last_toggle alt (t # ts) = last_toggle (case toggles t of None \<Rightarrow> alt | Some b \<Rightarrow> b) ts"

lemma is_priv_not_param: "is_param b \<Longrightarrow> \<not> is_priv b"
  by (auto simp: is_param_def is_priv_def word_le_nat_alt)

lemma dropWhile_all_app: "list_all P xs \<Longrightarrow> dropWhile P (xs @ ys) = dropWhile P ys"
  by (induction xs) simp_all

lemma takeWhile_all_app: "list_all P xs \<Longrightarrow> takeWhile P (xs @ ys) = xs @ takeWhile P ys"
  by (induction xs) simp_all

lemma mark_list_tok:
  assumes "tok_ok t rest"
  shows "mark_list (render t @ rest) alt ctl =
    mark_list rest (case toggles t of None \<Rightarrow> alt | Some b \<Rightarrow> b) (ctl \<or> draws t)"
proof (cases t)
  case (Csi priv ps final)
  show ?thesis
  proof (cases priv)
    case None
    with Csi assms have "\<not> is_priv (hd (ps @ final # rest))" by (cases ps) (auto simp: tok_ok_def)
    with Csi None assms show ?thesis
      by (auto simp: render_def tok_ok_def mark_list.simps(2) toggles_def draws_def
          dropWhile_all_app takeWhile_all_app Let_def)
  next
    case (Some c)
    with Csi assms show ?thesis
      by (auto simp: render_def tok_ok_def mark_list.simps(2) toggles_def draws_def
          dropWhile_all_app takeWhile_all_app Let_def)
  qed
qed (use assms in \<open>auto simp: render_def tok_ok_def mark_list.simps(2) toggles_def draws_def\<close>)

lemma mark_list_cut:
  assumes "cut_csi b"
  shows "mark_list b alt ctl = (alt, ctl)"
proof (cases "b = []")
  case False
  with assms obtain priv ps where ps: "list_all is_param ps" "case priv of None \<Rightarrow> True | Some c \<Rightarrow> is_priv c"
    "b = [0x1B, of_char (CHR ''['')] @ (case priv of None \<Rightarrow> [] | Some c \<Rightarrow> [c]) @ ps"
    unfolding cut_csi_def by blast
  have [simp]: "dropWhile is_param ps = []" using ps(1) by (simp add: list_all_iff)
  have "ps \<noteq> [] \<Longrightarrow> \<not> is_priv (hd ps)" using ps(1) is_priv_not_param by (cases ps) auto
  then show ?thesis using ps
    by (cases priv) (auto simp: mark_list.simps(2) Let_def)
qed simp

lemma mark_list_toks:
  "toks_ok ts rest \<Longrightarrow> cut_csi rest \<Longrightarrow>
   mark_list (concat (map render ts) @ rest) alt ctl = (last_toggle alt ts, ctl \<or> list_ex draws ts)"
  by (induction ts arbitrary: alt ctl) (simp_all add: mark_list_tok mark_list_cut)

text \<open>Every chunk reads as tokens, up to a cut control sequence at its end.\<close>

lemma tok_ok_ConsI:
  "tok_ok t p' \<Longrightarrow> \<exists>ts rest. p' = concat (map render ts) @ rest \<and> toks_ok ts rest \<and> cut_csi rest \<Longrightarrow>
   \<exists>ts rest. render t @ p' = concat (map render ts) @ rest \<and> toks_ok ts rest \<and> cut_csi rest"
proof -
  assume t: "tok_ok t p'"
  assume "\<exists>ts rest. p' = concat (map render ts) @ rest \<and> toks_ok ts rest \<and> cut_csi rest"
  then obtain ts rest where r: "p' = concat (map render ts) @ rest" "toks_ok ts rest" "cut_csi rest" by blast
  then have "render t @ p' = concat (map render (t # ts)) @ rest \<and> toks_ok (t # ts) rest \<and> cut_csi rest"
    using t by simp
  then show ?thesis by blast
qed

lemma csi_reading:
  assumes "p = [0x1B, of_char (CHR ''['')] @ body"
  shows "cut_csi p \<or> (\<exists>priv ps final after. p = render (Csi priv ps final) @ after
    \<and> tok_ok (Csi priv ps final) after)"
proof -
  define priv where "priv = (if body \<noteq> [] \<and> is_priv (hd body) then Some (hd body) else None)"
  define ms where "ms = (if priv = None then body else tl body)"
  define ps where "ps = takeWhile is_param ms"
  have b: "body = (case priv of None \<Rightarrow> [] | Some c \<Rightarrow> [c]) @ ps @ dropWhile is_param ms"
    by (cases body) (auto simp: priv_def ms_def ps_def)
  have ps: "list_all is_param ps" by (auto simp: ps_def list_all_iff dest: set_takeWhileD)
  show ?thesis
  proof (cases "dropWhile is_param ms")
    case Nil
    have "case priv of None \<Rightarrow> True | Some c \<Rightarrow> is_priv c" by (simp add: priv_def)
    moreover have "p = [0x1B, of_char (CHR ''['')] @ (case priv of None \<Rightarrow> [] | Some c \<Rightarrow> [c]) @ ps"
      using assms b Nil by simp
    ultimately show ?thesis using ps unfolding cut_csi_def by blast
  next
    case (Cons final after)
    have "\<not> is_param final" using Cons by (metis dropWhile_eq_Cons_conv)
    moreover have "\<not> is_priv (hd (ps @ [final]))" if "priv = None"
    proof -
      have "body = (ps @ [final]) @ after" using b Cons that by simp
      then have "hd (ps @ [final]) = hd body" "body \<noteq> []" by (simp_all add: hd_append)
      with that show ?thesis by (simp add: priv_def split: if_splits)
    qed
    ultimately have "tok_ok (Csi priv ps final) after"
      using ps by (auto simp: tok_ok_def priv_def)
    moreover have "p = render (Csi priv ps final) @ after" using assms b Cons by (simp add: render_def)
    ultimately show ?thesis by blast
  qed
qed

lemma chunk_reads_as_tokens:
  "\<exists>ts rest. p = concat (map render ts) @ rest \<and> toks_ok ts rest \<and> cut_csi rest"
proof (induction p rule: length_induct)
  case (1 p)
  show ?case
  proof (cases p)
    case Nil
    then show ?thesis by (intro exI [of _ "[]"]) (simp add: cut_csi_def)
  next
    case (Cons b q)
    consider "b = 0x0D" "q \<noteq> []" "hd q = 0x0A" | "b = 0x0D" "q = [] \<or> hd q \<noteq> 0x0A"
      | "b = 0x1B" "q \<noteq> []" "hd q = of_char (CHR ''['')" | "b = 0x1B" "q = [] \<or> hd q \<noteq> of_char (CHR ''['')"
      | "b \<noteq> 0x0D" "b \<noteq> 0x1B" by blast
    then show ?thesis
    proof cases
      case 1
      then have "p = render CRLF @ tl q" using Cons by (cases q) (simp_all add: render_def)
      moreover have "length (tl q) < length p" using Cons by simp
      ultimately show ?thesis using "1.IH" tok_ok_ConsI [of CRLF "tl q"] by (simp add: tok_ok_def)
    next
      case 2
      then have "p = render CR @ q" using Cons by (simp add: render_def)
      with 2 "1.IH" Cons tok_ok_ConsI [of CR q] show ?thesis by (simp add: tok_ok_def)
    next
      case 3
      then have p: "p = [0x1B, of_char (CHR ''['')] @ tl q" using Cons by (cases q) simp_all
      from csi_reading [OF p] show ?thesis
      proof
        assume "cut_csi p"
        then show ?thesis by (intro exI [of _ "[]"] exI [of _ p]) simp
      next
        assume "\<exists>priv ps final after. p = render (Csi priv ps final) @ after \<and> tok_ok (Csi priv ps final) after"
        then obtain priv ps final after where
          a: "p = render (Csi priv ps final) @ after" "tok_ok (Csi priv ps final) after" by blast
        then have "length after < length p" by (simp add: render_def)
        with "1.IH" a tok_ok_ConsI [OF a(2)] show ?thesis by simp
      qed
    next
      case 4
      then have "p = render Esc @ q" using Cons by (simp add: render_def)
      with 4 "1.IH" Cons tok_ok_ConsI [of Esc q] show ?thesis by (simp add: tok_ok_def)
    next
      case 5
      then have "p = render (Byte b) @ q" using Cons by (simp add: render_def)
      with 5 "1.IH" Cons tok_ok_ConsI [of "Byte b" q] show ?thesis by (simp add: tok_ok_def)
    qed
  qed
qed

text \<open>
  The screen detector is right about every chunk: each chunk reads as a sequence of terminal
  tokens, possibly with a control sequence cut off at its end, and however it is read so, the
  alternate-screen flag afterwards is the chunk's last toggle (or unchanged), and the time of the
  last drawing is updated exactly if one of the tokens draws: a bare carriage return, a cursor or
  erase sequence, or a private-mode switch. Colours, text and newlines never count.
\<close>

theorem screen_activity_exact:
  "(\<exists>ts rest. p = concat (map render ts) @ rest \<and> toks_ok ts rest \<and> cut_csi rest)
   \<and> (\<forall>ts rest. p = concat (map render ts) @ rest \<and> toks_ok ts rest \<and> cut_csi rest \<longrightarrow>
        markScreenActivity now p s =
          s\<lparr>altScreen := last_toggle (altScreen s) ts,
             lastCtl := (if list_ex draws ts then now else lastCtl s)\<rparr>)"
  using chunk_reads_as_tokens
  by (auto simp: markScreenActivity_def mark_loop_list mark_list_toks Let_def)

theorem screen_activity_exact_witness:
  "markScreenActivity 9 (concat (map render [Byte 0x61, Csi (Some 0x3F) (str_bytes ''1049'') 0x68, CRLF,
       Csi None (str_bytes ''31'') 0x6D]) @ [0x1B, 0x5B, 0x32]) \<lparr>altScreen = False, lastCtl = 4\<rparr>
   = \<lparr>altScreen = True, lastCtl = 9\<rparr>"
proof -
  define ts where "ts = [Byte 0x61, Csi (Some 0x3F) (str_bytes ''1049'') 0x68, CRLF, Csi None (str_bytes ''31'') 0x6D]"
  define rest :: bytes where "rest = [0x1B, 0x5B, 0x32]"
  have "cut_csi rest"
    unfolding cut_csi_def rest_def
    by (intro disjI2 exI [of _ None] exI [of _ "[0x32]"]) (simp add: is_param_def)
  moreover have "toks_ok ts rest"
    by (simp add: ts_def rest_def tok_ok_def is_param_def is_priv_def str_bytes_def)
  ultimately have "markScreenActivity 9 (concat (map render ts) @ rest) \<lparr>altScreen = False, lastCtl = 4\<rparr>
      = \<lparr>altScreen = last_toggle False ts, lastCtl = (if list_ex draws ts then 9 else 4)\<rparr>"
    using screen_activity_exact [of "concat (map render ts) @ rest" 9 "\<lparr>altScreen = False, lastCtl = 4\<rparr>"] by simp
  moreover have "last_toggle False ts" "list_ex draws ts"
    by (simp_all add: ts_def toggles_def draws_def alt_mode_def)
  ultimately show ?thesis by (simp add: ts_def rest_def)
qed

end
