(* ===== verification/Url.thy ===== *)
theory Url
  imports Prelude
begin

text \<open>
  What the runner uses of Go's \<^verbatim>\<open>net/url\<close>, \<^verbatim>\<open>path\<close> and \<^verbatim>\<open>net\<close> (Go 1.27):
  \<^verbatim>\<open>url.Parse\<close>, \<^verbatim>\<open>URL.String\<close>, \<^verbatim>\<open>URL.JoinPath\<close>, \<^verbatim>\<open>URL.Hostname\<close>,
  \<^verbatim>\<open>net.ParseIP\<close> and \<^verbatim>\<open>IP.IsLoopback\<close>, as executable definitions over byte strings.
  A function that returns an error returns \<open>None\<close>: the client only looks at whether there is one.
\<close>

subsection \<open>Strings\<close>

definition before :: "char \<Rightarrow> string \<Rightarrow> string" where
  "before c s = takeWhile (\<lambda>x. x \<noteq> c) s"

definition after :: "char \<Rightarrow> string \<Rightarrow> string" where
  "after c s = tl (dropWhile (\<lambda>x. x \<noteq> c) s)"

text \<open>\<^verbatim>\<open>strings.Split\<close> on one character.\<close>

fun split_on :: "char \<Rightarrow> string \<Rightarrow> string list" where
  "split_on c [] = [[]]"
| "split_on c (x # s) =
     (if x = c then [] # split_on c s else (x # hd (split_on c s)) # tl (split_on c s))"

fun slash_join :: "string list \<Rightarrow> string" where
  "slash_join [] = []"
| "slash_join [s] = s"
| "slash_join (s # t # r) = s @ ''/'' @ slash_join (t # r)"

definition lower_letters :: string where "lower_letters = ''abcdefghijklmnopqrstuvwxyz''"
definition upper_letters :: string where "upper_letters = ''ABCDEFGHIJKLMNOPQRSTUVWXYZ''"
definition dec_digits :: string where "dec_digits = ''0123456789''"

definition alnum :: string where "alnum = lower_letters @ upper_letters @ dec_digits"

definition to_lower :: "char \<Rightarrow> char" where
  "to_lower c = (if c \<in> set upper_letters then char_of ((of_char c :: nat) + 32) else c)"

fun index_in :: "string \<Rightarrow> char \<Rightarrow> nat option" where
  "index_in [] c = None"
| "index_in (x # s) c = (if x = c then Some 0 else map_option Suc (index_in s c))"

definition unhex :: "char \<Rightarrow> nat option" where
  "unhex c =
     (case index_in ''0123456789abcdef'' c of
        Some n \<Rightarrow> Some n
      | None \<Rightarrow> index_in ''0123456789ABCDEF'' c)"

subsection \<open>Percent-encoding\<close>

datatype encoding = encodePath | encodeFragment | encodeHost | encodeZone | encodeUserPassword

definition shouldEscape :: "encoding \<Rightarrow> char \<Rightarrow> bool" where
  "shouldEscape m c =
     (if c \<in> set alnum then False
      else if (m = encodeHost \<or> m = encodeZone) \<and> c \<in> set (CHR 0x27 # ''!$&()*+,;=:[]<>\"'') then False
      else if c \<in> set ''-_.~'' then False
      else if c \<in> set ''$&+,/:;=?@'' then
        (case m of
           encodePath \<Rightarrow> c = CHR ''?''
         | encodeUserPassword \<Rightarrow> c \<in> set ''@/?:''
         | encodeFragment \<Rightarrow> False
         | _ \<Rightarrow> True)
      else if m = encodeFragment \<and> c \<in> set ''!()*'' then False
      else True)"

definition pct :: "char \<Rightarrow> string" where
  "pct c = (let n = of_char c :: nat in
     [CHR ''%'', ''0123456789ABCDEF'' ! (n div 16), ''0123456789ABCDEF'' ! (n mod 16)])"

definition escape :: "encoding \<Rightarrow> string \<Rightarrow> string" where
  "escape m s = concat (map (\<lambda>c. if shouldEscape m c then pct c else [c]) s)"

definition pct_allowed :: "encoding \<Rightarrow> char \<Rightarrow> bool" where
  "pct_allowed m c =
     (c = CHR ''%'' \<or>
      (case m of
         encodeHost \<Rightarrow> 0x80 \<le> (of_char c :: nat)
       | encodeZone \<Rightarrow> c = CHR '' '' \<or> \<not> shouldEscape encodeHost c
       | _ \<Rightarrow> True))"

definition raw_allowed :: "encoding \<Rightarrow> char \<Rightarrow> bool" where
  "raw_allowed m c =
     ((m = encodeHost \<or> m = encodeZone) \<and> (of_char c :: nat) < 0x80 \<longrightarrow> \<not> shouldEscape m c)"

fun unescape :: "encoding \<Rightarrow> string \<Rightarrow> string option" where
  "unescape m [] = Some []"
| "unescape m (c # s) =
     (if c = CHR ''%'' then
        (case s of
           a # b # r \<Rightarrow>
             (case (unhex a, unhex b) of
                (Some h, Some l) \<Rightarrow>
                  (let x = char_of (16 * h + l) in
                   if pct_allowed m x then map_option ((#) x) (unescape m r) else None)
              | _ \<Rightarrow> None)
         | _ \<Rightarrow> None)
      else if raw_allowed m c then map_option ((#) c) (unescape m s)
      else None)"

text \<open>Could the raw spelling of a path or fragment be a valid encoding of it?\<close>

definition validEncoded :: "encoding \<Rightarrow> string \<Rightarrow> bool" where
  "validEncoded m s \<longleftrightarrow>
     list_all (\<lambda>c. c \<in> set (CHR 0x27 # ''!$&()*+,;=:@[]%'') \<or> \<not> shouldEscape m c) s"

subsection \<open>IP addresses\<close>

definition dec_value :: "string \<Rightarrow> nat" where
  "dec_value ds = foldl (\<lambda>a d. 10 * a + ((of_char d :: nat) - 48)) 0 ds"

definition ipv4_field :: "string \<Rightarrow> nat option" where
  "ipv4_field f =
     (if f \<noteq> [] \<and> list_all (\<lambda>c. c \<in> set dec_digits) f \<and> (length f = 1 \<or> hd f \<noteq> CHR ''0'')
         \<and> dec_value f \<le> 255
      then Some (dec_value f) else None)"

definition ipv4_fields :: "string \<Rightarrow> nat list option" where
  "ipv4_fields s =
     (case map ipv4_field (split_on CHR ''.'' s) of
        [Some a, Some b, Some c, Some d] \<Rightarrow> Some [a, b, c, d]
      | _ \<Rightarrow> None)"

definition hex_value :: "string \<Rightarrow> nat" where
  "hex_value hs = foldl (\<lambda>a d. 16 * a + (case unhex d of Some n \<Rightarrow> n | None \<Rightarrow> 0)) 0 hs"

text \<open>
  The loop of \<^verbatim>\<open>parseIPv6\<close>: the address bytes so far, where the ellipsis was, and the rest
  of the text. An iteration appends two bytes or ends the loop, so eight of them fill the address.
\<close>

primrec ipv6_groups ::
  "nat \<Rightarrow> string \<Rightarrow> nat list \<Rightarrow> nat option \<Rightarrow> (nat list \<times> nat option \<times> string) option" where
  "ipv6_groups 0 s ip ell = Some (ip, ell, s)"
| "ipv6_groups (Suc n) s ip ell =
     (let hs = takeWhile (\<lambda>c. unhex c \<noteq> None) s;
          ip' = ip @ [hex_value hs div 256, hex_value hs mod 256]
      in if length hs = 0 \<or> 4 < length hs then None
         else case drop (length hs) s of
           [] \<Rightarrow> Some (ip', ell, [])
         | c # r \<Rightarrow>
             if c = CHR ''.'' then
               (if ell = None \<and> length ip \<noteq> 12 \<or> 16 < length ip + 4 then None
                else map_option (\<lambda>fs. (ip @ fs, ell, [])) (ipv4_fields s))
             else if c \<noteq> CHR '':'' \<or> r = [] then None
             else if hd r \<noteq> CHR '':'' then ipv6_groups n r ip' ell
             else if ell \<noteq> None then None
             else if tl r = [] then Some (ip', Some (length ip'), [])
             else ipv6_groups n (tl r) ip' (Some (length ip')))"

definition parse_ipv6 :: "string \<Rightarrow> nat list option" where
  "parse_ipv6 s =
     (if s = ''::'' then Some (replicate 16 0)
      else case (if take 2 s = ''::'' then ipv6_groups 8 (drop 2 s) [] (Some 0) else ipv6_groups 8 s [] None) of
        None \<Rightarrow> None
      | Some (ip, ell, rest) \<Rightarrow>
          if rest \<noteq> [] then None
          else if length ip < 16 then
            map_option (\<lambda>e. take e ip @ replicate (16 - length ip) 0 @ drop e ip) ell
          else if ell \<noteq> None then None else Some ip)"

definition v4_prefix :: "nat list" where "v4_prefix = replicate 10 0 @ [255, 255]"

definition parse_ip :: "string \<Rightarrow> nat list option" where
  "parse_ip s =
     (case find (\<lambda>c. c \<in> set ''.:%'') s of
        None \<Rightarrow> None
      | Some c \<Rightarrow>
          if c = CHR ''.'' then map_option ((@) v4_prefix) (ipv4_fields s)
          else if c = CHR '':'' then (if CHR ''%'' \<in> set s then None else parse_ipv6 s)
          else None)"

definition is_loopback :: "nat list \<Rightarrow> bool" where
  "is_loopback ip =
     (if take 12 ip = v4_prefix then ip ! 12 = 127 else ip = replicate 15 0 @ [1])"

text \<open>An IPv6 address, with an optional zone, as it may stand between brackets.\<close>

definition bracket_address :: "string \<Rightarrow> bool" where
  "bracket_address h \<longleftrightarrow>
     find (\<lambda>c. c \<in> set ''.:%'') h = Some CHR '':'' \<and> parse_ipv6 (before CHR ''%'' h) \<noteq> None
     \<and> (CHR ''%'' \<in> set h \<longrightarrow> after CHR ''%'' h \<noteq> [])"

subsection \<open>Parsing\<close>

record URL =
  u_scheme :: string
  u_opaque :: string
  u_user :: "(string \<times> string option) option"
  u_host :: string
  u_path :: string
  u_rawPath :: string
  u_omitHost :: bool
  u_forceQuery :: bool
  u_rawQuery :: string
  u_fragment :: string
  u_rawFragment :: string

definition zero_url :: URL where
  "zero_url = \<lparr>u_scheme = [], u_opaque = [], u_user = None, u_host = [], u_path = [], u_rawPath = [],
     u_omitHost = False, u_forceQuery = False, u_rawQuery = [], u_fragment = [], u_rawFragment = []\<rparr>"

definition validOptionalPort :: "string \<Rightarrow> bool" where
  "validOptionalPort p \<longleftrightarrow>
     (case p of [] \<Rightarrow> True | c # ds \<Rightarrow> c = CHR '':'' \<and> list_all (\<lambda>d. d \<in> set dec_digits) ds)"

text \<open>The text after the last occurrence of a character, which must occur.\<close>

definition after_last :: "char \<Rightarrow> string \<Rightarrow> string" where
  "after_last c s = rev (takeWhile (\<lambda>x. x \<noteq> c) (rev s))"

definition before_last :: "char \<Rightarrow> string \<Rightarrow> string" where
  "before_last c s = rev (tl (dropWhile (\<lambda>x. x \<noteq> c) (rev s)))"

text \<open>
  The zone of a bracketed address starts at the first \<^verbatim>\<open>%25\<close>, if there is one.
\<close>

fun zone_split :: "string \<Rightarrow> string \<times> string" where
  "zone_split [] = ([], [])"
| "zone_split (c # s) =
     (if take 3 (c # s) = ''%25'' then ([], c # s)
      else case zone_split s of (a, z) \<Rightarrow> (c # a, z))"

definition parse_host :: "string \<Rightarrow> string option" where
  "parse_host h =
     (if CHR ''['' \<in> set h then
        (if CHR ''['' \<in> set (tl h) \<or> CHR '']'' \<notin> set h then None
         else let colonPort = after_last CHR '']'' h;
                  (name, zone) = zone_split (tl (before_last CHR '']'' h))
              in if \<not> validOptionalPort colonPort then None
                 else case (unescape encodeHost colonPort, unescape encodeHost name, unescape encodeZone zone) of
                   (Some p, Some n, Some z) \<Rightarrow>
                     if bracket_address (n @ z) then Some (''['' @ n @ z @ '']'' @ p) else None
                 | _ \<Rightarrow> None)
      else if CHR '':'' \<in> set h \<and>
        (CHR '':'' \<in> set (after CHR '':'' h) \<or> \<not> validOptionalPort (CHR '':'' # after CHR '':'' h))
        then None
      else unescape encodeHost h)"

definition validUserinfo :: "string \<Rightarrow> bool" where
  "validUserinfo s \<longleftrightarrow> list_all (\<lambda>c. c \<in> set alnum \<or> c \<in> set (CHR 0x27 # ''-._:~!$&()*+,;=%@'')) s"

definition parse_userinfo :: "string \<Rightarrow> (string \<times> string option) option" where
  "parse_userinfo s =
     (if \<not> validUserinfo s then None
      else if CHR '':'' \<notin> set s then map_option (\<lambda>u. (u, None)) (unescape encodeUserPassword s)
      else case (unescape encodeUserPassword (before CHR '':'' s), unescape encodeUserPassword (after CHR '':'' s)) of
        (Some u, Some p) \<Rightarrow> Some (u, Some p)
      | _ \<Rightarrow> None)"

definition parse_authority :: "string \<Rightarrow> ((string \<times> string option) option \<times> string) option" where
  "parse_authority a =
     (if CHR ''@'' \<notin> set a then map_option (\<lambda>h. (None, h)) (parse_host a)
      else case (parse_host (after_last CHR ''@'' a), parse_userinfo (before_last CHR ''@'' a)) of
        (Some h, Some u) \<Rightarrow> Some (Some u, h)
      | _ \<Rightarrow> None)"

definition setPath :: "string \<Rightarrow> URL \<Rightarrow> URL option" where
  "setPath p u =
     map_option (\<lambda>path. u\<lparr>u_path := path, u_rawPath := (if p = escape encodePath path then [] else p)\<rparr>)
       (unescape encodePath p)"

definition setFragment :: "string \<Rightarrow> URL \<Rightarrow> URL option" where
  "setFragment f u =
     map_option (\<lambda>fr. u\<lparr>u_fragment := fr, u_rawFragment := (if f = escape encodeFragment fr then [] else f)\<rparr>)
       (unescape encodeFragment f)"

definition scheme_char :: "char \<Rightarrow> bool" where
  "scheme_char c \<longleftrightarrow> c \<in> set alnum \<or> c \<in> set ''+-.''"

text \<open>The scheme and the rest; \<open>None\<close> when the text starts with a colon.\<close>

definition getScheme :: "string \<Rightarrow> (string \<times> string) option" where
  "getScheme s =
     (let n = takeWhile scheme_char s; r = dropWhile scheme_char s
      in if n = [] then (if r \<noteq> [] \<and> hd r = CHR '':'' then None else Some ([], s))
         else if hd n \<in> set (dec_digits @ ''+-.'') then Some ([], s)
         else if r \<noteq> [] \<and> hd r = CHR '':'' then Some (n, tl r)
         else Some ([], s))"

definition is_ctl :: "char \<Rightarrow> bool" where
  "is_ctl c \<longleftrightarrow> (of_char c :: nat) < 0x20 \<or> (of_char c :: nat) = 0x7F"

definition split_query :: "string \<Rightarrow> string \<times> bool \<times> string" where
  "split_query s =
     (if s \<noteq> [] \<and> last s = CHR ''?'' \<and> CHR ''?'' \<notin> set (butlast s) then (butlast s, True, [])
      else (before CHR ''?'' s, False, after CHR ''?'' s))"

definition parse_hier :: "URL \<Rightarrow> string \<Rightarrow> URL option" where
  "parse_hier u rest =
     (if take 1 rest \<noteq> ''/'' \<and> u_scheme u \<noteq> [] then Some (u\<lparr>u_opaque := rest\<rparr>)
      else if take 1 rest \<noteq> ''/'' \<and> CHR '':'' \<in> set (before CHR ''/'' rest) then None
      else if (u_scheme u \<noteq> [] \<or> take 3 rest \<noteq> ''///'') \<and> take 2 rest = ''//'' then
        (let a = drop 2 rest in
         case parse_authority (before CHR ''/'' a) of
           None \<Rightarrow> None
         | Some (us, h) \<Rightarrow> setPath (dropWhile (\<lambda>c. c \<noteq> CHR ''/'') a) (u\<lparr>u_user := us, u_host := h\<rparr>))
      else setPath rest (u\<lparr>u_omitHost := (u_scheme u \<noteq> [] \<and> take 1 rest = ''/'')\<rparr>))"

definition parse_no_fragment :: "string \<Rightarrow> URL option" where
  "parse_no_fragment s =
     (if list_ex is_ctl s then None
      else if s = ''*'' then Some (zero_url\<lparr>u_path := ''*''\<rparr>)
      else case getScheme s of
        None \<Rightarrow> None
      | Some (sch, rest0) \<Rightarrow>
          (case split_query rest0 of
             (rest, fq, q) \<Rightarrow>
               parse_hier (zero_url\<lparr>u_scheme := map to_lower sch, u_forceQuery := fq, u_rawQuery := q\<rparr>) rest))"

definition url_parse :: "string \<Rightarrow> URL option" where
  "url_parse s =
     (case parse_no_fragment (before CHR ''#'' s) of
        None \<Rightarrow> None
      | Some u \<Rightarrow> if after CHR ''#'' s = [] then Some u else setFragment (after CHR ''#'' s) u)"

subsection \<open>Printing\<close>

definition EscapedPath :: "URL \<Rightarrow> string" where
  "EscapedPath u =
     (if u_rawPath u \<noteq> [] \<and> validEncoded encodePath (u_rawPath u)
         \<and> unescape encodePath (u_rawPath u) = Some (u_path u)
      then u_rawPath u
      else if u_path u = ''*'' then ''*''
      else escape encodePath (u_path u))"

definition EscapedFragment :: "URL \<Rightarrow> string" where
  "EscapedFragment u =
     (if u_rawFragment u \<noteq> [] \<and> validEncoded encodeFragment (u_rawFragment u)
         \<and> unescape encodeFragment (u_rawFragment u) = Some (u_fragment u)
      then u_rawFragment u
      else escape encodeFragment (u_fragment u))"

definition userinfo_string :: "(string \<times> string option) \<Rightarrow> string" where
  "userinfo_string u =
     escape encodeUserPassword (fst u)
     @ (case snd u of None \<Rightarrow> [] | Some p \<Rightarrow> '':'' @ escape encodeUserPassword p)"

text \<open>The authority with its slashes.\<close>

definition authority_string :: "URL \<Rightarrow> string" where
  "authority_string u =
     (if u_scheme u = [] \<and> u_host u = [] \<and> u_user u = None then []
      else if u_omitHost u \<and> u_host u = [] \<and> u_user u = None then []
      else (if u_host u \<noteq> [] \<or> u_path u \<noteq> [] \<or> u_user u \<noteq> None then ''//'' else [])
        @ (case u_user u of None \<Rightarrow> [] | Some ui \<Rightarrow> userinfo_string ui @ ''@'')
        @ escape encodeHost (u_host u))"

text \<open>
  \<^verbatim>\<open>URL.String\<close>. (A relative path whose first segment has a colon is printed with
  \<^verbatim>\<open>./\<close> in front.)
\<close>

definition url_request_part :: "URL \<Rightarrow> string" where
  "url_request_part u =
     (let front = (if u_scheme u \<noteq> [] then u_scheme u @ '':'' else []);
          body =
            (if u_opaque u \<noteq> [] then front @ u_opaque u
             else let pre = front @ authority_string u;
                      p = EscapedPath u;
                      pre' = (if p \<noteq> [] \<and> hd p \<noteq> CHR ''/'' \<and> u_host u \<noteq> [] then pre @ ''/'' else pre);
                      dot = (if pre' = [] \<and> CHR '':'' \<in> set (before CHR ''/'' p) then ''./'' else [])
                  in pre' @ dot @ p)
      in body @ (if u_forceQuery u \<or> u_rawQuery u \<noteq> [] then ''?'' @ u_rawQuery u else []))"

definition url_string :: "URL \<Rightarrow> string" where
  "url_string u =
     url_request_part u @ (if u_fragment u \<noteq> [] then ''#'' @ EscapedFragment u else [])"

text \<open>\<^verbatim>\<open>URL.Hostname\<close>: the host without its port and without the brackets of an IPv6 address.\<close>

definition hostname :: "URL \<Rightarrow> string" where
  "hostname u =
     (let h = u_host u;
          host = (if CHR '':'' \<in> set h \<and> validOptionalPort (CHR '':'' # after_last CHR '':'' h)
                  then before_last CHR '':'' h else h)
      in if host \<noteq> [] \<and> hd host = CHR ''['' \<and> last host = CHR '']'' \<and> 2 \<le> length host then butlast (tl host)
         else host)"

subsection \<open>Joining paths\<close>

text \<open>\<^verbatim>\<open>path.Clean\<close>, over the elements between the slashes; the stack is in reverse.\<close>

definition clean_step :: "bool \<Rightarrow> string \<Rightarrow> string list \<Rightarrow> string list" where
  "clean_step rooted e out =
     (if e = [] \<or> e = ''.'' then out
      else if e = ''..'' then
        (if out \<noteq> [] \<and> hd out \<noteq> ''..'' then tl out else if rooted then out else e # out)
      else e # out)"

definition path_clean :: "string \<Rightarrow> string" where
  "path_clean p =
     (let rooted = (take 1 p = ''/'');
          out = rev (fold (clean_step rooted) (split_on CHR ''/'' p) [])
      in if rooted then ''/'' @ slash_join out
         else if out = [] then ''.'' else slash_join out)"

definition path_join :: "string list \<Rightarrow> string" where
  "path_join es =
     (let ne = filter (\<lambda>e. e \<noteq> []) es in if ne = [] then [] else path_clean (slash_join ne))"

definition JoinPath :: "URL \<Rightarrow> string list \<Rightarrow> URL" where
  "JoinPath u es =
     (let e0 = EscapedPath u;
          p0 = (if take 1 e0 \<noteq> ''/'' then tl (path_join ((''/'' @ e0) # es)) else path_join (e0 # es));
          l = last (e0 # es);
          p = (if l \<noteq> [] \<and> last l = CHR ''/'' \<and> (p0 = [] \<or> last p0 \<noteq> CHR ''/'') then p0 @ ''/'' else p0)
      in case setPath p u of None \<Rightarrow> u | Some u' \<Rightarrow> u')"

subsection \<open>Cutting and escaping\<close>

lemma before_append: "c \<notin> set a \<Longrightarrow> before c (a @ c # b) = a"
  and after_append: "c \<notin> set a \<Longrightarrow> after c (a @ c # b) = b"
  and before_all: "c \<notin> set a \<Longrightarrow> before c a = a"
  and after_all: "c \<notin> set a \<Longrightarrow> after c a = []"
  unfolding before_def after_def by (induction a) auto

lemmas cut_simps = before_append after_append before_all after_all

lemma unhex_digit: "n < 16 \<Longrightarrow> unhex (''0123456789ABCDEF'' ! n) = Some n"
proof -
  have "list_all (\<lambda>n. unhex (''0123456789ABCDEF'' ! n) = Some n) [0..<16]" by code_simp
  then show "n < 16 \<Longrightarrow> ?thesis" by (simp add: list_all_iff)
qed

lemma of_char_less: "(of_char c :: nat) < 256"
  by (metis of_char_mod_256 mod_less_divisor zero_less_numeral)

lemma unescape_pct: "pct_allowed m c \<Longrightarrow> unescape m (pct c @ s) = map_option ((#) c) (unescape m s)"
  using of_char_less [of c]
  by (simp add: pct_def Let_def unhex_digit less_mult_imp_div_less)


lemma escaped_chars:
  "shouldEscape m CHR ''%''" "shouldEscape m CHR ''#''"
  "m \<noteq> encodeFragment \<Longrightarrow> shouldEscape m CHR ''?''"
  "m \<noteq> encodeFragment \<Longrightarrow> m \<noteq> encodePath \<Longrightarrow> shouldEscape m CHR ''/''"
  "m \<noteq> encodeFragment \<Longrightarrow> m \<noteq> encodePath \<Longrightarrow> shouldEscape m CHR ''@''"
  by (cases m; simp add: shouldEscape_def alnum_def lower_letters_def upper_letters_def dec_digits_def)+

lemma alnum_safe: "c \<in> set alnum \<Longrightarrow> \<not> shouldEscape m c"
  by (simp only: shouldEscape_def if_True simp_thms)

lemma unreserved_safe: "c \<in> set ''-_.~'' \<Longrightarrow> \<not> shouldEscape m c"
  by (cases m) (auto simp: shouldEscape_def)

lemma printable: "list_all (\<lambda>c. \<not> is_ctl c) (alnum @ CHR 0x27 # ''!$&()*+,;=:[]<>\"-_.~/?@%'')"
  by code_simp

lemma safe_printable: "\<not> shouldEscape m c \<Longrightarrow> \<not> is_ctl c"
  using printable by (cases "c \<in> set alnum") (auto simp: shouldEscape_def list_all_iff split: if_splits encoding.splits)


lemma escape_append [simp]: "escape m (s @ t) = escape m s @ escape m t"
  by (simp add: escape_def)

lemma escape_Nil [simp]: "escape m [] = []" "escape m s = [] \<longleftrightarrow> s = []"
proof -
  have "pct c \<noteq> []" for c by (simp add: pct_def Let_def)
  then show "escape m [] = []" "escape m s = [] \<longleftrightarrow> s = []" by (cases s; simp add: escape_def)+
qed

lemma escape_safe: "list_all (\<lambda>c. \<not> shouldEscape m c) s \<Longrightarrow> escape m s = s"
  unfolding escape_def by (induction s) simp_all

lemma escape_slash: "escape encodePath (CHR ''/'' # s) = CHR ''/'' # escape encodePath s"
  by (simp add: escape_def shouldEscape_def alnum_def lower_letters_def upper_letters_def dec_digits_def)

text \<open>No escaped text has a number sign, and none of the modes before the path has a delimiter.\<close>

lemma pct_chars: "set (pct c) \<subseteq> set (CHR ''%'' # ''0123456789ABCDEF'')"
  using of_char_less [of c] nth_mem [of "(of_char c :: nat) div 16" "''0123456789ABCDEF''"]
    nth_mem [of "(of_char c :: nat) mod 16" "''0123456789ABCDEF''"]
  by (simp add: pct_def Let_def less_mult_imp_div_less)

lemma escape_avoids:
  "shouldEscape m d \<Longrightarrow> d \<notin> set (CHR ''%'' # ''0123456789ABCDEF'') \<Longrightarrow> d \<notin> set (escape m s)"
  using pct_chars by (fastforce simp: escape_def)

lemma escape_printable: "list_ex is_ctl (escape m s) = False"
proof -
  have "list_all (\<lambda>c. \<not> is_ctl c) (CHR ''%'' # ''0123456789ABCDEF'')" by code_simp
  then have "x \<in> set (pct c) \<Longrightarrow> \<not> is_ctl x" for x c using pct_chars [of c] by (auto simp: list_all_iff)
  then show ?thesis by (auto simp: escape_def list_ex_iff safe_printable split: if_splits)
qed

lemma unescape_raw: "\<not> shouldEscape m c \<Longrightarrow> unescape m (c # s) = map_option ((#) c) (unescape m s)"
  using escaped_chars(1) [of m] by (cases "c = CHR ''%''") (auto simp: raw_allowed_def)

lemma unescape_escape:
  "list_all (\<lambda>c. shouldEscape m c \<longrightarrow> pct_allowed m c) s \<Longrightarrow> unescape m (escape m s) = Some s"
proof (induction s)
  case (Cons c s)
  then have "unescape m (escape m s) = Some s" by simp
  with Cons.prems show ?case
    using unescape_pct [of m c "escape m s"] unescape_raw [of m c "escape m s"]
    by (simp add: escape_def)
qed (simp add: escape_def)

lemma unescape_escape_path: "unescape encodePath (escape encodePath s) = Some s"
  and unescape_escape_fragment: "unescape encodeFragment (escape encodeFragment s) = Some s"
  by (simp_all add: unescape_escape pct_allowed_def list_all_iff)

lemma setPath_escape: "setPath (escape encodePath p) u = Some (u\<lparr>u_path := p, u_rawPath := []\<rparr>)"
  by (simp add: setPath_def unescape_escape_path)

lemma setFragment_escape: "setFragment (escape encodeFragment f) u = Some (u\<lparr>u_fragment := f, u_rawFragment := []\<rparr>)"
  by (simp add: setFragment_def unescape_escape_fragment)

subsection \<open>A printed URL parses back\<close>

text \<open>A host that is printed as it is, and parsed as it is: a name or an address, with or without a port.\<close>

definition plain_host :: "string \<Rightarrow> bool" where
  "plain_host h \<longleftrightarrow> h \<noteq> [] \<and> list_all (\<lambda>c. \<not> shouldEscape encodeHost c) h \<and> parse_host h = Some h"

lemma plain_host_chars: "plain_host h \<Longrightarrow> c \<in> set ''#?/@'' \<Longrightarrow> c \<notin> set h"
  using escaped_chars [of encodeHost] by (auto simp: plain_host_def list_all_iff)

definition plain_url :: "URL \<Rightarrow> bool" where
  "plain_url u \<longleftrightarrow> u_scheme u \<in> {''http'', ''https''} \<and> u_opaque u = [] \<and> u_user u = None
     \<and> plain_host (u_host u) \<and> u_rawPath u = [] \<and> \<not> u_omitHost u \<and> \<not> u_forceQuery u
     \<and> \<not> list_ex is_ctl (u_rawQuery u) \<and> CHR ''#'' \<notin> set (u_rawQuery u) \<and> u_rawFragment u = []"

lemma scheme_all: "list_all (\<lambda>s. list_all scheme_char s \<and> list_all (\<lambda>c. c \<in> set lower_letters) s \<and> s \<noteq> []
   \<and> \<not> list_ex is_ctl s \<and> CHR ''#'' \<notin> set s \<and> hd s \<notin> set (dec_digits @ ''+-.'') \<and> map to_lower s = s
   \<and> \<not> scheme_char CHR '':'') [''http'', ''https'']"
  by code_simp

lemma scheme_chars:
  assumes "s \<in> {''http'', ''https''}"
  shows "getScheme (s @ '':'' @ r) = Some (s, r)" "map to_lower s = s"
    "\<not> list_ex is_ctl s" "CHR ''#'' \<notin> set s" "s \<noteq> []"
proof -
  have a: "list_all scheme_char s" "s \<noteq> []" "\<not> list_ex is_ctl s" "CHR ''#'' \<notin> set s"
      "hd s \<notin> set (dec_digits @ ''+-.'')" "map to_lower s = s" "\<not> scheme_char CHR '':''"
    using scheme_all assms by auto
  have "takeWhile scheme_char (s @ '':'' @ r) = s" "dropWhile scheme_char (s @ '':'' @ r) = '':'' @ r"
    using a(1,7) by (simp_all add: takeWhile_append dropWhile_append list_all_iff)
  with a show "getScheme (s @ '':'' @ r) = Some (s, r)" by (simp add: getScheme_def Let_def)
  from a show "map to_lower s = s" "\<not> list_ex is_ctl s" "CHR ''#'' \<notin> set s" "s \<noteq> []" by simp_all
qed

lemma split_query_path:
  assumes "CHR ''?'' \<notin> set p"
  shows "split_query (p @ (if q \<noteq> [] then ''?'' @ q else [])) = (p, False, q)"
proof (cases "q = []")
  case True
  with assms show ?thesis by (cases p rule: rev_cases) (auto simp: split_query_def cut_simps)
next
  case False
  then show ?thesis using assms cut_simps(1) [of "CHR ''?''" p q] cut_simps(2) [of "CHR ''?''" p q]
    by (auto simp: split_query_def butlast_append)
qed

lemma url_request_parse:
  assumes "plain_url u" "take 1 (u_path u) = ''/''"
  shows "parse_no_fragment (url_request_part u) = Some (u\<lparr>u_fragment := []\<rparr>)"
    and "CHR ''#'' \<notin> set (url_request_part u)"
proof -
  let ?q = "if u_rawQuery u \<noteq> [] then ''?'' @ u_rawQuery u else []"
  let ?p = "escape encodePath (u_path u)"
  let ?rest = "''//'' @ u_host u @ ?p"
  obtain p where p: "u_path u = CHR ''/'' # p" using assms(2) by (cases "u_path u") auto
  then have ep: "?p = CHR ''/'' # escape encodePath p" by (simp add: escape_slash)
  have h: "escape encodeHost (u_host u) = u_host u" using assms(1) by (simp add: plain_url_def plain_host_def escape_safe)
  have r: "url_request_part u = u_scheme u @ '':'' @ (?rest @ ?q)"
    using assms(1) p h ep scheme_chars(3-5) [of "u_scheme u"]
    by (simp add: url_request_part_def plain_url_def authority_string_def EscapedPath_def Let_def)
  show nohash: "CHR ''#'' \<notin> set (url_request_part u)"
    unfolding r using assms(1) scheme_chars(3-5) [of "u_scheme u"] plain_host_chars [of "u_host u" "CHR ''#''"]
      escape_avoids [of encodePath "CHR ''#''"] escaped_chars(2) [of encodePath]
    by (simp add: plain_url_def)
  have noctl: "\<not> list_ex is_ctl (url_request_part u)"
    unfolding r using assms(1) scheme_chars(3-5) [of "u_scheme u"] escape_printable [of encodePath "u_path u"] safe_printable [of encodeHost]
    by (auto simp: plain_url_def plain_host_def list_ex_iff list_all_iff is_ctl_def split: if_splits)
  have noq: "CHR ''?'' \<notin> set ?rest"
    using assms(1) plain_host_chars [of "u_host u" "CHR ''?''"] escape_avoids [of encodePath "CHR ''?''"] escaped_chars(3) [of encodePath]
    by (simp add: plain_url_def)
  have sq: "split_query (?rest @ ?q) = (?rest, False, u_rawQuery u)" by (rule split_query_path [OF noq])
  have ph: "parse_host (u_host u) = Some (u_host u)" "CHR ''@'' \<notin> set (u_host u)" "CHR ''/'' \<notin> set (u_host u)"
    using assms(1) plain_host_chars [of "u_host u"] by (simp_all add: plain_url_def plain_host_def)
  have d: "dropWhile (\<lambda>c. c \<noteq> CHR ''/'') (u_host u @ ?p) = ?p" "before CHR ''/'' (u_host u @ ?p) = u_host u"
    using ph(3) unfolding ep by (simp_all add: before_def dropWhile_append takeWhile_append)
  show "parse_no_fragment (url_request_part u) = Some (u\<lparr>u_fragment := []\<rparr>)"
    using assms(1) noctl scheme_chars [of "u_scheme u"] sq ph d setPath_escape
    unfolding r
    by (auto simp: parse_no_fragment_def parse_hier_def plain_url_def parse_authority_def zero_url_def Let_def)
qed

lemma url_parse_string:
  assumes "plain_url u" "take 1 (u_path u) = ''/''"
  shows "url_parse (url_string u) = Some u"
proof (cases "u_fragment u = []")
  case True
  with url_request_parse [OF assms] assms(1) show ?thesis
    by (simp add: url_parse_def url_string_def cut_simps plain_url_def)
next
  case False
  have s: "url_string u = url_request_part u @ CHR ''#'' # escape encodeFragment (u_fragment u)"
    using False assms(1) by (simp add: url_string_def EscapedFragment_def plain_url_def)
  have "u\<lparr>u_fragment := u_fragment u, u_rawFragment := []\<rparr> = u" using assms(1) by (simp add: plain_url_def)
  with False url_request_parse [OF assms] show ?thesis
    unfolding s url_parse_def by (simp add: cut_simps setFragment_escape)
qed

subsection \<open>What is before the number sign\<close>

definition no_hash :: "URL \<Rightarrow> bool" where
  "no_hash u \<longleftrightarrow> CHR ''#'' \<notin> set (u_scheme u) \<and> CHR ''#'' \<notin> set (u_opaque u) \<and> CHR ''#'' \<notin> set (u_rawQuery u)"

lemma hash_escape: "CHR ''#'' \<notin> set (escape m s)"
  using escape_avoids [of m "CHR ''#''"] escaped_chars(2) by simp

lemma hash_raw: "validEncoded m s \<Longrightarrow> CHR ''#'' \<notin> set s"
  unfolding validEncoded_def list_all_iff using escaped_chars(2) [of m] by fastforce

lemma hash_EscapedPath: "CHR ''#'' \<notin> set (EscapedPath u)"
  using hash_escape [of encodePath] hash_raw [of encodePath "u_rawPath u"] by (simp add: EscapedPath_def)

lemma request_part_no_hash:
  assumes "no_hash u"
  shows "CHR ''#'' \<notin> set (url_request_part u)"
proof -
  have "CHR ''#'' \<notin> set (userinfo_string ui)" for ui
    by (cases "snd ui") (simp_all add: userinfo_string_def hash_escape)
  then have "CHR ''#'' \<notin> set (authority_string u)"
    by (cases "u_user u") (simp_all add: authority_string_def hash_escape)
  moreover define pre where "pre = (if u_scheme u \<noteq> [] then u_scheme u @ '':'' else []) @ authority_string u"
  moreover define q where "q = (if u_forceQuery u \<or> u_rawQuery u \<noteq> [] then ''?'' @ u_rawQuery u else [])"
  ultimately have h: "CHR ''#'' \<notin> set pre" "CHR ''#'' \<notin> set q" "CHR ''#'' \<notin> set (EscapedPath u)"
    "CHR ''#'' \<notin> set (u_scheme u)" "CHR ''#'' \<notin> set (u_opaque u)"
    using assms hash_EscapedPath [of u] by (simp_all add: no_hash_def)
  show ?thesis
  proof (cases "u_opaque u = []")
    case True
    define x where "x = (if EscapedPath u \<noteq> [] \<and> hd (EscapedPath u) \<noteq> CHR ''/'' \<and> u_host u \<noteq> [] then ''/'' else [])"
    define y where "y = (if pre @ x = [] \<and> CHR '':'' \<in> set (before CHR ''/'' (EscapedPath u)) then ''./'' else [])"
    have "url_request_part u = pre @ x @ y @ EscapedPath u @ q"
      using True unfolding url_request_part_def Let_def pre_def [symmetric] q_def [symmetric]
      by (simp add: x_def y_def)
    moreover have "CHR ''#'' \<notin> set x" "CHR ''#'' \<notin> set y" by (simp_all add: x_def y_def)
    ultimately show ?thesis using h by simp
  next
    case False
    then have "url_request_part u = (if u_scheme u \<noteq> [] then u_scheme u @ '':'' else []) @ u_opaque u @ q"
      unfolding url_request_part_def Let_def q_def by simp
    with h show ?thesis by simp
  qed
qed

lemma set_before: "set (before c s) \<subseteq> set s - {c}"
  unfolding before_def by (induction s) auto

lemma set_after: "set (after c s) \<subseteq> set s"
  unfolding after_def by (metis list.set_sel(2) set_dropWhileD subsetI tl_Nil)

lemma no_hash_setPath: "setPath p u = Some v \<Longrightarrow> no_hash v = no_hash u"
  by (auto simp: setPath_def no_hash_def)

lemma no_hash_hier:
  "parse_hier u rest = Some v \<Longrightarrow> no_hash u \<Longrightarrow> CHR ''#'' \<notin> set rest \<Longrightarrow> no_hash v"
  unfolding parse_hier_def Let_def
  by (auto split: if_splits option.splits dest!: no_hash_setPath) (simp_all add: no_hash_def)

lemma scheme_lower: "scheme_char c \<Longrightarrow> to_lower c \<noteq> CHR ''#''"
proof -
  have "list_all (\<lambda>c. to_lower c \<noteq> CHR ''#'') (alnum @ ''+-.'')" by code_simp
  then show "scheme_char c \<Longrightarrow> to_lower c \<noteq> CHR ''#''" by (auto simp: scheme_char_def list_all_iff)
qed

lemma no_hash_parse: "url_parse s = Some u \<Longrightarrow> no_hash u"
proof -
  assume "url_parse s = Some u"
  then obtain v where v: "parse_no_fragment (before CHR ''#'' s) = Some v" "no_hash u = no_hash v"
    by (auto simp: url_parse_def setFragment_def no_hash_def split: option.splits if_splits)
  let ?b = "before CHR ''#'' s"
  have b: "CHR ''#'' \<notin> set ?b" using set_before by auto
  show "no_hash u"
  proof (cases "?b = ''*''")
    case True
    with v show ?thesis by (auto simp: parse_no_fragment_def zero_url_def no_hash_def split: if_splits)
  next
    case False
    with v(1) obtain sch rest0 rest fq q where g: "getScheme ?b = Some (sch, rest0)"
      "split_query rest0 = (rest, fq, q)"
      "parse_hier (zero_url\<lparr>u_scheme := map to_lower sch, u_forceQuery := fq, u_rawQuery := q\<rparr>) rest = Some v"
      by (auto simp: parse_no_fragment_def split: if_splits option.splits prod.splits)
    have "set rest0 \<subseteq> set ?b"
      using g(1) by (auto simp: getScheme_def Let_def split: if_splits dest: set_dropWhileD list.set_sel(2) [rotated])
    then have "set rest \<subseteq> set ?b" "set q \<subseteq> set ?b"
      using g(2) set_before [of "CHR ''?''" rest0] set_after [of "CHR ''?''" rest0]
      by (auto simp: split_query_def split: if_splits dest: in_set_butlastD)
    moreover have "CHR ''#'' \<notin> set (map to_lower sch)"
      using g(1) scheme_lower by (fastforce simp: getScheme_def Let_def split: if_splits dest: set_takeWhileD)
    ultimately have "no_hash v" using no_hash_hier [OF g(3)] b by (auto simp: no_hash_def zero_url_def)
    with v(2) show ?thesis by simp
  qed
qed

end
