(* ===== verification/RelayClient.thy ===== *)
theory RelayClient
  imports Url Json Duration Encoding
begin

text \<open>
  \<^verbatim>\<open>src/runner/internal/relayclient/client.go\<close>: the client of the relay's control plane. It
  makes three addresses from one base: the REST address of the create request, the WebSocket
  address, and the link a viewer opens. The relay itself is outside: what it answers to an HTTP
  request or a WebSocket handshake is a function of the request.
\<close>

record Client =
  base :: URL

subsection \<open>The relay's address\<close>

datatype url_error = UrlParse | NeedsScheme | WrongScheme string | MissingHost | PlainHttp

definition isLoopbackHost :: "string \<Rightarrow> bool" where
  "isLoopbackHost host =
     (if host = ''localhost'' then True
      else case parse_ip host of Some ip \<Rightarrow> is_loopback ip | None \<Rightarrow> False)"

text \<open>\<^verbatim>\<open>New\<close>.\<close>

definition NewClient :: "string \<Rightarrow> bool \<Rightarrow> url_error + Client" where
  "NewClient base_url allowInsecure =
     (case url_parse base_url of
        None \<Rightarrow> Inl UrlParse
      | Some u \<Rightarrow>
          if u_scheme u \<noteq> ''http'' \<and> u_scheme u \<noteq> ''https'' then
            (if u_scheme u = [] \<or> u_opaque u \<noteq> [] then Inl NeedsScheme else Inl (WrongScheme (u_scheme u)))
          else if u_host u = [] then Inl MissingHost
          else if u_scheme u = ''http'' \<and> \<not> allowInsecure \<and> \<not> isLoopbackHost (hostname u)
            then Inl PlainHttp
          else Inr \<lparr>base = u\<rparr>)"

subsection \<open>Creating a session\<close>

record RelaySession =
  ID :: string
  RunnerToken :: string
  ExpiresAt :: int

record CreateSessionOptions =
  MultiViewer :: bool

text \<open>\<^verbatim>\<open>json.Marshal\<close> of the request map: keys in order, \<^verbatim>\<open>multi_viewer\<close> only when set.\<close>

definition create_body :: "string \<Rightarrow> string \<Rightarrow> int \<Rightarrow> CreateSessionOptions \<Rightarrow> bytes" where
  "create_body sid tok ttl opts =
     marshal_raw
       ([(''id'', marshal_string sid)]
        @ (if MultiViewer opts then [(''multi_viewer'', ''true'')] else [])
        @ [(''runner_token'', marshal_string tok), (''ttl_seconds'', show_int (seconds_int ttl))])"

text \<open>
  An HTTP request as the relay sees it, and the answer: a transport error, or a status code with
  its status line and a body. A request whose address does not parse is never sent.
\<close>

record http_request =
  rq_method :: string
  rq_url :: string
  rq_headers :: "(string \<times> string) list"
  rq_body :: bytes

datatype http_result = HttpErr string | HttpResp int string bytes

datatype create_error =
    CreateBadURL
  | CreateFailed string
  | CreateStatus string bytes
  | CreateDecode
  | CreateEmpty

definition create_request :: "Client \<Rightarrow> string \<Rightarrow> string \<Rightarrow> int \<Rightarrow> CreateSessionOptions \<Rightarrow> http_request" where
  "create_request c sid tok ttl opts =
     \<lparr>rq_method = ''POST'', rq_url = url_string (JoinPath (base c) [''api'', ''sessions'']),
      rq_headers = [(''Content-Type'', ''application/json'')], rq_body = create_body sid tok ttl opts\<rparr>"

definition assign_session :: "(string \<times> json) \<Rightarrow> RelaySession option \<Rightarrow> RelaySession option" where
  "assign_session kv acc =
     (case (acc, kv) of
        (None, _) \<Rightarrow> None
      | (Some s, (k, v)) \<Rightarrow>
          if field_matches ''id'' k then
            (case v of JStr x \<Rightarrow> Some (s\<lparr>ID := x\<rparr>) | JNull \<Rightarrow> Some s | _ \<Rightarrow> None)
          else if field_matches ''runner_token'' k then
            (case v of JStr x \<Rightarrow> Some (s\<lparr>RunnerToken := x\<rparr>) | JNull \<Rightarrow> Some s | _ \<Rightarrow> None)
          else if field_matches ''expires_at'' k then
            (case v of
               JNum x \<Rightarrow> map_option (\<lambda>i. s\<lparr>ExpiresAt := i\<rparr>) (parse_int64 x)
             | JNull \<Rightarrow> Some s
             | _ \<Rightarrow> None)
          else Some s)"

text \<open>\<^verbatim>\<open>json.NewDecoder(body).Decode\<close>: the first JSON value of the body.\<close>

definition decode_session :: "bytes \<Rightarrow> RelaySession option" where
  "decode_session body =
     (let zero = \<lparr>ID = [], RunnerToken = [], ExpiresAt = 0\<rparr> in
      case parse_first body of
        None \<Rightarrow> None
      | Some JNull \<Rightarrow> Some zero
      | Some (JObj ms) \<Rightarrow> fold assign_session ms (Some zero)
      | Some _ \<Rightarrow> None)"

definition CreateSessionWithOptions ::
  "Client \<Rightarrow> (http_request \<Rightarrow> http_result) \<Rightarrow> string \<Rightarrow> string \<Rightarrow> int \<Rightarrow> CreateSessionOptions
   \<Rightarrow> create_error + RelaySession" where
  "CreateSessionWithOptions c do_http sid tok ttl opts =
     (let rq = create_request c sid tok ttl opts in
      if url_parse (rq_url rq) = None then Inl CreateBadURL
      else case do_http rq of
        HttpErr e \<Rightarrow> Inl (CreateFailed e)
      | HttpResp code status body \<Rightarrow>
          if code \<noteq> 201 \<and> code \<noteq> 200 then Inl (CreateStatus status (take 256 body))
          else
            (case decode_session body of
               None \<Rightarrow> Inl CreateDecode
             | Some s \<Rightarrow>
                 if ID s = [] \<or> RunnerToken s = [] then Inl CreateEmpty else Inr s))"

definition CreateSession ::
  "Client \<Rightarrow> (http_request \<Rightarrow> http_result) \<Rightarrow> string \<Rightarrow> string \<Rightarrow> int \<Rightarrow> create_error + RelaySession" where
  "CreateSession c do_http sid tok ttl = CreateSessionWithOptions c do_http sid tok ttl \<lparr>MultiViewer = False\<rparr>"

subsection \<open>The viewer's link\<close>

definition ViewerURL :: "Client \<Rightarrow> string \<Rightarrow> string \<Rightarrow> bool \<Rightarrow> string" where
  "ViewerURL c sid secretB64 passphrase =
     (let u = (base c)\<lparr>u_path := ''/s/'' @ sid\<rparr>;
          secret' = (if passphrase then secretB64 @ ''.p'' else secretB64)
      in url_string (u\<lparr>u_fragment := secret'\<rparr>))"

subsection \<open>Dialling\<close>

record FatalDialError =
  Status :: int

definition FatalDialError_Error :: "FatalDialError \<Rightarrow> string" where
  "FatalDialError_Error e =
     (if Status e = 401 then ''relay rejected the runner token (401)''
      else if Status e = 404 then ''relay says the session is unknown or expired (404)''
      else ''relay rejected the connection ('' @ show_int (Status e) @ '')'')"

definition NotFound :: "FatalDialError \<Rightarrow> bool" where
  "NotFound e \<longleftrightarrow> Status e = 404"

text \<open>
  What the WebSocket library's \<^verbatim>\<open>Dial\<close> answers: a connection, or an error with the status of
  the handshake response if there was one. The request is its address and the header the runner
  adds.
\<close>

datatype ws_dial = WsConn | WsError "int option"

datatype dial_error = DialFatal FatalDialError | DialTransient

record ws_request =
  ws_url :: string
  ws_headers :: "(string \<times> string) list"

definition dial_request :: "Client \<Rightarrow> string \<Rightarrow> string \<Rightarrow> ws_request" where
  "dial_request c sid token =
     (let u = base c;
          u1 = (if u_scheme u = ''https'' then u\<lparr>u_scheme := ''wss''\<rparr> else u\<lparr>u_scheme := ''ws''\<rparr>);
          u2 = u1\<lparr>u_path := ''/ws/runner/'' @ sid\<rparr>
      in \<lparr>ws_url = url_string u2, ws_headers = [(''Authorization'', ''Bearer '' @ token)]\<rparr>)"

definition DialRunner :: "Client \<Rightarrow> (ws_request \<Rightarrow> ws_dial) \<Rightarrow> string \<Rightarrow> string \<Rightarrow> dial_error + unit" where
  "DialRunner c dial sid token =
     (case dial (dial_request c sid token) of
        WsConn \<Rightarrow> Inr ()
      | WsError resp \<Rightarrow>
          (case resp of
             Some status \<Rightarrow>
               if status = 401 \<or> status = 404 then Inl (DialFatal \<lparr>Status = status\<rparr>) else Inl DialTransient
           | None \<Rightarrow> Inl DialTransient))"

subsection \<open>What the addresses give away\<close>

lemma base64url_safe: "c \<in> set base64url_alphabet \<Longrightarrow> \<not> shouldEscape m c"
proof -
  have "list_all (\<lambda>c. c \<in> set alnum \<or> c \<in> set ''-_.~'') base64url_alphabet" by code_simp
  then have "c \<in> set base64url_alphabet \<Longrightarrow> c \<in> set alnum \<or> c \<in> set ''-_.~''" by (auto simp: list_all_iff)
  then show "c \<in> set base64url_alphabet \<Longrightarrow> \<not> shouldEscape m c" using alnum_safe unreserved_safe by blast
qed

lemma dot_p_safe: "\<not> shouldEscape m CHR ''.''" "\<not> shouldEscape m CHR ''p''"
  by (simp_all add: shouldEscape_def alnum_def lower_letters_def)

lemma escape_secret:
  "set s \<subseteq> set base64url_alphabet \<Longrightarrow> escape m (s @ (if p then ''.p'' else [])) = s @ (if p then ''.p'' else [])"
  by (rule escape_safe) (use base64url_safe dot_p_safe in \<open>auto simp: list_all_iff\<close>)

lemma NewClient_ok:
  "NewClient s ins = Inr c \<longleftrightarrow>
     url_parse s = Some (base c) \<and> u_scheme (base c) \<in> {''http'', ''https''} \<and> u_host (base c) \<noteq> []
     \<and> (u_scheme (base c) = ''http'' \<longrightarrow> ins \<or> isLoopbackHost (hostname (base c)))"
  by (cases c) (auto simp: NewClient_def split: option.split)

lemma rawFragment_parse: "url_parse s = Some u \<Longrightarrow> CHR ''#'' \<notin> set s \<Longrightarrow> u_rawFragment u = []"
  by (auto simp: url_parse_def cut_simps parse_no_fragment_def parse_hier_def setPath_def zero_url_def Let_def
      split: option.splits if_splits prod.splits)

text \<open>
  C11: The secret travels in the fragment only. For a relay address without a fragment, the link is
  a part that does not depend on the secret and has no number sign in it - all that a browser sends
  to the relay - then a number sign, the secret as it is, and the passphrase mark. This holds for
  every address \<^verbatim>\<open>New\<close> accepts, whatever its user, port, path or query.
\<close>

theorem link_secret_in_fragment:
  assumes "NewClient s ins = Inr c" "CHR ''#'' \<notin> set s"
  shows "\<exists>req. CHR ''#'' \<notin> set req \<and>
    (\<forall>secret. set secret \<subseteq> set base64url_alphabet \<and> secret \<noteq> [] \<longrightarrow>
       ViewerURL c sid secret p = req @ ''#'' @ secret @ (if p then ''.p'' else []))"
proof (intro exI conjI allI impI)
  let ?u = "(base c)\<lparr>u_path := ''/s/'' @ sid\<rparr>"
  have u: "url_parse s = Some (base c)" using assms(1) by (simp add: NewClient_ok)
  from no_hash_parse [OF u] show "CHR ''#'' \<notin> set (url_request_part ?u)"
    by (intro request_part_no_hash) (simp add: no_hash_def)
  fix secret assume "set secret \<subseteq> set base64url_alphabet \<and> secret \<noteq> []"
  moreover have "url_request_part (?u\<lparr>u_fragment := f\<rparr>) = url_request_part ?u" for f
    by (simp add: url_request_part_def authority_string_def EscapedPath_def Let_def)
  ultimately show "ViewerURL c sid secret p = url_request_part ?u @ ''#'' @ secret @ (if p then ''.p'' else [])"
    using escape_secret [of secret encodeFragment p] rawFragment_parse [OF u assms(2)]
    by (simp add: ViewerURL_def url_string_def EscapedFragment_def Let_def split: if_splits)
qed

definition ex_relay :: Client where
  "ex_relay = \<lparr>base = zero_url\<lparr>u_scheme := ''https'', u_host := ''onlytty.com''\<rparr>\<rparr>"

lemma ex_relay_new: "NewClient ''https://onlytty.com'' False = Inr ex_relay"
  by code_simp

theorem link_secret_in_fragment_witness:
  "\<exists>req. CHR ''#'' \<notin> set req \<and> ViewerURL ex_relay ''id'' ''AbC_9'' True = req @ ''#'' @ ''AbC_9.p''"
proof -
  have "set ''AbC_9'' \<subseteq> set base64url_alphabet" by (simp add: base64url_alphabet_def)
  with link_secret_in_fragment [OF ex_relay_new, of "''id''" True] show ?thesis by fastforce
qed

text \<open>
  The link opens the session. For a relay address with a plain host, parsing the link gives the
  relay's scheme and host, the path of exactly this session, and the secret with the passphrase
  mark as the fragment, for any id and any secret.
\<close>

theorem link_opens_session:
  assumes "plain_url (base c)"
  shows "url_parse (ViewerURL c sid secret p) =
    Some ((base c)\<lparr>u_path := ''/s/'' @ sid, u_fragment := secret @ (if p then ''.p'' else [])\<rparr>)"
  using url_parse_string [of "(base c)\<lparr>u_path := ''/s/'' @ sid, u_fragment := secret @ (if p then ''.p'' else [])\<rparr>"] assms
  by (cases p) (simp_all add: ViewerURL_def plain_url_def Let_def)

lemma plain_ex_relay: "plain_url (base ex_relay)"
  by code_simp

theorem link_opens_session_witness:
  "map_option (\<lambda>u. (u_path u, u_fragment u)) (url_parse (ViewerURL ex_relay ''id'' ''abc'' True))
   = Some (''/s/id'', ''abc.p'')"
  by (subst link_opens_session [OF plain_ex_relay]) simp

subsection \<open>The addresses of the requests\<close>

lemma split_on_segments:
  "list_all (\<lambda>s. CHR ''/'' \<notin> set s) segs \<Longrightarrow> CHR ''/'' \<notin> set x \<Longrightarrow>
   split_on CHR ''/'' (x @ concat (map ((#) CHR ''/'') segs)) = x # segs"
proof (induction segs arbitrary: x)
  case Nil
  have "CHR ''/'' \<notin> set x \<Longrightarrow> split_on CHR ''/'' x = [x]" for x by (induction x) auto
  with Nil show ?case by simp
next
  case (Cons s segs)
  have "CHR ''/'' \<notin> set x \<Longrightarrow> split_on CHR ''/'' (x @ CHR ''/'' # y) = x # split_on CHR ''/'' y" for x y
    by (induction x) auto
  with Cons show ?case by simp
qed

text \<open>A path without empty, dot or dot-dot elements.\<close>

definition clean_segments :: "string list \<Rightarrow> bool" where
  "clean_segments segs \<longleftrightarrow> list_all (\<lambda>s. CHR ''/'' \<notin> set s \<and> s \<noteq> [] \<and> s \<noteq> ''.'' \<and> s \<noteq> ''..'') segs"

definition path_of :: "string list \<Rightarrow> string" where
  "path_of segs = concat (map ((#) CHR ''/'') segs)"

lemma fold_clean: "clean_segments segs \<Longrightarrow> fold (clean_step True) segs out = rev segs @ out"
  unfolding clean_segments_def by (induction segs arbitrary: out) (auto simp: clean_step_def)

lemma slash_join_path: "segs \<noteq> [] \<Longrightarrow> CHR ''/'' # slash_join segs = path_of segs"
  unfolding path_of_def by (induction segs rule: slash_join.induct) auto

lemma path_clean_path: "clean_segments segs \<Longrightarrow> segs \<noteq> [] \<Longrightarrow> path_clean (path_of segs) = path_of segs"
proof -
  assume a: "clean_segments segs" "segs \<noteq> []"
  have "split_on CHR ''/'' (path_of segs) = [] # segs"
    using split_on_segments [of segs "[]"] a(1) by (simp add: path_of_def clean_segments_def list_all_iff)
  moreover have "take 1 (path_of segs) = ''/''" using a(2) by (cases segs) (simp_all add: path_of_def)
  ultimately show "path_clean (path_of segs) = path_of segs"
    using fold_clean [OF a(1)] slash_join_path [OF a(2)] by (simp add: path_clean_def Let_def clean_step_def)
qed


lemma escape_path_of: "escape encodePath (path_of segs) = path_of (map (escape encodePath) segs)"
  unfolding path_of_def by (induction segs) (simp_all add: escape_slash)

lemma escape_plain: "CHR ''%'' \<notin> set (escape m s) \<Longrightarrow> escape m s = s"
  by (rule escape_safe) (auto simp: escape_def list_all_iff pct_def Let_def split: if_splits)

lemma clean_escape:
  assumes "clean_segments segs"
  shows "clean_segments (map (escape encodePath) segs)"
proof -
  have s: "CHR ''/'' \<notin> set (escape encodePath s)" if "CHR ''/'' \<notin> set s" for s
    using that pct_chars by (fastforce simp: escape_def split: if_splits)
  have "escape encodePath s \<noteq> ''.'' \<and> escape encodePath s \<noteq> ''..''" if "s \<noteq> ''.''" "s \<noteq> ''..''" for s
    using escape_plain [of encodePath s] that by auto
  with s assms show ?thesis by (auto simp: clean_segments_def list_all_iff)
qed

lemma path_of_Cons: "segs \<noteq> [] \<Longrightarrow> take 1 (path_of segs) = ''/'' \<and> path_of segs \<noteq> []"
  by (cases segs) (simp_all add: path_of_def)

lemma path_of_append: "path_of (xs @ ys) = path_of xs @ path_of ys"
  by (simp add: path_of_def)

lemma path_join_path:
  assumes "clean_segments (xs @ ys)" "xs \<noteq> []" "ys \<noteq> []"
  shows "path_join (path_of xs # ys) = path_of (xs @ ys)"
proof -
  have "path_of xs @ CHR ''/'' # slash_join ys = path_of (xs @ ys)"
    using assms(3) by (simp add: path_of_append slash_join_path)
  moreover have "slash_join (path_of xs # ys) = path_of xs @ CHR ''/'' # slash_join ys"
    using assms(3) by (cases ys) simp_all
  moreover have "filter (\<lambda>e. e \<noteq> []) (path_of xs # ys) = path_of xs # ys"
    using assms path_of_Cons [of xs] by (auto simp: clean_segments_def list_all_iff intro!: filter_True)
  ultimately show ?thesis using path_clean_path [OF assms(1)] assms(2) by (simp add: path_join_def Let_def)
qed

abbreviation api_sessions :: "string list" where "api_sessions \<equiv> [''api'', ''sessions'']"

lemma clean_api: "clean_segments api_sessions"
  by (simp add: clean_segments_def)

lemma JoinPath_api:
  assumes "u_rawPath u = []" "u_path u = path_of segs" "clean_segments segs"
  shows "JoinPath u api_sessions = u\<lparr>u_path := (if segs = [] then ''api/sessions'' else path_of (segs @ api_sessions))\<rparr>"
proof -
  have "path_of segs \<noteq> ''*''" by (cases segs) (simp_all add: path_of_def)
  then have e: "EscapedPath u = path_of (map (escape encodePath) segs)"
    using assms(1,2) by (simp add: EscapedPath_def escape_path_of)
  show ?thesis
  proof (cases "segs = []")
    case True
    have j: "path_join [''/'', ''api'', ''sessions''] = ''/api/sessions''" by code_simp
    have s: "setPath ''api/sessions'' u = Some (u\<lparr>u_path := ''api/sessions'', u_rawPath := []\<rparr>)"
      using setPath_escape [of "''api/sessions''" u] escape_safe [of encodePath "''api/sessions''"]
      by (simp add: shouldEscape_def alnum_def lower_letters_def)
    with True e j assms(1) show ?thesis by (simp add: JoinPath_def Let_def path_of_def)
  next
    case False
    let ?xs = "map (escape encodePath) segs"
    have c: "clean_segments (?xs @ api_sessions)"
      using clean_escape [OF assms(3)] clean_api by (simp add: clean_segments_def)
    have p: "path_join (path_of ?xs # api_sessions) = path_of (?xs @ api_sessions)"
      by (rule path_join_path [OF c]) (simp_all add: False)
    have a: "map (escape encodePath) api_sessions = api_sessions"
      by (simp add: escape_safe shouldEscape_def alnum_def lower_letters_def)
    have "path_of (?xs @ api_sessions) = escape encodePath (path_of (segs @ api_sessions))"
      using a by (simp add: escape_path_of)
    then have s: "setPath (path_of (?xs @ api_sessions)) u
        = Some (u\<lparr>u_path := path_of (segs @ api_sessions), u_rawPath := []\<rparr>)"
      by (simp add: setPath_escape)
    have "take 1 (path_of ?xs) = ''/''" using path_of_Cons [of ?xs] False by simp
    with e p s False assms(1) show ?thesis by (simp add: JoinPath_def Let_def)
  qed
qed

text \<open>
  Where the runner talks to. For a relay address with a plain host, all three addresses are on
  the relay's own host and scheme, with its query: the create request keeps the path of the
  address in front of \<^verbatim>\<open>/api/sessions\<close>, but the WebSocket and the link replace it, so a
  relay mounted below a path gets its sessions created there and dialled elsewhere. Only the
  dial carries the runner's token in a header, and it uses TLS exactly when the address does.
\<close>

theorem request_addresses:
  assumes "plain_url (base c)" "u_path (base c) = path_of segs" "clean_segments segs" "u_fragment (base c) = []"
  shows "let u = base c;
             q = (if u_rawQuery u \<noteq> [] then ''?'' @ u_rawQuery u else []) in
     rq_url (create_request c sid tok ttl opts)
       = u_scheme u @ ''://'' @ u_host u @ escape encodePath (path_of (segs @ [''api'', ''sessions''])) @ q
   \<and> ws_url (dial_request c sid tok)
       = (if u_scheme u = ''https'' then ''wss'' else ''ws'') @ ''://'' @ u_host u
         @ escape encodePath (''/ws/runner/'' @ sid) @ q
   \<and> url_request_part (u\<lparr>u_path := ''/s/'' @ sid\<rparr>)
       = u_scheme u @ ''://'' @ u_host u @ escape encodePath (''/s/'' @ sid) @ q"
proof -
  let ?u = "base c"
  let ?q = "if u_rawQuery ?u \<noteq> [] then ''?'' @ u_rawQuery ?u else []"
  have u: "u_scheme ?u \<noteq> []" "u_opaque ?u = []" "u_user ?u = None" "u_rawPath ?u = []" "\<not> u_forceQuery ?u"
    "u_host ?u \<noteq> []" "escape encodeHost (u_host ?u) = u_host ?u"
    using assms(1) by (auto simp: plain_url_def plain_host_def escape_safe)
  have abs_path: "url_request_part (?u\<lparr>u_scheme := sch, u_path := CHR ''/'' # p\<rparr>)
      = sch @ ''://'' @ u_host ?u @ escape encodePath (CHR ''/'' # p) @ ?q" if "sch \<noteq> []" for sch p
    using u that
    by (simp add: url_request_part_def authority_string_def EscapedPath_def escape_slash Let_def)
  have self: "?u\<lparr>u_path := p\<rparr> = ?u\<lparr>u_scheme := u_scheme ?u, u_path := p\<rparr>" for p by simp
  have rel: "url_request_part (?u\<lparr>u_path := ''api/sessions''\<rparr>)
      = u_scheme ?u @ ''://'' @ u_host ?u @ ''/api/sessions'' @ ?q"
    using u escape_safe [of encodePath "''api/sessions''"]
    by (simp add: url_request_part_def authority_string_def EscapedPath_def Let_def shouldEscape_def alnum_def lower_letters_def)
  have api: "escape encodePath ''/api/sessions'' = ''/api/sessions''"
    by (rule escape_safe) (simp add: shouldEscape_def alnum_def lower_letters_def)
  have create: "rq_url (create_request c sid tok ttl opts)
      = u_scheme ?u @ ''://'' @ u_host ?u @ escape encodePath (path_of (segs @ api_sessions)) @ ?q"
  proof (cases segs)
    case Nil
    with JoinPath_api [OF u(4) assms(2,3)] rel api assms(4) show ?thesis
      by (simp add: create_request_def url_string_def path_of_def)
  next
    case (Cons s ss)
    with JoinPath_api [OF u(4) assms(2,3)] abs_path [OF u(1), of "s @ path_of (ss @ api_sessions)"] assms(4) show ?thesis
      by (simp add: create_request_def url_string_def path_of_def)
  qed
  have dial: "ws_url (dial_request c sid tok)
      = (if u_scheme ?u = ''https'' then ''wss'' else ''ws'') @ ''://'' @ u_host ?u
         @ escape encodePath (''/ws/runner/'' @ sid) @ ?q"
    using abs_path [of "''wss''" "''ws/runner/'' @ sid"] abs_path [of "''ws''" "''ws/runner/'' @ sid"] assms(4)
    by (simp add: dial_request_def url_string_def Let_def)
  have "url_request_part (?u\<lparr>u_path := ''/s/'' @ sid\<rparr>)
      = u_scheme ?u @ ''://'' @ u_host ?u @ escape encodePath (''/s/'' @ sid) @ ?q"
    using abs_path [OF u(1), of "''s/'' @ sid"] by simp
  with create dial show ?thesis by (simp only: Let_def simp_thms)
qed

definition ex_prefixed :: Client where
  "ex_prefixed = \<lparr>base = zero_url\<lparr>u_scheme := ''https'', u_host := ''example.com'', u_path := ''/tty''\<rparr>\<rparr>"

theorem request_addresses_witness:
  "NewClient ''https://example.com/tty'' False = Inr ex_prefixed
   \<and> rq_url (create_request ex_prefixed ''id'' ''tok'' 0 \<lparr>MultiViewer = False\<rparr>) = ''https://example.com/tty/api/sessions''
   \<and> ws_url (dial_request ex_prefixed ''id'' ''tok'') = ''wss://example.com/ws/runner/id''"
proof -
  have "plain_url (base ex_prefixed)" "u_path (base ex_prefixed) = path_of [''tty'']"
    "clean_segments [''tty'']" "u_fragment (base ex_prefixed) = []" by code_simp+
  note r = request_addresses [OF this, of "''id''" "''tok''" 0 "\<lparr>MultiViewer = False\<rparr>", unfolded Let_def]
  moreover have "escape encodePath (path_of [''tty'', ''api'', ''sessions'']) = path_of [''tty'', ''api'', ''sessions'']"
    "escape encodePath ''/ws/runner/id'' = ''/ws/runner/id''"
    by (rule escape_safe, simp add: path_of_def shouldEscape_def alnum_def lower_letters_def)+
  moreover have "NewClient ''https://example.com/tty'' False = Inr ex_prefixed" by code_simp
  ultimately show ?thesis by (simp add: ex_prefixed_def zero_url_def path_of_def)
qed

end
