(* ===== verification/Orchestrator.thy ===== *)
theory Orchestrator
  imports Crypto Ring PtySession Screen Json RelayClient
begin

text \<open>
  \<^verbatim>\<open>src/runner/internal/runner/runner.go\<close>: the state of the orchestrator and every handler
  that changes it, in the order of the file. A handler is a function from the state to the new
  state. What the outside decides at the moment of the call is the record \<open>env\<close>: the clock
  (nanoseconds), which ready case a \<^verbatim>\<open>select\<close> picks when both the send queue and the closed
  \<^verbatim>\<open>done\<close> channel are ready, and the random bytes for a nonce (\<open>None\<close> for an error).
  Calls of the user's callbacks and writers are recorded: \<open>notices\<close> holds the calls of
  \<^verbatim>\<open>notify\<close>, \<open>local_out\<close> the chunks written to \<^verbatim>\<open>localOut\<close>.

  The mutexes of the source protect single fields or groups of fields; each locked region is
  inside one handler, and the handlers are interleaved in the theory \<open>Steps\<close>.
\<close>

definition ringBytes :: int where "ringBytes = 256 * 1024"
definition sendQueue :: nat where "sendQueue = 256"

datatype ControlMode = ControlAuto | ControlViewOnly | ControlOnce

record Config =
  cfg_Client :: Client
  cfg_Session :: Session
  cfg_Keys :: Keys
  cfg_SessionID :: string
  cfg_Token :: string
  cfg_TTL :: int
  cfg_MultiViewer :: bool
  cfg_ExpiresAt :: int
  cfg_Control :: ControlMode
  cfg_LocalIn :: bool
  cfg_LocalOut :: bool
  cfg_Notify :: bool
  cfg_Fingerprint :: string

record outMsg =
  m_kind :: byte
  m_payload :: bytes
  m_target :: string
  m_text :: bool

definition byeEnded :: bytes where
  "byeEnded = str_bytes ''{\"t\":\"bye\",\"reason\":\"ended\"}''"

text \<open>
  A connection: the WebSocket is seen as the messages written to it and, for the \<open>n\<close>-th write,
  whether it succeeds; \<open>reader_up\<close> and \<open>sender_up\<close> say whether the connection's two
  goroutines still run.
\<close>

datatype wsmsg = WsBinary bytes | WsText bytes

record connState =
  ws_out :: "wsmsg list"
  ws_ok :: "nat \<Rightarrow> bool"
  send_q :: "outMsg list"
  join_q :: "string list"
  c_done :: bool
  dropped :: bool
  reader_up :: bool
  sender_up :: bool

text \<open>\<^verbatim>\<open>connState.fail\<close>: closes \<^verbatim>\<open>done\<close> once.\<close>

definition conn_fail :: "connState \<Rightarrow> connState" where
  "conn_fail c = c\<lparr>c_done := True\<rparr>"

record env =
  e_now :: int
  e_pick_done :: "outMsg \<Rightarrow> bool"
  e_rand :: "u64 \<Rightarrow> bytes option"

text \<open>
  The orchestrator. \<open>conn_obj\<close> is the connection that \<^verbatim>\<open>serveConn\<close> currently serves and
  \<open>published\<close> says that \<^verbatim>\<open>o.conn\<close> points to it (otherwise \<^verbatim>\<open>o.conn\<close> is nil).
\<close>

record Orch =
  o_client :: Client
  sess :: Session
  o_id :: string
  o_tok :: string
  o_ttl :: int
  multiViewer :: bool
  expiresAt :: int
  control :: ControlMode
  r2v :: Cipher
  v2r :: Cipher
  o_ring :: Ring
  has_localIn :: bool
  has_localOut :: bool
  local_out :: "bytes list"
  has_notify :: bool
  notices :: "(string \<times> bool) list"
  fp :: string
  outSeq :: u64
  inSeqByViewer :: "string \<rightharpoonup> u64"
  selfByRoute :: "string \<rightharpoonup> string"
  controlOwner :: string
  ownerRoute :: string
  onceUsed :: bool
  viewers :: u32
  exitCode :: u32
  screen :: screen_state
  conn_obj :: "connState option"
  published :: bool
  shutdownOnce :: bool

definition New :: "Config \<Rightarrow> key_size_error + Orch" where
  "New cfg =
     (case NewCipher (R2V (cfg_Keys cfg)) (str_bytes (cfg_SessionID cfg)) of
        Inl e \<Rightarrow> Inl e
      | Inr c1 \<Rightarrow>
     (case NewCipher (V2R (cfg_Keys cfg)) (str_bytes (cfg_SessionID cfg)) of
        Inl e \<Rightarrow> Inl e
      | Inr c2 \<Rightarrow>
          Inr \<lparr>o_client = cfg_Client cfg, sess = cfg_Session cfg, o_id = cfg_SessionID cfg,
            o_tok = cfg_Token cfg, o_ttl = cfg_TTL cfg, multiViewer = cfg_MultiViewer cfg,
            expiresAt = cfg_ExpiresAt cfg, control = cfg_Control cfg, r2v = c1, v2r = c2,
            o_ring = NewRing ringBytes, has_localIn = cfg_LocalIn cfg,
            has_localOut = cfg_LocalOut cfg, local_out = [], has_notify = cfg_Notify cfg,
            notices = [], fp = cfg_Fingerprint cfg, outSeq = 0, inSeqByViewer = Map.empty,
            selfByRoute = Map.empty, controlOwner = [], ownerRoute = [], onceUsed = False,
            viewers = 0, exitCode = -1, screen = \<lparr>altScreen = False, lastCtl = 0\<rparr>,
            conn_obj = None, published = False, shutdownOnce = False\<rparr>))"

subsection \<open>Notices and the send queue\<close>

definition note_host :: "env \<Rightarrow> string \<Rightarrow> Orch \<Rightarrow> Orch" where
  "note_host e s st =
     (if has_notify st then st\<lparr>notices := notices st @ [(s, screenBusy (e_now e) (screen st))]\<rparr> else st)"

text \<open>
  The non-blocking select of \<^verbatim>\<open>enqueue\<close>: queue the message if there is room, stop if the
  connection is done, otherwise drop the message and remember that one was dropped.
\<close>

definition conn_offer :: "env \<Rightarrow> outMsg \<Rightarrow> connState \<Rightarrow> connState" where
  "conn_offer e m c =
     (if length (send_q c) < sendQueue \<and> \<not> (c_done c \<and> e_pick_done e m)
      then c\<lparr>send_q := send_q c @ [m]\<rparr>
      else if c_done c then c
      else c\<lparr>dropped := True\<rparr>)"

definition enqueue :: "env \<Rightarrow> outMsg \<Rightarrow> Orch \<Rightarrow> Orch" where
  "enqueue e m st =
     (if \<not> published st then st
      else case conn_obj st of
        None \<Rightarrow> st
      | Some c \<Rightarrow> st\<lparr>conn_obj := Some (conn_offer e m c)\<rparr>)"

definition emit :: "env \<Rightarrow> byte \<Rightarrow> bytes \<Rightarrow> Orch \<Rightarrow> Orch" where
  "emit e kind payload =
     enqueue e \<lparr>m_kind = kind, m_payload = payload, m_target = [], m_text = False\<rparr>"

definition emitToViewer :: "env \<Rightarrow> string \<Rightarrow> byte \<Rightarrow> bytes \<Rightarrow> Orch \<Rightarrow> Orch" where
  "emitToViewer e viewerID kind payload =
     enqueue e \<lparr>m_kind = kind, m_payload = payload, m_target = viewerID, m_text = False\<rparr>"

definition emitText :: "env \<Rightarrow> bytes \<Rightarrow> Orch \<Rightarrow> Orch" where
  "emitText e payload =
     enqueue e \<lparr>m_kind = 0, m_payload = payload, m_target = [], m_text = True\<rparr>"

subsection \<open>The local side\<close>

definition Resize :: "env \<Rightarrow> u16 \<Rightarrow> u16 \<Rightarrow> Orch \<Rightarrow> Orch" where
  "Resize e cols rows st =
     (let o1 = st\<lparr>sess := fst (SetSize (sess st) cols rows (None :: unit option))\<rparr>
      in if 0 < sint (viewers o1)
         then (case Size (sess o1) of (c, r) \<Rightarrow> emit e KindHello (EncodeHello 1 c r) o1)
         else o1)"

text \<open>One iteration of \<^verbatim>\<open>pumpOutput\<close> for a non-empty read, then the loop over the reads.\<close>

definition pump_chunk :: "env \<Rightarrow> bytes \<Rightarrow> Orch \<Rightarrow> Orch" where
  "pump_chunk e chunk st =
     (let o1 = st\<lparr>screen := markScreenActivity (e_now e) chunk (screen st)\<rparr>;
          o2 = (if has_localOut o1 then o1\<lparr>local_out := local_out o1 @ [chunk]\<rparr> else o1);
          o3 = o2\<lparr>o_ring := fst (Write (o_ring o2) chunk)\<rparr>
      in if 0 < sint (viewers o3) then emit e KindOutput chunk o3 else o3)"

fun pumpOutput :: "(env \<times> bytes \<times> bool) list \<Rightarrow> Orch \<Rightarrow> Orch" where
  "pumpOutput [] st = st"
| "pumpOutput ((e, chunk, err) # reads) st =
     (let o1 = (if chunk \<noteq> [] then pump_chunk e chunk st else st)
      in if err then o1 else pumpOutput reads o1)"

fun pumpInput_loop :: "(bytes \<times> bool) list \<Rightarrow> Orch \<Rightarrow> Orch" where
  "pumpInput_loop [] st = st"
| "pumpInput_loop ((chunk, err) # reads) st =
     (let o1 = (if chunk \<noteq> [] then st\<lparr>sess := fst (SessionWrite (sess st) chunk)\<rparr> else st)
      in if err then o1 else pumpInput_loop reads o1)"

definition pumpInput :: "(bytes \<times> bool) list \<Rightarrow> Orch \<Rightarrow> Orch" where
  "pumpInput reads st = (if \<not> has_localIn st then st else pumpInput_loop reads st)"

definition keepalive_tick :: "env \<Rightarrow> Orch \<Rightarrow> Orch" where
  "keepalive_tick e st = (case Size (sess st) of (c, r) \<Rightarrow> emit e KindHello (EncodeHello 1 c r) st)"

definition signalExit :: "env \<Rightarrow> Orch \<Rightarrow> Orch" where
  "signalExit e st =
     emitText e byeEnded (emit e KindExit (EncodeExit (word_of_int (ExitCode (sess st)))) st)"

definition shutdown :: "Orch \<Rightarrow> Orch" where
  "shutdown st =
     (if shutdownOnce st then st else st\<lparr>sess := Terminate (sess st), shutdownOnce := True\<rparr>)"

subsection \<open>Replay floors, routes and control ownership\<close>

definition floor_of :: "Orch \<Rightarrow> string \<Rightarrow> u64" where
  "floor_of st v = (case inSeqByViewer st v of None \<Rightarrow> 0 | Some s \<Rightarrow> s)"

definition bindRoute :: "string \<Rightarrow> string \<Rightarrow> Orch \<Rightarrow> Orch" where
  "bindRoute routeID viewerID st = st\<lparr>selfByRoute := (selfByRoute st)(routeID \<mapsto> viewerID)\<rparr>"

definition baseline :: "Orch \<Rightarrow> string \<Rightarrow> u64" where
  "baseline st viewerID = floor_of st viewerID + 1"

definition acceptSeq :: "string \<Rightarrow> u64 \<Rightarrow> Orch \<Rightarrow> Orch \<times> bool" where
  "acceptSeq viewerID seq st =
     (if seq \<le> floor_of st viewerID then (st, False)
      else (st\<lparr>inSeqByViewer := (inSeqByViewer st)(viewerID \<mapsto> seq)\<rparr>, True))"

definition viewerHasControl :: "Orch \<Rightarrow> string \<Rightarrow> bool" where
  "viewerHasControl st viewerID \<longleftrightarrow> controlOwner st = viewerID"

definition controlState :: "Orch \<Rightarrow> string \<Rightarrow> byte" where
  "controlState st viewerID =
     (if controlOwner st = [] then ControlReadOnly
      else if controlOwner st = viewerID then ControlGranted
      else ControlTaken)"

definition clearControlOwner :: "Orch \<Rightarrow> Orch" where
  "clearControlOwner st = st\<lparr>controlOwner := [], ownerRoute := [], selfByRoute := Map.empty\<rparr>"

definition forgetViewer :: "string \<Rightarrow> Orch \<Rightarrow> Orch" where
  "forgetViewer routeID st =
     (let o1 =
        (case selfByRoute st routeID of
           None \<Rightarrow> st
         | Some self \<Rightarrow>
             let o' = st\<lparr>selfByRoute := (selfByRoute st)(routeID := None)\<rparr>
             in if controlOwner o' = self then o'\<lparr>controlOwner := [], ownerRoute := []\<rparr> else o')
      in if ownerRoute o1 = routeID then o1\<lparr>controlOwner := [], ownerRoute := []\<rparr> else o1)"

definition handleControlRequest :: "env \<Rightarrow> string \<Rightarrow> string \<Rightarrow> Orch \<Rightarrow> Orch" where
  "handleControlRequest e viewerID routeID st =
     (let (cs, notify, o1) =
        (if controlOwner st = viewerID then (ControlGranted, False, st)
         else if controlOwner st \<noteq> [] then (ControlTaken, False, st)
         else if control st = ControlViewOnly \<or> (control st = ControlOnce \<and> onceUsed st)
           then (ControlReadOnly, False, st)
         else (ControlGranted, True,
                (if control st = ControlOnce then st\<lparr>onceUsed := True\<rparr> else st)
                  \<lparr>controlOwner := viewerID, ownerRoute := routeID\<rparr>));
          o2 = emitToViewer e routeID KindControl [cs] o1
      in if notify then note_host e ''onlytty: viewer took control'' o2 else o2)"

definition handleControlRelease :: "env \<Rightarrow> string \<Rightarrow> string \<Rightarrow> Orch \<Rightarrow> Orch" where
  "handleControlRelease e viewerID routeID st =
     (if controlOwner st = viewerID then
        note_host e ''onlytty: viewer released control''
          (emitToViewer e routeID KindControl [ControlReadOnly]
            (st\<lparr>controlOwner := [], ownerRoute := []\<rparr>))
      else st)"

definition Revoke :: "env \<Rightarrow> Orch \<Rightarrow> Orch" where
  "Revoke e st =
     (let owner = controlOwner st; route = ownerRoute st;
          o1 = (if owner \<noteq> [] then st\<lparr>controlOwner := [], ownerRoute := []\<rparr> else st)
      in if owner = [] then o1
         else note_host e ''onlytty: host revoked control''
           (emitToViewer e route KindControl [ControlReadOnly] o1))"

subsection \<open>Frames from the relay\<close>

record relay_msg =
  mT :: string
  mViewers :: int
  mViewerID :: string

definition assign_field :: "(string \<times> json) \<Rightarrow> relay_msg option \<Rightarrow> relay_msg option" where
  "assign_field kv acc =
     (case (acc, kv) of
        (None, _) \<Rightarrow> None
      | (Some m, (k, v)) \<Rightarrow>
          if field_matches ''t'' k then
            (case v of JStr s \<Rightarrow> Some (m\<lparr>mT := s\<rparr>) | JNull \<Rightarrow> Some m | _ \<Rightarrow> None)
          else if field_matches ''viewers'' k then
            (case v of
               JNum s \<Rightarrow> map_option (\<lambda>i. m\<lparr>mViewers := i\<rparr>) (parse_int64 s)
             | JNull \<Rightarrow> Some m
             | _ \<Rightarrow> None)
          else if field_matches ''viewer_id'' k then
            (case v of JStr s \<Rightarrow> Some (m\<lparr>mViewerID := s\<rparr>) | JNull \<Rightarrow> Some m | _ \<Rightarrow> None)
          else Some m)"

definition unmarshal_relay :: "bytes \<Rightarrow> relay_msg option" where
  "unmarshal_relay data =
     (case parse_json data of
        None \<Rightarrow> None
      | Some JNull \<Rightarrow> Some \<lparr>mT = [], mViewers = 0, mViewerID = []\<rparr>
      | Some (JObj ms) \<Rightarrow> fold assign_field ms (Some \<lparr>mT = [], mViewers = 0, mViewerID = []\<rparr>)
      | Some _ \<Rightarrow> None)"

text \<open>\<^verbatim>\<open>signal\<close>: a non-blocking send on the join queue.\<close>

definition signal_join :: "string \<Rightarrow> Orch \<Rightarrow> Orch" where
  "signal_join viewerID st =
     (case conn_obj st of
        None \<Rightarrow> st
      | Some c \<Rightarrow>
          if length (join_q c) < sendQueue
          then st\<lparr>conn_obj := Some (c\<lparr>join_q := join_q c @ [viewerID]\<rparr>)\<rparr> else st)"

definition handleControlMsg :: "env \<Rightarrow> relay_msg \<Rightarrow> Orch \<Rightarrow> Orch" where
  "handleControlMsg e m st =
     (if mT m = ''hello'' then
        (let o1 = st\<lparr>viewers := word_of_int (mViewers m)\<rparr>
         in if mViewers m > 0 then signal_join [] o1 else o1)
      else if mT m = ''peer_join'' then
        (let vs = (if mViewers m \<le> 0 then 1 else mViewers m)
         in signal_join (mViewerID m)
              (note_host e (''onlytty: viewer connected '' @ [CHR 0xC2, CHR 0xB7] @ '' fingerprint '' @ fp st)
                (st\<lparr>viewers := word_of_int vs\<rparr>)))
      else if mT m = ''peer_left'' then
        (let vs = (if mViewers m < 0 then 0 else mViewers m)
         in note_host e ''onlytty: viewer disconnected''
              (forgetViewer (mViewerID m) (st\<lparr>viewers := word_of_int vs\<rparr>)))
      else if mT m = ''busy'' then
        note_host e ''onlytty: a viewer is already connected (single-viewer lock)'' st
      else if mT m = ''going_away'' then
        note_host e (''onlytty: relay node is redeploying '' @ [CHR 0xE2, CHR 0x80, CHR 0x94]
          @ '' will reconnect'') st
      else if mT m = ''bye'' then
        note_host e ''onlytty: session closed by the relay'' st
      else st)"

definition handleControl :: "env \<Rightarrow> bytes \<Rightarrow> Orch \<Rightarrow> Orch" where
  "handleControl e data st =
     (case unmarshal_relay data of None \<Rightarrow> st | Some m \<Rightarrow> handleControlMsg e m st)"

definition handleBinary :: "env \<Rightarrow> bytes \<Rightarrow> Orch \<Rightarrow> Orch" where
  "handleBinary e fr st =
     (case DecodeRelayViewerFrame fr of
        Inl _ \<Rightarrow> st
      | Inr (routeID, sealed) \<Rightarrow>
     (case Open (v2r st) sealed of
        Inl _ \<Rightarrow> st
      | Inr (seq, kind, pl) \<Rightarrow>
     (case DecodeViewerPayload pl of
        Inl _ \<Rightarrow> st
      | Inr (viewerID, payload) \<Rightarrow>
     (case acceptSeq viewerID seq st of
        (o0, ok) \<Rightarrow>
        if \<not> ok then st
        else
          let o1 = bindRoute routeID viewerID o0 in
          if kind = KindInput then
            (if viewerHasControl o1 viewerID
             then o1\<lparr>sess := fst (SessionWrite (sess o1) payload)\<rparr> else o1)
          else if kind = KindResize then
            (if viewerHasControl o1 viewerID then
               (case DecodeResize payload of
                  Inl _ \<Rightarrow> o1
                | Inr (cols, rows) \<Rightarrow>
                    o1\<lparr>sess := fst (SetSize (sess o1) cols rows (None :: unit option))\<rparr>)
             else o1)
          else if kind = KindCtrlReq then handleControlRequest e viewerID routeID o1
          else if kind = KindCtrlRel then handleControlRelease e viewerID routeID o1
          else o1))))"

subsection \<open>Shapes of the handlers\<close>

text \<open>
  Queueing a message changes only the connection, and a notice only \<open>notices\<close>. Stated as
  record updates, these equations let the simplifier read any field through a handler.
\<close>

definition offered :: "env \<Rightarrow> outMsg \<Rightarrow> Orch \<Rightarrow> connState option" where
  "offered e m st = (if published st then map_option (conn_offer e m) (conn_obj st) else conn_obj st)"

lemma enqueue_shape: "enqueue e m st = st\<lparr>conn_obj := offered e m st\<rparr>"
  by (simp add: enqueue_def offered_def split: option.split)

lemma note_host_shape:
  "note_host e s st = st\<lparr>notices :=
     (if has_notify st then notices st @ [(s, screenBusy (e_now e) (screen st))] else notices st)\<rparr>"
  by (simp add: note_host_def)

lemmas emit_shapes = emit_def emitToViewer_def emitText_def enqueue_shape note_host_shape

text \<open>The decoding of a relayed frame, with the result of every stage; \<open>None\<close> is a dropped frame.\<close>

definition decode_frame ::
  "Cipher \<Rightarrow> bytes \<Rightarrow> (string \<times> string \<times> u64 \<times> byte \<times> bytes) option" where
  "decode_frame c fr =
     (case DecodeRelayViewerFrame fr of
        Inl _ \<Rightarrow> None
      | Inr (routeID, sealed) \<Rightarrow>
     (case Open c sealed of
        Inl _ \<Rightarrow> None
      | Inr (seq, kind, pl) \<Rightarrow>
     (case DecodeViewerPayload pl of
        Inl _ \<Rightarrow> None
      | Inr (viewerID, payload) \<Rightarrow> Some (routeID, viewerID, seq, kind, payload))))"

text \<open>The state after a frame passed the replay floor, and what its kind then does.\<close>

definition accepted :: "string \<Rightarrow> string \<Rightarrow> u64 \<Rightarrow> Orch \<Rightarrow> Orch" where
  "accepted routeID viewerID seq st =
     st\<lparr>inSeqByViewer := (inSeqByViewer st)(viewerID \<mapsto> seq),
       selfByRoute := (selfByRoute st)(routeID \<mapsto> viewerID)\<rparr>"

definition dispatch :: "env \<Rightarrow> string \<Rightarrow> string \<Rightarrow> byte \<Rightarrow> bytes \<Rightarrow> Orch \<Rightarrow> Orch" where
  "dispatch e routeID viewerID kind payload o1 =
     (if kind = KindInput then
        (if viewerHasControl o1 viewerID
         then o1\<lparr>sess := fst (SessionWrite (sess o1) payload)\<rparr> else o1)
      else if kind = KindResize then
        (if viewerHasControl o1 viewerID then
           (case DecodeResize payload of
              Inl _ \<Rightarrow> o1
            | Inr (cols, rows) \<Rightarrow>
                o1\<lparr>sess := fst (SetSize (sess o1) cols rows (None :: unit option))\<rparr>)
         else o1)
      else if kind = KindCtrlReq then handleControlRequest e viewerID routeID o1
      else if kind = KindCtrlRel then handleControlRelease e viewerID routeID o1
      else o1)"

lemma handleBinary_eq:
  "handleBinary e fr st =
     (case decode_frame (v2r st) fr of
        None \<Rightarrow> st
      | Some (r, v, seq, kind, p) \<Rightarrow>
          if seq \<le> floor_of st v then st else dispatch e r v kind p (accepted r v seq st))"
  by (simp add: handleBinary_def decode_frame_def acceptSeq_def bindRoute_def accepted_def
      dispatch_def Let_def split: sum.split)

lemma decode_frame_ids:
  "decode_frame c fr = Some (r, v, seq, kind, p) \<Longrightarrow> r \<noteq> [] \<and> v \<noteq> []"
  by (auto simp: decode_frame_def split: sum.splits dest!: ovp.dec_id_nonempty otv.dec_id_nonempty)

lemma handleBinary_cases:
  obtains (dropped) "handleBinary e fr st = st"
  | (taken) r v seq kind p where
      "decode_frame (v2r st) fr = Some (r, v, seq, kind, p)" "floor_of st v < seq"
      "r \<noteq> []" "v \<noteq> []"
      "handleBinary e fr st = dispatch e r v kind p (accepted r v seq st)"
proof (cases "decode_frame (v2r st) fr")
  case None
  then show thesis by (intro dropped) (simp add: handleBinary_eq)
next
  case (Some x)
  obtain r v seq kind p where x: "x = (r, v, seq, kind, p)" by (cases x)
  show thesis
  proof (cases "seq \<le> floor_of st v")
    case True
    with Some x show thesis by (intro dropped) (simp add: handleBinary_eq)
  next
    case False
    with Some x decode_frame_ids [of "v2r st" fr r v seq kind p] show thesis
      by (intro taken) (simp_all add: handleBinary_eq)
  qed
qed

lemma floor_of_accepted: "floor_of (accepted r v seq st) w = (if w = v then seq else floor_of st w)"
  by (simp add: floor_of_def accepted_def)

lemma floor_of_cong: "inSeqByViewer a = inSeqByViewer b \<Longrightarrow> floor_of a w = floor_of b w"
  by (simp add: floor_of_def)

text \<open>The configuration and the keys never change.\<close>

definition same_setup :: "Orch \<Rightarrow> Orch \<Rightarrow> bool" where
  "same_setup a b \<longleftrightarrow>
     o_client a = o_client b \<and> control a = control b \<and> r2v a = r2v b \<and> v2r a = v2r b \<and> o_id a = o_id b \<and> o_tok a = o_tok b
     \<and> o_ttl a = o_ttl b \<and> expiresAt a = expiresAt b \<and> multiViewer a = multiViewer b \<and> fp a = fp b"

lemma handleControlRequest_frame [frame]:
  "inSeqByViewer (handleControlRequest e v r st) = inSeqByViewer st"
  "selfByRoute (handleControlRequest e v r st) = selfByRoute st"
  "sess (handleControlRequest e v r st) = sess st"
  "same_setup (handleControlRequest e v r st) st"
  "o_ring (handleControlRequest e v r st) = o_ring st"
  "outSeq (handleControlRequest e v r st) = outSeq st"
  by (simp_all add: handleControlRequest_def emit_shapes Let_def same_setup_def)

lemma handleControlRelease_frame [frame]:
  "inSeqByViewer (handleControlRelease e v r st) = inSeqByViewer st"
  "selfByRoute (handleControlRelease e v r st) = selfByRoute st"
  "sess (handleControlRelease e v r st) = sess st"
  "same_setup (handleControlRelease e v r st) st"
  "o_ring (handleControlRelease e v r st) = o_ring st"
  "outSeq (handleControlRelease e v r st) = outSeq st"
  by (simp_all add: handleControlRelease_def emit_shapes Let_def same_setup_def)

lemma dispatch_frame [frame]:
  "inSeqByViewer (dispatch e r v k p st) = inSeqByViewer st"
  "selfByRoute (dispatch e r v k p st) = selfByRoute st"
  "same_setup (dispatch e r v k p st) st"
  "o_ring (dispatch e r v k p st) = o_ring st"
  "outSeq (dispatch e r v k p st) = outSeq st"
  by (simp_all add: dispatch_def frame split: sum.split) (simp_all add: same_setup_def)

lemma Revoke_frame [frame]:
  "inSeqByViewer (Revoke e st) = inSeqByViewer st"
  "sess (Revoke e st) = sess st"
  "same_setup (Revoke e st) st"
  "outSeq (Revoke e st) = outSeq st"
  by (simp_all add: Revoke_def emit_shapes Let_def same_setup_def)

lemma forgetViewer_frame [frame]:
  "inSeqByViewer (forgetViewer r st) = inSeqByViewer st"
  "sess (forgetViewer r st) = sess st"
  "same_setup (forgetViewer r st) st"
  "onceUsed (forgetViewer r st) = onceUsed st"
  "conn_obj (forgetViewer r st) = conn_obj st"
  "outSeq (forgetViewer r st) = outSeq st"
  by (simp_all add: forgetViewer_def Let_def same_setup_def split: option.split)

lemma signal_join_frame [frame]:
  "inSeqByViewer (signal_join r st) = inSeqByViewer st"
  "sess (signal_join r st) = sess st"
  "same_setup (signal_join r st) st"
  "onceUsed (signal_join r st) = onceUsed st"
  "controlOwner (signal_join r st) = controlOwner st"
  "ownerRoute (signal_join r st) = ownerRoute st"
  "outSeq (signal_join r st) = outSeq st"
  by (simp_all add: signal_join_def same_setup_def split: option.split)

lemma handleControl_frame [frame]:
  "inSeqByViewer (handleControl e d st) = inSeqByViewer st"
  "sess (handleControl e d st) = sess st"
  "same_setup (handleControl e d st) st"
  "onceUsed (handleControl e d st) = onceUsed st"
  "outSeq (handleControl e d st) = outSeq st"
proof -
  have "inSeqByViewer (handleControlMsg e m st) = inSeqByViewer st
      \<and> sess (handleControlMsg e m st) = sess st
      \<and> same_setup (handleControlMsg e m st) st
      \<and> onceUsed (handleControlMsg e m st) = onceUsed st
      \<and> outSeq (handleControlMsg e m st) = outSeq st" for m
    using signal_join_frame forgetViewer_frame
    by (simp add: handleControlMsg_def emit_shapes Let_def same_setup_def)
  moreover have "same_setup st st" by (simp add: same_setup_def)
  ultimately show "inSeqByViewer (handleControl e d st) = inSeqByViewer st"
    "sess (handleControl e d st) = sess st"
    "same_setup (handleControl e d st) st"
    "onceUsed (handleControl e d st) = onceUsed st"
    "outSeq (handleControl e d st) = outSeq st"
    by (simp_all add: handleControl_def split: option.split)
qed

end
