(* ===== verification/PortalSocket.thy ===== *)
theory PortalSocket
  imports PortalSession Wire Orchestrator
begin

text \<open>
  The relay's socket process, \<^verbatim>\<open>OnlyTTYWeb.OnlyTTYSocket\<close>
  (\<^verbatim>\<open>portal/lib/onlytty_web/onlytty_socket.ex\<close>): one per connected runner or viewer, which
  forwards binary frames to its peers' processes and pushes to its client what arrives in its
  mailbox. A handler returns what it does: the frames it pushes, the messages it sends, the casts
  to the session, and the next state or the close code. \<^verbatim>\<open>Jason.decode\<close> is the argument
  \<open>jdec\<close>, and the length of the mailbox behind the message at hand is \<open>queued\<close>.
\<close>

datatype role = Runner | Viewer

record Socket =
  so_role :: role
  so_peers :: "pid list"
  so_viewer_peers :: "string \<rightharpoonup> pid"
  so_peer_ids :: "pid \<rightharpoonup> string"
  so_viewer_id :: "string option"
  so_max_queue :: nat

datatype cast = CastRunnerActive | CastClose string

datatype sock_next = Goes Socket | Stops nat string

record sock_effect =
  se_next :: sock_next
  se_push :: "wsmsg list"
  se_send :: "(pid \<times> mail) list"
  se_cast :: "cast list"

definition close_normal :: nat where "close_normal = 1000"
definition close_busy :: nat where "close_busy = 4002"
definition close_slow :: nat where "close_slow = 1013"
definition relay_viewer_magic :: string where "relay_viewer_magic = ''OTV1''"

definition sock_goes :: "Socket \<Rightarrow> sock_effect" where
  "sock_goes k = \<lparr>se_next = Goes k, se_push = [], se_send = [], se_cast = []\<rparr>"

definition base_state :: "role \<Rightarrow> nat \<Rightarrow> Socket" where
  "base_state r maxq =
     \<lparr>so_role = r, so_peers = [], so_viewer_peers = Map.empty, so_peer_ids = Map.empty,
      so_viewer_id = None, so_max_queue = maxq\<rparr>"

subsection \<open>Joining\<close>

definition role_name :: "role \<Rightarrow> string" where
  "role_name r = (case r of Runner \<Rightarrow> ''runner'' | Viewer \<Rightarrow> ''viewer'')"

definition hello_text :: "encoder \<Rightarrow> role \<Rightarrow> hello_snapshot \<Rightarrow> string option \<Rightarrow> bytes" where
  "hello_text jenc r snap vid =
     jenc ([(''t'', JStr ''hello''), (''role'', JStr (role_name r)), (''viewers'', jnum (hs_viewers snap)),
            (''locked'', JBool (hs_locked snap)), (''expires_at'', JNum (show_int (hs_expires_at snap)))]
           @ (case vid of None \<Rightarrow> [] | Some v \<Rightarrow> [(''viewer_id'', JStr v)]))"

definition busy_text :: "encoder \<Rightarrow> bytes" where
  "busy_text jenc = jenc [(''t'', JStr ''busy'')]"

definition bye_text :: "encoder \<Rightarrow> string \<Rightarrow> bytes" where
  "bye_text jenc reason = jenc [(''t'', JStr ''bye''), (''reason'', JStr reason)]"

definition init_runner :: "encoder \<Rightarrow> nat \<Rightarrow> hello_snapshot \<Rightarrow> sock_effect" where
  "init_runner jenc maxq snap =
     (sock_goes (base_state Runner maxq))\<lparr>se_push := [WsText (hello_text jenc Runner snap None)]\<rparr>"

definition init_viewer :: "encoder \<Rightarrow> nat \<Rightarrow> join_reply \<Rightarrow> sock_effect" where
  "init_viewer jenc maxq reply =
     (case reply of
        Joined snap vid present \<Rightarrow>
          (sock_goes ((base_state Viewer maxq)\<lparr>so_viewer_id := Some vid\<rparr>))
            \<lparr>se_push := WsText (hello_text jenc Viewer snap (Some vid))
               # (if present then [WsText (control_peer jenc ''peer_join'' vid (hs_viewers snap))] else [])\<rparr>
      | Busy \<Rightarrow>
          (sock_goes (base_state Viewer maxq))
            \<lparr>se_next := Stops close_busy ''busy'', se_push := [WsText (busy_text jenc)]\<rparr>)"

subsection \<open>Frames from the client\<close>

definition handle_in_binary :: "bytes \<Rightarrow> Socket \<Rightarrow> sock_effect" where
  "handle_in_binary data k =
     (case so_role k of
        Runner \<Rightarrow>
          (sock_goes k)\<lparr>se_send := map (\<lambda>p. (p, OnlyttyBinary data)) (so_peers k), se_cast := [CastRunnerActive]\<rparr>
      | Viewer \<Rightarrow>
          (sock_goes k)\<lparr>se_send := map (\<lambda>p. (p, OnlyttyViewerBinary (so_viewer_id k) data)) (so_peers k)\<rparr>)"

text \<open>A process that raises is closed with 1011.\<close>

definition sock_crash :: "Socket \<Rightarrow> sock_effect" where
  "sock_crash k = (sock_goes k)\<lparr>se_next := Stops 1011 []\<rparr>"

text \<open>A decoded object is a map: of a repeated key the last value counts.\<close>

definition obj_get :: "(string \<times> json) list \<Rightarrow> string \<Rightarrow> json option" where
  "obj_get ms k = map_of (rev ms) k"

definition decode_control :: "(bytes \<Rightarrow> json option) \<Rightarrow> bytes \<Rightarrow> (string \<times> json) list option" where
  "decode_control jdec data = (case jdec data of Some (JObj ms) \<Rightarrow> Some ms | _ \<Rightarrow> None)"

definition send_to_viewer :: "(string \<times> json) list \<Rightarrow> Socket \<Rightarrow> (pid \<times> mail) list" where
  "send_to_viewer msg k =
     (case (obj_get msg ''viewer_id'', obj_get msg ''frame'') of
        (Some (JStr vid), Some (JStr frame64)) \<Rightarrow>
          (case so_viewer_peers k vid of
             None \<Rightarrow> []
           | Some p \<Rightarrow> (case base64_std_decode frame64 of None \<Rightarrow> [] | Some fr \<Rightarrow> [(p, OnlyttyBinary fr)]))
      | _ \<Rightarrow> [])"

definition handle_in_text :: "(bytes \<Rightarrow> json option) \<Rightarrow> bytes \<Rightarrow> Socket \<Rightarrow> sock_effect" where
  "handle_in_text jdec data k =
     (case decode_control jdec data of
        None \<Rightarrow> sock_goes k
      | Some msg \<Rightarrow>
          let t = obj_get msg ''t'' in
          if t = Some (JStr ''bye'') \<and> so_role k = Runner then
            (case obj_get msg ''reason'' of
               None \<Rightarrow> (sock_goes k)\<lparr>se_cast := [CastClose ''closed'']\<rparr>
             | Some (JStr r) \<Rightarrow> (sock_goes k)\<lparr>se_cast := [CastClose r]\<rparr>
             | Some _ \<Rightarrow> sock_crash k)
          else if t = Some (JStr ''to_viewer'') \<and> so_role k = Runner then
            (sock_goes k)\<lparr>se_send := send_to_viewer msg k\<rparr>
          else if t = Some (JStr ''bye'') then
            (sock_goes k)\<lparr>se_next := Stops close_normal ''closed''\<rparr>
          else sock_goes k)"

definition handle_in :: "(bytes \<Rightarrow> json option) \<Rightarrow> wsmsg \<Rightarrow> Socket \<Rightarrow> sock_effect" where
  "handle_in jdec f k =
     (case f of WsBinary data \<Rightarrow> handle_in_binary data k | WsText data \<Rightarrow> handle_in_text jdec data k)"

subsection \<open>Messages from the session and the peers\<close>

text \<open>
  \<^verbatim>\<open>relay_viewer_frame\<close>: the magic, the length of the id in one byte (\<^verbatim>\<open>byte_size\<close> in an
  eight-bit segment keeps the low eight bits), the id and the frame.
\<close>

definition relay_viewer_frame :: "string \<Rightarrow> bytes \<Rightarrow> bytes" where
  "relay_viewer_frame vid data = str_bytes relay_viewer_magic @ [of_nat (length vid)] @ str_bytes vid @ data"

definition slow_viewer :: "nat \<Rightarrow> Socket \<Rightarrow> bool" where
  "slow_viewer queued k \<longleftrightarrow> queued > so_max_queue k"

definition handle_info :: "encoder \<Rightarrow> nat \<Rightarrow> mail \<Rightarrow> Socket \<Rightarrow> sock_effect" where
  "handle_info jenc queued m k =
     (case m of
        OnlyttyBinary data \<Rightarrow>
          if slow_viewer queued k then (sock_goes k)\<lparr>se_next := Stops close_slow ''too_slow''\<rparr>
          else (sock_goes k)\<lparr>se_push := [WsBinary data]\<rparr>
      | OnlyttyViewerBinary vid data \<Rightarrow>
          (case vid of
             None \<Rightarrow> sock_crash k
           | Some v \<Rightarrow> (sock_goes k)\<lparr>se_push := [WsBinary (relay_viewer_frame v data)]\<rparr>)
      | OnlyttyControl js \<Rightarrow> (sock_goes k)\<lparr>se_push := [WsText js]\<rparr>
      | AddPeer p \<Rightarrow> sock_goes (k\<lparr>so_peers := List.insert p (so_peers k)\<rparr>)
      | AddViewerPeer p vid \<Rightarrow>
          sock_goes (k\<lparr>so_peers := List.insert p (so_peers k),
                       so_viewer_peers := (so_viewer_peers k)(vid \<mapsto> p),
                       so_peer_ids := (so_peer_ids k)(p \<mapsto> vid)\<rparr>)
      | DelPeer p \<Rightarrow>
          sock_goes (k\<lparr>so_peers := removeAll p (so_peers k),
                       so_peer_ids := (so_peer_ids k)(p := None),
                       so_viewer_peers :=
                         (case so_peer_ids k p of None \<Rightarrow> so_viewer_peers k
                          | Some vid \<Rightarrow> (so_viewer_peers k)(vid := None))\<rparr>)
      | CloseMsg code reason \<Rightarrow>
          (sock_goes k)\<lparr>se_next := Stops code reason, se_push := [WsText (bye_text jenc reason)]\<rparr>)"

subsection \<open>The label on a viewer's frame\<close>

text \<open>The relay writes the envelope that the runner's protocol package reads.\<close>

lemma relay_viewer_frame_encode:
  "length vid \<le> 255 \<Longrightarrow> relay_viewer_frame vid data = EncodeRelayViewerFrame vid data"
  by (simp add: relay_viewer_frame_def EncodeRelayViewerFrame_def relayViewerMagic_def relay_viewer_magic_def Let_def)

lemma viewer_id_length: "length (viewer_id_of rnd) \<le> 12"
proof -
  have "length (viewer_id_of rnd) = (8 * length (take 9 rnd) + 5) div 6"
    using base64_rawurl_encode_shape by (simp add: viewer_id_of_def)
  also have "\<dots> \<le> (8 * 9 + 5) div 6" by (intro div_le_mono) simp
  finally show ?thesis by simp
qed

end
