(* ===== verification/Browser.thy ===== *)
theory Browser
  imports BrowserCrypto PortalSocket
begin

text \<open>
  The viewer in the browser: \<^verbatim>\<open>src/portal/priv/static/assets/keys.js\<close> and \<^verbatim>\<open>app.js\<close>. The
  module's variables are the record \<open>Browser\<close>, a handler is a function on it. What the page shows
  beside the terminal is a constructor of \<open>js_status\<close> or \<open>overlay\<close>; the countdown to the
  expiry, fonts, menus and the wake lock are only displayed and left out. What is written to the
  terminal is recorded in \<open>b_term\<close>. A WebSocket is a number, with its \<^verbatim>\<open>readyState\<close> and the
  messages that wait in its promise queue; \<^verbatim>\<open>setTimeout(connect, d)\<close> adds \<open>d\<close> to
  \<open>b_timers\<close>. The page is served in a secure context, where Web Crypto exists. Sealing is
  asynchronous: \<open>js_send\<close> takes the sequence number and starts it, and \<open>seal_done\<close> hands the
  result to the socket. Deriving the keys, and opening a received frame, is one step with what
  follows. Random bytes, the fitted size of the terminal, the answer to a question and the stored
  fingerprint are the record \<open>benv\<close>.
\<close>

record benv =
  be_nonce :: bytes
  be_fit :: "int \<times> int"
  be_rnd :: bytes
  be_confirm :: bool
  be_stored :: "jsstr option"

subsection \<open>keys.js\<close>

definition control_unit :: "16 word \<Rightarrow> 16 word option" where
  "control_unit u =
     (let c = unat (upper_ascii u) in if 64 \<le> c \<and> c < 128 then Some (upper_ascii u AND 0x1F) else None)"

fun parsePayload :: "jsstr \<Rightarrow> jsstr" where
  "parsePayload [] = []"
| "parsePayload [u] = [u]"
| "parsePayload (u # v # us) =
     (if u = of_char (CHR ''^'')
      then (case control_unit v of Some c \<Rightarrow> [c] | None \<Rightarrow> [u, v]) @ parsePayload us
      else u # parsePayload (v # us))"

definition unit_digit :: "16 word \<Rightarrow> bool" where
  "unit_digit u \<longleftrightarrow> 48 \<le> unat u \<and> unat u \<le> 57"

definition unit_letter :: "16 word \<Rightarrow> bool" where
  "unit_letter u \<longleftrightarrow> 65 \<le> unat u \<and> unat u \<le> 90 \<or> 97 \<le> unat u \<and> unat u \<le> 122"

text \<open>What follows \<open>n\<close> numbers separated by semicolons.\<close>

fun after_numbers :: "nat \<Rightarrow> jsstr \<Rightarrow> jsstr option" where
  "after_numbers 0 s = Some s"
| "after_numbers (Suc n) s =
     (let r = dropWhile unit_digit s in
      if s = [] \<or> \<not> unit_digit (hd s) then None
      else if n = 0 then Some r
      else (case r of [] \<Rightarrow> None | c # r' \<Rightarrow> if c = of_char (CHR '';'') then after_numbers n r' else None))"

definition csi_report :: "jsstr \<Rightarrow> bool" where
  "csi_report s \<longleftrightarrow>
     (case s of
        [] \<Rightarrow> False
      | c # r \<Rightarrow>
          c \<in> set (js ''<>?'')
            \<and> (let t = dropWhile (\<lambda>u. unit_digit u \<or> u = of_char (CHR '';'')) r;
                   t' = (if t \<noteq> [] \<and> hd t = of_char (CHR ''$'') then tl t else t)
               in length t' = 1 \<and> unit_letter (hd t'))
          \<or> c = of_char (CHR ''M'') \<and> length r = 3
          \<or> s = js ''I'' \<or> s = js ''O'')
     \<or> after_numbers 3 s \<in> {Some (js ''M''), Some (js ''t'')}
     \<or> dropWhile unit_digit s = js ''n''
     \<or> after_numbers 2 s \<in> {Some (js ''R''), Some (js ''$y'')}"

definition isTerminalReport :: "jsstr \<Rightarrow> bool" where
  "isTerminalReport d \<longleftrightarrow>
     (case d of
        e # c # r \<Rightarrow>
          e = 0x1B \<and>
          (c = of_char (CHR ''['') \<and> csi_report r
           \<or> (c = of_char (CHR ''P'') \<or> c = of_char (CHR '']''))
              \<and> (r \<noteq> [] \<and> last r = 0x07 \<or> last_n 2 r = [0x1B, of_char (CHR 0x5C)]))
      | _ \<Rightarrow> False)"

subsection \<open>The page's state\<close>

datatype ready = Connecting | Opened | Closing | Closed

datatype js_status =
    StLoading | StWaiting | StConnected | StReconnecting | StRunnerGone | StGoingAway | StRetryingBusy
  | StOtherControls | StNotGranted | StAsking | StFrameFailed | StLost | StBusy | StEnded | StExited int
  | StClosed | StLeft

datatype overlay =
    OvBrokenLink | OvLost | OvNotFound | OvBusy | OvStillBusy | OvMismatch | OvVerify | OvPassphrase | OvDistrust

datatype term_write = TermBytes bytes | TermExited int | TermEnded | TermLeft

record Browser =
  b_id :: jsstr
  b_frag :: jsstr
  b_needPass :: bool
  b_open :: "JsCipher option"
  b_seal :: "JsCipher option"
  b_fp :: jsstr
  b_ws :: "nat option"
  b_next :: nat
  b_ready :: "nat \<Rightarrow> ready"
  b_mute :: "nat list"
  b_queue :: "nat \<Rightarrow> wsmsg list"
  b_outSeq :: int
  b_lastSeq :: int
  b_viewerId :: jsstr
  b_hasControl :: bool
  b_controlPending :: bool
  b_controlTimer :: bool
  b_ptyCols :: u16
  b_ptyRows :: u16
  b_ended :: bool
  b_noReconnect :: bool
  b_exitSeen :: bool
  b_backoff :: nat
  b_ctrlArmed :: bool
  b_everConnected :: bool
  b_failCount :: nat
  b_busyRetries :: nat
  b_busyRetrying :: bool
  b_everDecoded :: bool
  b_mismatchTimer :: "bool option"
  b_status :: js_status
  b_overlay :: "overlay option"
  b_term :: "term_write list"
  b_sealing :: "(nat \<times> bytes) list"
  b_sent :: "(nat \<times> bytes) list"
  b_timers :: "nat list"

definition NEVER_CONNECTED_FAILS :: nat where "NEVER_CONNECTED_FAILS = 3"
definition MISSING_SESSION_FAILS :: nat where "MISSING_SESSION_FAILS = 20"
definition PASTE_CONFIRM_LEN :: nat where "PASTE_CONFIRM_LEN = 1024"

subsection \<open>The session from the address\<close>

record location =
  l_pathname :: jsstr
  l_hash :: jsstr

fun js_split :: "16 word \<Rightarrow> jsstr \<Rightarrow> jsstr list" where
  "js_split c [] = [[]]"
| "js_split c (x # s) =
     (if x = c then [] # js_split c s else (x # hd (js_split c s)) # tl (js_split c s))"

definition page_id :: "location \<Rightarrow> jsstr option" where
  "page_id l =
     (let segs = filter (\<lambda>s. s \<noteq> []) (js_split (of_char (CHR ''/'')) (l_pathname l))
      in decodeURIComponent (if segs = [] then [] else last segs))"

definition page_needPass :: "location \<Rightarrow> bool" where
  "page_needPass l \<longleftrightarrow> last_n 2 (drop 1 (l_hash l)) = js ''.p''"

definition page_frag :: "location \<Rightarrow> jsstr" where
  "page_frag l =
     (let f = drop 1 (l_hash l) in if page_needPass l then take (length f - 2) f else f)"

text \<open>The variables when the module starts, and the page that is loaded at an address.\<close>

definition fresh_page :: "jsstr \<Rightarrow> jsstr \<Rightarrow> bool \<Rightarrow> Browser" where
  "fresh_page i frag needPass =
     \<lparr>b_id = i, b_frag = frag, b_needPass = needPass, b_open = None, b_seal = None, b_fp = [],
      b_ws = None, b_next = 0, b_ready = (\<lambda>_. Closed), b_mute = [], b_queue = (\<lambda>_. []), b_outSeq = 0,
      b_lastSeq = 0, b_viewerId = [], b_hasControl = False, b_controlPending = False, b_controlTimer = False,
      b_ptyCols = 80, b_ptyRows = 24, b_ended = False, b_noReconnect = False, b_exitSeen = False,
      b_backoff = 500, b_ctrlArmed = False, b_everConnected = False, b_failCount = 0, b_busyRetries = 0,
      b_busyRetrying = False, b_everDecoded = False, b_mismatchTimer = None, b_status = StLoading,
      b_overlay = None, b_term = [], b_sealing = [], b_sent = [], b_timers = []\<rparr>"

definition page_init :: "location \<Rightarrow> Browser option" where
  "page_init l = map_option (\<lambda>i. fresh_page i (page_frag l) (page_needPass l)) (page_id l)"

subsection \<open>Sending\<close>

definition clearControlPending :: "Browser \<Rightarrow> Browser" where
  "clearControlPending st = st\<lparr>b_controlPending := False, b_controlTimer := False\<rparr>"

definition ws_open :: "Browser \<Rightarrow> bool" where
  "ws_open st \<longleftrightarrow> (case b_ws st of None \<Rightarrow> False | Some w \<Rightarrow> b_ready st w = Opened)"

definition js_send :: "benv \<Rightarrow> byte \<Rightarrow> bytes \<Rightarrow> Browser \<Rightarrow> Browser" where
  "js_send e kind payload st =
     (case b_ws st of
        None \<Rightarrow> st
      | Some w \<Rightarrow>
          if b_ready st w \<noteq> Opened then st
          else
            let s = num (b_outSeq st + 1); st1 = st\<lparr>b_outSeq := s\<rparr>
            in case (encodeViewerPayload (b_viewerId st) payload, b_seal st) of
                 (Some p, Some c) \<Rightarrow> st1\<lparr>b_sealing := b_sealing st @ [(w, jsSeal c (be_nonce e) s kind p)]\<rparr>
               | _ \<Rightarrow> st1)"

text \<open>The \<open>i\<close>-th seal in progress is done; a socket that is not open discards the frame.\<close>

definition seal_done :: "nat \<Rightarrow> Browser \<Rightarrow> Browser" where
  "seal_done i st =
     (if i < length (b_sealing st) then
        let (w, fr) = b_sealing st ! i; st1 = st\<lparr>b_sealing := take i (b_sealing st) @ drop (Suc i) (b_sealing st)\<rparr>
        in if b_ready st w = Opened then st1\<lparr>b_sent := b_sent st @ [(w, fr)]\<rparr> else st1
      else st)"

definition sendResize :: "benv \<Rightarrow> int \<Rightarrow> int \<Rightarrow> Browser \<Rightarrow> Browser" where
  "sendResize e cols rows st = (if \<not> b_hasControl st then st else js_send e jsResize (encodeResize cols rows) st)"

text \<open>Without control the page only resizes its own terminal.\<close>

definition applySize :: "benv \<Rightarrow> Browser \<Rightarrow> Browser" where
  "applySize e st = (if b_hasControl st then sendResize e (fst (be_fit e)) (snd (be_fit e)) st else st)"

definition requestControl :: "benv \<Rightarrow> Browser \<Rightarrow> Browser" where
  "requestControl e st = (js_send e jsCtrlReq [] st)\<lparr>b_controlPending := True, b_controlTimer := True\<rparr>"

definition control_timeout :: "Browser \<Rightarrow> Browser" where
  "control_timeout st =
     (if b_controlPending st \<and> \<not> b_hasControl st then (clearControlPending st)\<lparr>b_status := StNotGranted\<rparr>
      else st\<lparr>b_controlTimer := False\<rparr>)"

definition click_control :: "benv \<Rightarrow> Browser \<Rightarrow> Browser" where
  "click_control e st =
     (if b_ended st then st
      else if b_hasControl st
        then applySize e (clearControlPending ((js_send e jsCtrlRel [] st)\<lparr>b_hasControl := False\<rparr>))
      else requestControl e st)"

definition sendInput :: "benv \<Rightarrow> bool \<Rightarrow> jsstr \<Rightarrow> Browser \<Rightarrow> Browser" where
  "sendInput e confirmPaste d st =
     (if \<not> b_hasControl st then
        (if \<not> b_ended st \<and> \<not> b_controlPending st \<and> ws_open st
         then (requestControl e st)\<lparr>b_status := StAsking\<rparr> else st)
      else
        let hasNewline = (length d > 2 \<and> list_ex (\<lambda>u. u = 10 \<or> u = 13) d)
        in if confirmPaste \<and> (hasNewline \<or> length d > PASTE_CONFIRM_LEN) \<and> \<not> be_confirm e then st
           else js_send e jsInput (TextEncode d) st)"

definition onData :: "benv \<Rightarrow> jsstr \<Rightarrow> Browser \<Rightarrow> Browser" where
  "onData e d st =
     (if \<not> b_hasControl st \<and> isTerminalReport d then st
      else if b_ctrlArmed st \<and> length d = 1
        then sendInput e True (case control_unit (hd d) of Some c \<Rightarrow> [c] | None \<Rightarrow> d) (st\<lparr>b_ctrlArmed := False\<rparr>)
      else sendInput e True d st)"

definition KEYS :: "string \<rightharpoonup> jsstr" where
  "KEYS = map_of
     [(''esc'', [0x1B]), (''tab'', [0x09]), (''up'', 0x1B # js ''[A''), (''down'', 0x1B # js ''[B''),
      (''left'', 0x1B # js ''[D''), (''right'', 0x1B # js ''[C''), (''bksp'', [0x7F]), (''enter'', [0x0D]),
      (''ctrlc'', [0x03]), (''ctrld'', [0x04])]"

definition CTRL_KEYS :: "string \<rightharpoonup> jsstr" where
  "CTRL_KEYS = map_of
     [(''up'', 0x1B # js ''[1;5A''), (''down'', 0x1B # js ''[1;5B''), (''left'', 0x1B # js ''[1;5D''),
      (''right'', 0x1B # js ''[1;5C'')]"

text \<open>The buttons of the key bar name the keys of \<open>KEYS\<close>.\<close>

definition touchKey :: "benv \<Rightarrow> string \<Rightarrow> Browser \<Rightarrow> Browser" where
  "touchKey e name st =
     (case (if b_ctrlArmed st \<and> CTRL_KEYS name \<noteq> None then CTRL_KEYS name else KEYS name) of
        None \<Rightarrow> st
      | Some s \<Rightarrow> sendInput e True s (st\<lparr>b_ctrlArmed := False\<rparr>))"

definition click_ctrl :: "Browser \<Rightarrow> Browser" where
  "click_ctrl st = st\<lparr>b_ctrlArmed := \<not> b_ctrlArmed st\<rparr>"

subsection \<open>Connecting\<close>

definition connect :: "benv \<Rightarrow> Browser \<Rightarrow> Browser" where
  "connect e st =
     (if b_ended st \<or> b_noReconnect st then st
      else st\<lparr>b_viewerId := bytesToHex (be_rnd e), b_ws := Some (b_next st), b_next := Suc (b_next st),
              b_ready := (b_ready st)(b_next st := Connecting)\<rparr>)"

fun groups_of :: "nat \<Rightarrow> 'a list \<Rightarrow> 'a list list" where
  "groups_of n xs = (if xs = [] \<or> n = 0 then [] else take n xs # groups_of n (drop n xs))"

declare groups_of.simps [simp del]

definition groupFingerprint :: "jsstr \<Rightarrow> jsstr" where
  "groupFingerprint f =
     (case groups_of 4 f of [] \<Rightarrow> [] | g # gs \<Rightarrow> g @ concat (map (\<lambda>x. of_char (CHR ''-'') # x) gs))"

text \<open>\<^verbatim>\<open>start\<close>: the promise of a key that cannot be made is rejected, and nothing follows.\<close>

definition start :: "benv \<Rightarrow> jsstr \<Rightarrow> Browser \<Rightarrow> Browser" where
  "start e passphrase st =
     (let secret = (case b64urlToBytes (b_frag st) of None \<Rightarrow> [] | Some s \<Rightarrow> s)
      in if b_id st = [] \<or> length secret \<noteq> 32 then st\<lparr>b_overlay := Some OvBrokenLink\<rparr>
         else case jsDeriveKeys secret (b_id st) passphrase of
           None \<Rightarrow> st
         | Some keys \<Rightarrow>
             (case (jsNewCipher (js_r2v keys) (TextEncode (b_id st)), jsNewCipher (js_v2r keys) (TextEncode (b_id st))) of
                (Some oc, Some sc) \<Rightarrow>
                  let f = groupFingerprint (js_fingerprint keys);
                      st1 = st\<lparr>b_open := Some oc, b_seal := Some sc, b_fp := f\<rparr>;
                      st2 = (if be_stored e = Some f then st1 else st1\<lparr>b_overlay := Some OvVerify\<rparr>)
                  in connect e st2
              | _ \<Rightarrow> st))"

definition boot :: "benv \<Rightarrow> Browser \<Rightarrow> Browser" where
  "boot e st = (if b_needPass st then st\<lparr>b_overlay := Some OvPassphrase\<rparr> else start e [] st)"

definition enter_passphrase :: "benv \<Rightarrow> jsstr \<Rightarrow> Browser \<Rightarrow> Browser" where
  "enter_passphrase e v st = (if v = [] then st else start e v (st\<lparr>b_overlay := None\<rparr>))"

text \<open>A socket is closed by the page; with its handler removed, its close event does nothing.\<close>

definition ws_shut :: "Browser \<Rightarrow> Browser" where
  "ws_shut st =
     (case b_ws st of
        None \<Rightarrow> st
      | Some w \<Rightarrow> st\<lparr>b_mute := w # b_mute st, b_ws := None,
                      b_ready := (b_ready st)(w := (if b_ready st w = Closed then Closed else Closing))\<rparr>)"

definition retryWithPassphrase :: "benv \<Rightarrow> jsstr \<Rightarrow> Browser \<Rightarrow> Browser" where
  "retryWithPassphrase e passphrase st =
     start e passphrase
       (clearControlPending ((ws_shut st)
          \<lparr>b_mismatchTimer := None, b_everDecoded := False, b_lastSeq := 0, b_outSeq := 0, b_hasControl := False,
           b_status := StReconnecting\<rparr>))"

definition leave :: "Browser \<Rightarrow> Browser" where
  "leave st =
     (if b_ended st then st
      else (ws_shut (clearControlPending (st\<lparr>b_ended := True, b_noReconnect := True, b_hasControl := False\<rparr>)))
             \<lparr>b_term := b_term st @ [TermLeft], b_status := StLeft\<rparr>)"

text \<open>The timer's variable keeps its value after the timer fired: \<open>Some False\<close>.\<close>

definition mismatch_timeout :: "Browser \<Rightarrow> Browser" where
  "mismatch_timeout st =
     (let st1 = st\<lparr>b_mismatchTimer := Some False\<rparr>
      in if b_everDecoded st1 then st1 else st1\<lparr>b_overlay := Some OvMismatch\<rparr>)"

definition showVerify :: "Browser \<Rightarrow> Browser" where
  "showVerify st = (if b_fp st = [] then st else st\<lparr>b_overlay := Some OvVerify\<rparr>)"

definition fingerprint_mismatch :: "Browser \<Rightarrow> Browser" where
  "fingerprint_mismatch st = (leave st)\<lparr>b_overlay := Some OvDistrust\<rparr>"

subsection \<open>Receiving\<close>

text \<open>A handler returns whether it ended without an exception.\<close>

definition b_dispatch :: "benv \<Rightarrow> byte \<Rightarrow> bytes \<Rightarrow> Browser \<Rightarrow> Browser \<times> bool" where
  "b_dispatch e kind payload st =
     (if kind = jsHello then
        (case decodeHello payload of
           None \<Rightarrow> (st, False)
         | Some (base_seq, cols, rows) \<Rightarrow>
             let st1 = st\<lparr>b_outSeq := max (b_outSeq st) (num (base_seq - 1)), b_ptyCols := cols, b_ptyRows := rows\<rparr>;
                 st2 = (if b_ended st1 then st1 else st1\<lparr>b_status := StConnected\<rparr>)
             in (applySize e st2, True))
      else if kind = jsOutput then (st\<lparr>b_term := b_term st @ [TermBytes payload]\<rparr>, True)
      else if kind = jsControl then
        (let state = decodeControl payload; wasPending = b_controlPending st;
             st1 = (clearControlPending st)\<lparr>b_hasControl := (state = jsGranted)\<rparr>
         in (if state = jsGranted then (applySize e st1)\<lparr>b_status := StConnected\<rparr>
             else if wasPending \<and> state = jsTaken then st1\<lparr>b_status := StOtherControls\<rparr>
             else if wasPending then st1\<lparr>b_status := StNotGranted\<rparr>
             else st1, True))
      else if kind = jsExit then
        (case decodeExit payload of
           None \<Rightarrow> (st, False)
         | Some code \<Rightarrow>
             (clearControlPending (st\<lparr>b_term := b_term st @ [TermExited code], b_ended := True, b_noReconnect := True,
                b_exitSeen := True, b_hasControl := False, b_status := StExited code\<rparr>), True))
      else (st, True))"

definition on_busy :: "Browser \<Rightarrow> Browser" where
  "on_busy st =
     (if \<not> b_everConnected st then st\<lparr>b_noReconnect := True, b_overlay := Some OvBusy\<rparr>
      else
        let n = Suc (b_busyRetries st)
        in if n > MISSING_SESSION_FAILS
           then st\<lparr>b_busyRetries := n, b_ended := True, b_noReconnect := True, b_status := StBusy,
                   b_overlay := Some OvStillBusy\<rparr>
           else st\<lparr>b_busyRetries := n, b_busyRetrying := True, b_status := StRetryingBusy,
                   b_timers := b_timers st @ [min (500 * 2 ^ (n - 1)) 8000]\<rparr>)"

definition on_bye :: "(string \<times> json) list \<Rightarrow> Browser \<Rightarrow> Browser" where
  "on_bye m st =
     (let st1 = clearControlPending (st\<lparr>b_ended := True, b_noReconnect := True, b_hasControl := False\<rparr>)
      in if b_exitSeen st1 then st1
         else if obj_get m ''reason'' = Some (JStr ''ended'')
           then st1\<lparr>b_term := b_term st1 @ [TermEnded], b_status := StEnded\<rparr>
         else st1\<lparr>b_status := StClosed\<rparr>)"

definition on_control_object :: "(string \<times> json) list \<Rightarrow> Browser \<Rightarrow> Browser" where
  "on_control_object m st =
     (let t = obj_get m ''t''; say = (\<lambda>s. if b_ended st then st else st\<lparr>b_status := s\<rparr>)
      in if t = Some (JStr ''peer_join'') then say StConnected
         else if t = Some (JStr ''peer_left'') then say StRunnerGone
         else if t = Some (JStr ''going_away'') then say StGoingAway
         else if t = Some (JStr ''busy'') then on_busy st
         else if t = Some (JStr ''bye'') then on_bye m st
         else st)"

text \<open>A member of \<^verbatim>\<open>null\<close> throws; a value that is not an object has no member \<open>t\<close>.\<close>

definition onControlText :: "bytes \<Rightarrow> Browser \<Rightarrow> Browser \<times> bool" where
  "onControlText data st =
     (case parse_json data of
        None \<Rightarrow> (st, True)
      | Some JNull \<Rightarrow> (st, False)
      | Some (JObj m) \<Rightarrow> (on_control_object m st, True)
      | Some _ \<Rightarrow> (st, True))"

definition b_accept :: "int \<Rightarrow> Browser \<Rightarrow> Browser \<times> bool" where
  "b_accept seq st = (if seq \<le> b_lastSeq st then (st, False) else (st\<lparr>b_lastSeq := seq\<rparr>, True))"

definition onMessage :: "benv \<Rightarrow> wsmsg \<Rightarrow> Browser \<Rightarrow> Browser \<times> bool" where
  "onMessage e m st =
     (case m of
        WsText t \<Rightarrow> onControlText t st
      | WsBinary fr \<Rightarrow>
          (case Option.bind (b_open st) (\<lambda>c. jsOpen c fr) of
             None \<Rightarrow>
               (if b_everDecoded st \<or> b_mismatchTimer st \<noteq> None then st else st\<lparr>b_mismatchTimer := Some True\<rparr>, True)
           | Some (seq, kind, payload) \<Rightarrow>
               (case b_accept seq (st\<lparr>b_everDecoded := True, b_busyRetries := 0, b_mismatchTimer := None\<rparr>) of
                  (st1, False) \<Rightarrow> (st1, True)
                | (st1, True) \<Rightarrow> b_dispatch e kind payload st1)))"

text \<open>One link of the promise chain of socket \<open>w\<close>.\<close>

definition process :: "benv \<Rightarrow> nat \<Rightarrow> Browser \<Rightarrow> Browser" where
  "process e w st =
     (case b_queue st w of
        [] \<Rightarrow> st
      | m # ms \<Rightarrow>
          (case onMessage e m (st\<lparr>b_queue := (b_queue st)(w := ms)\<rparr>) of
             (st1, ok) \<Rightarrow> if ok \<or> b_ended st1 then st1 else st1\<lparr>b_status := StFrameFailed\<rparr>))"

definition isBusyControl :: "bytes \<Rightarrow> bool" where
  "isBusyControl data \<longleftrightarrow>
     (case parse_json data of Some (JObj m) \<Rightarrow> obj_get m ''t'' = Some (JStr ''busy'') | _ \<Rightarrow> False)"

definition ws_onmessage :: "nat \<Rightarrow> wsmsg \<Rightarrow> Browser \<Rightarrow> Browser" where
  "ws_onmessage w m st =
     (let st1 = (if case m of WsText t \<Rightarrow> isBusyControl t | WsBinary _ \<Rightarrow> False then st
                 else st\<lparr>b_everConnected := True, b_failCount := 0\<rparr>)
      in st1\<lparr>b_queue := (b_queue st1)(w := b_queue st1 w @ [m])\<rparr>)"

definition ws_onopen :: "nat \<Rightarrow> Browser \<Rightarrow> Browser" where
  "ws_onopen w st = st\<lparr>b_ready := (b_ready st)(w := Opened), b_status := StWaiting, b_backoff := 500\<rparr>"

definition onclose :: "Browser \<Rightarrow> Browser" where
  "onclose st =
     (if b_ended st \<or> b_noReconnect st then st
      else if b_busyRetrying st then st\<lparr>b_busyRetrying := False\<rparr>
      else
        let st1 = st\<lparr>b_failCount := Suc (b_failCount st)\<rparr>
        in if b_failCount st1 \<ge> (if b_everConnected st1 then MISSING_SESSION_FAILS else NEVER_CONNECTED_FAILS)
           then (if b_everConnected st1
                 then st1\<lparr>b_noReconnect := True, b_ended := True, b_status := StLost, b_overlay := Some OvLost\<rparr>
                 else st1\<lparr>b_noReconnect := True, b_overlay := Some OvNotFound\<rparr>)
           else st1\<lparr>b_status := StReconnecting, b_timers := b_timers st1 @ [b_backoff st1],
                    b_backoff := min (b_backoff st1 * 2) 8000\<rparr>)"

definition ws_onclose :: "nat \<Rightarrow> Browser \<Rightarrow> Browser" where
  "ws_onclose w st =
     (let st1 = st\<lparr>b_ready := (b_ready st)(w := Closed)\<rparr>
      in if w \<in> set (b_mute st1) then st1 else onclose st1)"

text \<open>An error event, on whatever socket, closes the current one.\<close>

definition ws_onerror :: "Browser \<Rightarrow> Browser" where
  "ws_onerror st =
     (case b_ws st of
        None \<Rightarrow> st
      | Some w \<Rightarrow> st\<lparr>b_ready := (b_ready st)(w := (if b_ready st w = Closed then Closed else Closing))\<rparr>)"

definition fire_connect :: "benv \<Rightarrow> nat \<Rightarrow> Browser \<Rightarrow> Browser" where
  "fire_connect e i st = connect e (st\<lparr>b_timers := take i (b_timers st) @ drop (Suc i) (b_timers st)\<rparr>)"

subsection \<open>Events\<close>

datatype b_event =
    EvOpen nat | EvMessage nat wsmsg | EvProcess nat | EvError nat | EvClose nat | EvSealed nat | EvConnect nat
  | EvControlTimeout | EvMismatchTimeout
  | EvType jsstr | EvTouch string | EvPaste jsstr | EvShortcut jsstr | EvResize | EvControl | EvCtrl | EvLeave
  | EvVerify | EvMatch | EvNoMatch | EvPassphrase jsstr | EvRetry jsstr

primrec b_enabled :: "b_event \<Rightarrow> Browser \<Rightarrow> bool" where
  "b_enabled (EvOpen w) st \<longleftrightarrow> b_ready st w = Connecting"
| "b_enabled (EvMessage w m) st \<longleftrightarrow> b_ready st w = Opened"
| "b_enabled (EvProcess w) st \<longleftrightarrow> b_queue st w \<noteq> []"
| "b_enabled (EvError w) st \<longleftrightarrow> w < b_next st \<and> b_ready st w \<noteq> Closed"
| "b_enabled (EvClose w) st \<longleftrightarrow> w < b_next st \<and> b_ready st w \<noteq> Closed"
| "b_enabled (EvSealed i) st \<longleftrightarrow> i < length (b_sealing st)"
| "b_enabled (EvConnect i) st \<longleftrightarrow> i < length (b_timers st)"
| "b_enabled EvControlTimeout st \<longleftrightarrow> b_controlTimer st"
| "b_enabled EvMismatchTimeout st \<longleftrightarrow> b_mismatchTimer st = Some True"
| "b_enabled (EvType d) st \<longleftrightarrow> True"
| "b_enabled (EvTouch k) st \<longleftrightarrow> True"
| "b_enabled (EvPaste d) st \<longleftrightarrow> True"
| "b_enabled (EvShortcut s) st \<longleftrightarrow> True"
| "b_enabled EvResize st \<longleftrightarrow> True"
| "b_enabled EvControl st \<longleftrightarrow> True"
| "b_enabled EvCtrl st \<longleftrightarrow> True"
| "b_enabled EvLeave st \<longleftrightarrow> True"
| "b_enabled EvVerify st \<longleftrightarrow> True"
| "b_enabled EvMatch st \<longleftrightarrow> b_overlay st = Some OvVerify"
| "b_enabled EvNoMatch st \<longleftrightarrow> b_overlay st = Some OvVerify"
| "b_enabled (EvPassphrase v) st \<longleftrightarrow> b_overlay st = Some OvPassphrase"
| "b_enabled (EvRetry v) st \<longleftrightarrow> b_overlay st = Some OvMismatch \<and> b_needPass st \<and> v \<noteq> []"

primrec b_handle :: "benv \<Rightarrow> b_event \<Rightarrow> Browser \<Rightarrow> Browser" where
  "b_handle e (EvOpen w) st = ws_onopen w st"
| "b_handle e (EvMessage w m) st = ws_onmessage w m st"
| "b_handle e (EvProcess w) st = process e w st"
| "b_handle e (EvError w) st = ws_onerror st"
| "b_handle e (EvClose w) st = ws_onclose w st"
| "b_handle e (EvSealed i) st = seal_done i st"
| "b_handle e (EvConnect i) st = fire_connect e i st"
| "b_handle e EvControlTimeout st = control_timeout st"
| "b_handle e EvMismatchTimeout st = mismatch_timeout st"
| "b_handle e (EvType d) st = onData e d st"
| "b_handle e (EvTouch k) st = touchKey e k st"
| "b_handle e (EvPaste d) st = (if d = [] then st else sendInput e True d st)"
| "b_handle e (EvShortcut s) st = sendInput e False (parsePayload s) st"
| "b_handle e EvResize st = applySize e st"
| "b_handle e EvControl st = click_control e st"
| "b_handle e EvCtrl st = click_ctrl st"
| "b_handle e EvLeave st = leave st"
| "b_handle e EvVerify st = showVerify st"
| "b_handle e EvMatch st = st\<lparr>b_overlay := None\<rparr>"
| "b_handle e EvNoMatch st = fingerprint_mismatch st"
| "b_handle e (EvPassphrase v) st = enter_passphrase e v st"
| "b_handle e (EvRetry v) st = retryWithPassphrase e v (st\<lparr>b_overlay := None\<rparr>)"

inductive b_step :: "b_event \<Rightarrow> Browser \<Rightarrow> Browser \<Rightarrow> bool" where
  event: "b_enabled ev st \<Longrightarrow> b_step ev st (b_handle e ev st)"

inductive_simps b_step_event: "b_step ev st st'"

inductive page_reach :: "location \<Rightarrow> Browser \<Rightarrow> bool" for l where
  loaded: "page_init l = Some st \<Longrightarrow> page_reach l (boot e st)"
| step: "page_reach l st \<Longrightarrow> b_step ev st st' \<Longrightarrow> page_reach l st'"

end
