(* ===== verification/Replay.thy ===== *)
theory Replay
  imports Main
begin

text \<open>
  What protects a reader of sealed frames against replays, stated once for the runner and for the
  viewer in the browser. \<open>opens\<close> tells who sent a frame and under which number, \<open>floor\<close> is the
  largest number accepted from a sender, \<open>handle\<close> takes a frame, \<open>step\<close> is everything else that
  may happen, and \<open>view\<close> is the part of the state that a refused frame must not touch.
\<close>

locale replay_guard =
  fixes opens :: "'s \<Rightarrow> 'f \<Rightarrow> ('v \<times> 'n::linorder) option"
    and floor :: "'s \<Rightarrow> 'v \<Rightarrow> 'n"
    and handle :: "'e \<Rightarrow> 'f \<Rightarrow> 's \<Rightarrow> 's"
    and step :: "'s \<Rightarrow> 's \<Rightarrow> bool"
    and view :: "'s \<Rightarrow> 'x"
  assumes unopened: "opens s f = None \<Longrightarrow> view (handle e f s) = view s"
    and stale: "opens s f = Some (v, n) \<Longrightarrow> n \<le> floor s v \<Longrightarrow> view (handle e f s) = view s"
    and raises: "opens s f = Some (v, n) \<Longrightarrow> n \<le> floor (handle e f s) v"
    and handle_opens: "opens (handle e f s) = opens s"
    and step_opens: "step s s' \<Longrightarrow> opens s' = opens s"
    and step_floor: "step s s' \<Longrightarrow> floor s v \<le> floor s' v"
begin

lemma run_opens: "step\<^sup>*\<^sup>* s s' \<Longrightarrow> opens s' = opens s"
  by (induction rule: rtranclp_induct) (simp_all add: step_opens)

lemma run_floor: "step\<^sup>*\<^sup>* s s' \<Longrightarrow> floor s v \<le> floor s' v"
  by (induction rule: rtranclp_induct) (auto intro: order_trans step_floor)

text \<open>A frame takes effect once: \<open>f'\<close> stands for the same sealed bytes in another wrapping.\<close>

lemma replayed:
  assumes "opens s f' = opens s f" "step\<^sup>*\<^sup>* (handle e f s) s'"
  shows "view (handle e' f' s') = view s'"
proof (cases "opens s f'")
  case None
  then have "opens s' f' = None" using run_opens [OF assms(2)] handle_opens by simp
  then show ?thesis by (rule unopened)
next
  case (Some x)
  obtain v n where x: "x = (v, n)" by (cases x)
  have "opens s' f' = Some (v, n)" using Some x run_opens [OF assms(2)] handle_opens by simp
  moreover have "n \<le> floor (handle e f s) v" using Some x assms(1) by (intro raises) simp
  then have "n \<le> floor s' v" using run_floor [OF assms(2), of v] by simp
  ultimately show ?thesis by (rule stale)
qed

end

end
