(* ===== verification/BrowserSafe.thy ===== *)
theory BrowserSafe
  imports Browser Replay
begin

text \<open>
  What the page promises on its own: it shows a frame once, it sends input only with control, and it
  stops trying to reach a session that is gone.
\<close>

subsection \<open>A page in a session\<close>

text \<open>For the witnesses: a page whose socket 0 is open, with the keys of the theory \<open>Examples\<close>.\<close>

definition ex_js :: "byte \<Rightarrow> JsCipher" where
  "ex_js k = \<lparr>jc_block = aes_encrypt (replicate 32 k), jc_aad = str_bytes ''sess''\<rparr>"

definition ex_page :: Browser where
  "ex_page = (fresh_page (js ''sess'') (js ''secret'') False)
     \<lparr>b_open := Some (ex_js 1), b_seal := Some (ex_js 2), b_ws := Some 0, b_next := 1,
      b_ready := (\<lambda>w. if w = 0 then Opened else Closed), b_viewerId := js ''self-a''\<rparr>"

definition ex_benv :: benv where
  "ex_benv = \<lparr>be_nonce = replicate 12 0, be_fit = (100, 30), be_rnd = [], be_confirm = True, be_stored = None\<rparr>"

lemma ex_page_fields [simp]:
  "b_open ex_page = Some (ex_js 1)" "b_seal ex_page = Some (ex_js 2)" "b_ws ex_page = Some 0"
  "b_ready ex_page 0 = Opened" "b_next ex_page = 1" "b_mute ex_page = []"
  "b_outSeq ex_page = 0" "b_lastSeq ex_page = 0" "b_viewerId ex_page = js ''self-a''" "\<not> b_hasControl ex_page"
  "\<not> b_controlPending ex_page" "\<not> b_ended ex_page" "\<not> b_noReconnect ex_page" "\<not> b_busyRetrying ex_page"
  "b_failCount ex_page = 0" "\<not> b_everConnected ex_page" "b_backoff ex_page = 500" "b_timers ex_page = []"
  "b_sealing ex_page = []" "b_sent ex_page = []" "b_term ex_page = []"
  by (simp_all add: ex_page_def fresh_page_def)

lemma ex_benv_fields [simp]:
  "be_nonce ex_benv = replicate 12 0" "be_fit ex_benv = (100, 30)" "be_confirm ex_benv"
  by (simp_all add: ex_benv_def)

subsection \<open>What the handlers leave alone\<close>

lemma js_send_frame [simp]:
  "b_id (js_send e k p st) = b_id st" "b_open (js_send e k p st) = b_open st" "b_seal (js_send e k p st) = b_seal st"
  "b_ws (js_send e k p st) = b_ws st" "b_ready (js_send e k p st) = b_ready st"
  "b_lastSeq (js_send e k p st) = b_lastSeq st" "b_viewerId (js_send e k p st) = b_viewerId st"
  "b_hasControl (js_send e k p st) = b_hasControl st" "b_ended (js_send e k p st) = b_ended st"
  "b_controlPending (js_send e k p st) = b_controlPending st" "b_everDecoded (js_send e k p st) = b_everDecoded st"
  "b_term (js_send e k p st) = b_term st" "b_sent (js_send e k p st) = b_sent st" "b_next (js_send e k p st) = b_next st"
  by (simp_all add: js_send_def Let_def split: option.split)

lemma clearControlPending_frame [simp]:
  "b_open (clearControlPending st) = b_open st" "b_seal (clearControlPending st) = b_seal st"
  "b_ws (clearControlPending st) = b_ws st" "b_ready (clearControlPending st) = b_ready st"
  "b_lastSeq (clearControlPending st) = b_lastSeq st" "b_outSeq (clearControlPending st) = b_outSeq st"
  "b_viewerId (clearControlPending st) = b_viewerId st" "b_hasControl (clearControlPending st) = b_hasControl st"
  "b_ended (clearControlPending st) = b_ended st" "b_everDecoded (clearControlPending st) = b_everDecoded st"
  "b_term (clearControlPending st) = b_term st" "b_sealing (clearControlPending st) = b_sealing st"
  "b_sent (clearControlPending st) = b_sent st" "b_id (clearControlPending st) = b_id st"
  "b_exitSeen (clearControlPending st) = b_exitSeen st"
  by (simp_all add: clearControlPending_def)

lemma applySize_frame [simp]:
  "b_open (applySize e st) = b_open st" "b_seal (applySize e st) = b_seal st" "b_lastSeq (applySize e st) = b_lastSeq st"
  "b_hasControl (applySize e st) = b_hasControl st" "b_term (applySize e st) = b_term st"
  "b_ended (applySize e st) = b_ended st" "b_everDecoded (applySize e st) = b_everDecoded st"
  "b_ws (applySize e st) = b_ws st" "b_ready (applySize e st) = b_ready st" "b_viewerId (applySize e st) = b_viewerId st"
  "b_sent (applySize e st) = b_sent st"
  by (simp_all add: applySize_def sendResize_def)

lemma requestControl_frame [simp]:
  "b_open (requestControl e st) = b_open st" "b_seal (requestControl e st) = b_seal st"
  "b_lastSeq (requestControl e st) = b_lastSeq st" "b_hasControl (requestControl e st) = b_hasControl st"
  "b_term (requestControl e st) = b_term st" "b_everDecoded (requestControl e st) = b_everDecoded st"
  "b_ended (requestControl e st) = b_ended st"
  by (simp_all add: requestControl_def)

lemma sendInput_frame [simp]:
  "b_open (sendInput e c d st) = b_open st" "b_seal (sendInput e c d st) = b_seal st"
  "b_lastSeq (sendInput e c d st) = b_lastSeq st" "b_hasControl (sendInput e c d st) = b_hasControl st"
  "b_term (sendInput e c d st) = b_term st" "b_everDecoded (sendInput e c d st) = b_everDecoded st"
  by (simp_all add: sendInput_def Let_def)

lemma dispatch_keeps [simp]:
  "b_open (fst (b_dispatch e k p st)) = b_open st" "b_seal (fst (b_dispatch e k p st)) = b_seal st"
  "b_lastSeq (fst (b_dispatch e k p st)) = b_lastSeq st" "b_everDecoded (fst (b_dispatch e k p st)) = b_everDecoded st"
  by (simp_all add: b_dispatch_def Let_def split: option.split)

lemma on_busy_keeps [simp]:
  "b_open (on_busy st) = b_open st" "b_seal (on_busy st) = b_seal st" "b_lastSeq (on_busy st) = b_lastSeq st"
  "b_everDecoded (on_busy st) = b_everDecoded st" "b_sealing (on_busy st) = b_sealing st"
  "b_outSeq (on_busy st) = b_outSeq st" "b_hasControl (on_busy st) = b_hasControl st" "b_term (on_busy st) = b_term st"
  by (simp_all add: on_busy_def Let_def)

lemma on_bye_keeps [simp]:
  "b_open (on_bye m st) = b_open st" "b_seal (on_bye m st) = b_seal st" "b_lastSeq (on_bye m st) = b_lastSeq st"
  "b_everDecoded (on_bye m st) = b_everDecoded st" "b_sealing (on_bye m st) = b_sealing st"
  "b_outSeq (on_bye m st) = b_outSeq st" "\<not> b_hasControl (on_bye m st)"
  by (simp_all add: on_bye_def Let_def)

lemma control_text_rule:
  assumes "P st" "\<And>x. P (st\<lparr>b_status := x\<rparr>)" "P (on_busy st)" "\<And>m. P (on_bye m st)"
  shows "P (fst (onControlText t st))"
proof -
  have "P (on_control_object m st)" for m using assms by (simp add: on_control_object_def Let_def)
  then show ?thesis using assms(1) by (simp add: onControlText_def split: option.split json.split)
qed

lemma control_text_keeps [simp]:
  "b_open (fst (onControlText t st)) = b_open st" "b_seal (fst (onControlText t st)) = b_seal st"
  "b_lastSeq (fst (onControlText t st)) = b_lastSeq st" "b_everDecoded (fst (onControlText t st)) = b_everDecoded st"
  "b_sealing (fst (onControlText t st)) = b_sealing st" "b_outSeq (fst (onControlText t st)) = b_outSeq st"
  by (rule control_text_rule; simp)+

lemma ws_shut_keeps [simp]:
  "b_open (ws_shut st) = b_open st" "b_seal (ws_shut st) = b_seal st" "b_lastSeq (ws_shut st) = b_lastSeq st"
  "b_sealing (ws_shut st) = b_sealing st" "b_hasControl (ws_shut st) = b_hasControl st"
  "b_everDecoded (ws_shut st) = b_everDecoded st"
  by (simp_all add: ws_shut_def split: option.split)

subsection \<open>Frames are shown once\<close>

definition page_opens :: "Browser \<Rightarrow> bytes \<Rightarrow> (unit \<times> int) option" where
  "page_opens st fr = map_option (\<lambda>(seq, kind, p). ((), seq)) (Option.bind (b_open st) (\<lambda>c. jsOpen c fr))"

text \<open>Everything but the three variables that record that a frame was authentic.\<close>

definition page_view :: "Browser \<Rightarrow> Browser" where
  "page_view st = st\<lparr>b_everDecoded := True, b_busyRetries := 0, b_mismatchTimer := None\<rparr>"

definition page_step :: "Browser \<Rightarrow> Browser \<Rightarrow> bool" where
  "page_step st st' \<longleftrightarrow> (\<exists>ev. b_step ev st st' \<and> (\<forall>v. ev \<noteq> EvPassphrase v \<and> ev \<noteq> EvRetry v))"

lemma onMessage_keeps:
  "b_open (fst (onMessage e m st)) = b_open st" "b_lastSeq st \<le> b_lastSeq (fst (onMessage e m st))"
  by (auto simp: onMessage_def b_accept_def split: wsmsg.split option.split)

lemma page_event_keeps:
  assumes "\<And>v. ev \<noteq> EvPassphrase v \<and> ev \<noteq> EvRetry v"
  shows "b_open (b_handle e ev st) = b_open st" "b_lastSeq st \<le> b_lastSeq (b_handle e ev st)"
proof -
  note defs = ws_onopen_def ws_onmessage_def ws_onerror_def ws_onclose_def onclose_def seal_done_def fire_connect_def
    connect_def control_timeout_def mismatch_timeout_def onData_def touchKey_def click_control_def click_ctrl_def
    leave_def showVerify_def fingerprint_mismatch_def
  have proc: "b_open (process e w st) = b_open st" "b_lastSeq st \<le> b_lastSeq (process e w st)" for w
    by (cases "b_queue st w";
        use onMessage_keeps [where e = e and st = "st\<lparr>b_queue := (b_queue st)(w := tl (b_queue st w))\<rparr>"] in
          \<open>simp add: process_def case_prod_unfold\<close>)+
  show "b_open (b_handle e ev st) = b_open st" "b_lastSeq st \<le> b_lastSeq (b_handle e ev st)"
    using assms proc by (cases ev; simp add: defs Let_def split: option.split prod.split)+
qed

interpretation page: replay_guard page_opens "\<lambda>st _. b_lastSeq st" "\<lambda>e fr st. fst (onMessage e (WsBinary fr) st)"
    page_step page_view
proof
  fix s :: Browser and f and e and v :: unit and n
  show "page_opens s f = None \<Longrightarrow> page_view (fst (onMessage e (WsBinary f) s)) = page_view s"
    by (auto simp: page_opens_def onMessage_def page_view_def)
  show "page_opens s f = Some (v, n) \<Longrightarrow> n \<le> b_lastSeq s
      \<Longrightarrow> page_view (fst (onMessage e (WsBinary f) s)) = page_view s"
    by (auto simp: page_opens_def onMessage_def page_view_def b_accept_def)
  show "page_opens s f = Some (v, n) \<Longrightarrow> n \<le> b_lastSeq (fst (onMessage e (WsBinary f) s))"
    by (auto simp: page_opens_def onMessage_def b_accept_def)
  show "page_opens (fst (onMessage e (WsBinary f) s)) = page_opens s"
    by (rule ext) (simp add: page_opens_def onMessage_keeps)
next
  fix s s' and v :: unit
  assume "page_step s s'"
  then obtain ev e where ev: "s' = b_handle e ev s" "\<And>v. ev \<noteq> EvPassphrase v \<and> ev \<noteq> EvRetry v"
    by (auto simp: page_step_def b_step_event)
  then show "page_opens s' = page_opens s" "b_lastSeq s \<le> b_lastSeq s'"
    using page_event_keeps [OF ev(2)] by (auto simp: page_opens_def)
qed

text \<open>
  C16: The page shows a frame at most once. After it handled a sealed frame, whatever happens on
  the page in between - typing, other frames, any number of lost and new connections - the same bytes
  change nothing when they arrive again, on any socket: nothing is written to the terminal, control
  and size stay, nothing is sent. Only the variables that record that some frame was authentic are
  set. Entering a passphrase starts anew and is not part of the run.
\<close>

theorem page_replay_rejected:
  assumes "page_step\<^sup>*\<^sup>* (fst (onMessage e (WsBinary fr) st)) st'"
  shows "page_view (fst (onMessage e' (WsBinary fr) st')) = page_view st'"
  by (rule page.replayed [OF refl assms])

theorem page_replay_rejected_witness:
  "page_view (fst (onMessage ex_benv (WsBinary (jsSeal (ex_js 1) (replicate 12 0) 1 jsOutput [7]))
       (leave (fst (onMessage ex_benv (WsBinary (jsSeal (ex_js 1) (replicate 12 0) 1 jsOutput [7])) ex_page)))))
   = page_view (leave (fst (onMessage ex_benv (WsBinary (jsSeal (ex_js 1) (replicate 12 0) 1 jsOutput [7])) ex_page)))"
proof -
  have "page_step st (leave st)" for st
    by (auto simp: page_step_def b_step_event intro!: exI [of _ EvLeave])
  then show ?thesis by (intro page_replay_rejected r_into_rtranclp)
qed

subsection \<open>Input needs control\<close>

text \<open>A handler seals at most one frame, of a kind and payload with the property \<open>P\<close>.\<close>

definition sealing_only :: "benv \<Rightarrow> (byte \<Rightarrow> bytes \<Rightarrow> bool) \<Rightarrow> Browser \<Rightarrow> Browser \<Rightarrow> bool" where
  "sealing_only e P st st' \<longleftrightarrow>
     set (b_sealing st') \<subseteq> set (b_sealing st)
     \<or> (\<exists>w c kind p. b_sealing st' = b_sealing st @ [(w, jsSeal c (be_nonce e) (b_outSeq st') kind p)]
          \<and> b_seal st' = Some c \<and> P kind p)"

lemma sealing_only_same: "b_sealing st' = b_sealing st \<Longrightarrow> sealing_only e P st st'"
  by (simp add: sealing_only_def)

lemma sealing_only_cong:
  assumes "sealing_only e P st1 st2" "b_sealing st1 = b_sealing st" "b_sealing st' = b_sealing st2"
    "b_outSeq st' = b_outSeq st2" "b_seal st' = b_seal st2"
  shows "sealing_only e P st st'"
  using assms by (simp add: sealing_only_def)

lemma sealing_js_send:
  assumes "\<And>q. encodeViewerPayload (b_viewerId st) p = Some q \<Longrightarrow> P k q"
  shows "sealing_only e P st (js_send e k p st)"
  using assms by (auto simp: js_send_def sealing_only_def Let_def split: option.split)

lemma sealing_applySize:
  "(\<And>q. P jsResize q) \<Longrightarrow> sealing_only e P st (applySize e st)"
  by (simp add: applySize_def sendResize_def sealing_js_send sealing_only_same)

definition input_ok :: "benv \<Rightarrow> b_event \<Rightarrow> jsstr \<Rightarrow> bool" where
  "input_ok e ev d \<longleftrightarrow>
     be_confirm e \<or> (\<exists>s. ev = EvShortcut s)
     \<or> length d \<le> PASTE_CONFIRM_LEN \<and> (length d \<le> 2 \<or> 10 \<notin> set d \<and> 13 \<notin> set d)"

definition may_seal :: "benv \<Rightarrow> b_event \<Rightarrow> Browser \<Rightarrow> Browser \<Rightarrow> byte \<Rightarrow> bytes \<Rightarrow> bool" where
  "may_seal e ev st st' kind p \<longleftrightarrow>
     (if b_hasControl st
      then kind = jsResize \<or> kind = jsCtrlRel
        \<or> kind = jsInput \<and> (\<exists>d. encodeViewerPayload (b_viewerId st) (TextEncode d) = Some p \<and> input_ok e ev d)
      else kind = jsCtrlReq \<or> kind = jsResize \<and> b_hasControl st')"

lemma sealing_sendInput:
  assumes "c \<or> (\<exists>s. ev = EvShortcut s)" "b_hasControl st' = b_hasControl st"
  shows "sealing_only e (may_seal e ev st st') st (sendInput e c d st)"
proof (cases "b_hasControl st")
  case True
  then have "sendInput e c d st = st \<or> sendInput e c d st = js_send e jsInput (TextEncode d) st \<and> input_ok e ev d"
    using assms(1) by (auto simp: sendInput_def Let_def list_ex_iff input_ok_def)
  moreover have "sealing_only e (may_seal e ev st st') st (js_send e jsInput (TextEncode d) st)" if "input_ok e ev d"
    using True that by (intro sealing_js_send) (auto simp: may_seal_def)
  ultimately show ?thesis by (auto intro: sealing_only_same)
next
  case False
  have "sealing_only e (may_seal e ev st st') st (js_send e jsCtrlReq [] st)"
    using False by (intro sealing_js_send) (simp add: may_seal_def)
  then show ?thesis using False
    by (auto simp: sendInput_def requestControl_def intro: sealing_only_same sealing_only_cong)
qed

lemma may_seal_ctrlArmed [simp]:
  "may_seal e ev (st\<lparr>b_ctrlArmed := x\<rparr>) st' = may_seal e ev st st'"
  by (simp add: may_seal_def fun_eq_iff)

lemma sealing_dispatch:
  assumes "b_hasControl st' = b_hasControl (fst (b_dispatch e k p st))"
    "b_hasControl st0 = b_hasControl st"
  shows "sealing_only e (may_seal e ev st0 st') st (fst (b_dispatch e k p st))"
proof -
  have size: "sealing_only e (may_seal e ev st0 st') x (applySize e x)"
    if "b_hasControl x \<longrightarrow> b_hasControl st'" for x
    using that by (cases "b_hasControl x")
      (auto simp: applySize_def sealing_only_same may_seal_def sendResize_def intro!: sealing_js_send)
  consider (hello) b c r where "k = jsHello" "decodeHello p = Some (b, c, r)"
    | (granted) "k = jsControl" "decodeControl p = jsGranted"
    | (other) "\<not> (k = jsHello \<and> decodeHello p \<noteq> None)" "\<not> (k = jsControl \<and> decodeControl p = jsGranted)"
    by (cases "decodeHello p") auto
  then show ?thesis
  proof cases
    case hello
    let ?x = "st\<lparr>b_outSeq := max (b_outSeq st) (num (b - 1)), b_ptyCols := c, b_ptyRows := r\<rparr>"
    let ?y = "if b_ended st then ?x else ?x\<lparr>b_status := StConnected\<rparr>"
    have d: "fst (b_dispatch e k p st) = applySize e ?y" using hello by (simp add: b_dispatch_def Let_def)
    then have "b_hasControl st' = b_hasControl ?y" using assms(1) by simp
    then have "sealing_only e (may_seal e ev st0 st') ?y (applySize e ?y)" by (intro size) simp
    then show ?thesis by (rule sealing_only_cong) (simp_all add: d)
  next
    case granted
    let ?g = "(clearControlPending st)\<lparr>b_hasControl := True\<rparr>"
    have "b_hasControl st'" using assms(1) granted by (simp add: b_dispatch_def Let_def js_const_defs)
    then have "sealing_only e (may_seal e ev st0 st') ?g (applySize e ?g)" by (intro size) simp
    then show ?thesis by (rule sealing_only_cong) (use granted in \<open>simp_all add: b_dispatch_def Let_def js_const_defs\<close>)
  next
    case other
    have "b_sealing (fst (b_dispatch e k p st)) = b_sealing st"
      using other by (cases "decodeHello p"; cases "decodeExit p") (auto simp: b_dispatch_def Let_def)
    then show ?thesis by (rule sealing_only_same)
  qed
qed

lemma sealing_onMessage:
  assumes "b_hasControl st' = b_hasControl (fst (onMessage e m st))" "b_hasControl st0 = b_hasControl st"
  shows "sealing_only e (may_seal e ev st0 st') st (fst (onMessage e m st))"
proof (cases m)
  case (WsBinary fr)
  show ?thesis
  proof (cases "Option.bind (b_open st) (\<lambda>c. jsOpen c fr)")
    case None
    then show ?thesis by (intro sealing_only_same) (simp add: WsBinary onMessage_def)
  next
    case (Some x)
    obtain seq k p where x: "x = (seq, k, p)" by (cases x)
    let ?st = "st\<lparr>b_everDecoded := True, b_busyRetries := 0, b_mismatchTimer := None\<rparr>"
    show ?thesis
    proof (cases "seq \<le> b_lastSeq st")
      case False
      then have m: "fst (onMessage e m st) = fst (b_dispatch e k p (?st\<lparr>b_lastSeq := seq\<rparr>))"
        using Some x by (simp add: WsBinary onMessage_def b_accept_def)
      have "sealing_only e (may_seal e ev st0 st') (?st\<lparr>b_lastSeq := seq\<rparr>) (fst (b_dispatch e k p (?st\<lparr>b_lastSeq := seq\<rparr>)))"
        using assms m by (intro sealing_dispatch) simp_all
      then show ?thesis by (rule sealing_only_cong) (simp_all add: m)
    qed (use Some x in \<open>simp add: WsBinary onMessage_def b_accept_def sealing_only_same\<close>)
  qed
qed (simp add: onMessage_def sealing_only_same)

lemma start_sealing [simp]: "b_sealing (start e v st) = b_sealing st"
  by (simp add: start_def connect_def Let_def split: option.split)

lemma sealing_process:
  assumes "st' = process e w st"
  shows "sealing_only e (may_seal e ev st st') st st'"
proof (cases "b_queue st w")
  case (Cons m ms)
  let ?st = "st\<lparr>b_queue := (b_queue st)(w := ms)\<rparr>"
  have s: "st' = (if snd (onMessage e m ?st) \<or> b_ended (fst (onMessage e m ?st)) then fst (onMessage e m ?st)
      else (fst (onMessage e m ?st))\<lparr>b_status := StFrameFailed\<rparr>)"
    using assms Cons by (simp add: process_def case_prod_unfold)
  have "sealing_only e (may_seal e ev st st') ?st (fst (onMessage e m ?st))"
    by (rule sealing_onMessage) (simp_all add: s)
  then show ?thesis by (rule sealing_only_cong) (simp_all add: s)
qed (use assms in \<open>simp add: process_def sealing_only_same\<close>)

lemma sealing_event: "sealing_only e (may_seal e ev st (b_handle e ev st)) st (b_handle e ev st)"
proof -
  have type: "sealing_only e (may_seal e ev st (b_handle e ev st)) st (sendInput e c d (st\<lparr>b_ctrlArmed := x\<rparr>))"
    if "b_hasControl (b_handle e ev st) = b_hasControl st" "c \<or> (\<exists>s. ev = EvShortcut s)" for c d x
    using sealing_sendInput [of c ev "b_handle e ev st" "st\<lparr>b_ctrlArmed := x\<rparr>" e d] that
    by (auto intro: sealing_only_cong)
  have type': "sealing_only e (may_seal e ev st (b_handle e ev st)) st (sendInput e c d st)"
    if "b_hasControl (b_handle e ev st) = b_hasControl st" "c \<or> (\<exists>s. ev = EvShortcut s)" for c d
    using sealing_sendInput [of c ev "b_handle e ev st" st e d] that by simp
  show ?thesis
  proof (cases ev)
    case (EvProcess w)
    then show ?thesis using sealing_process by simp
  next
    case (EvSealed i)
    have "set (take i xs @ drop (Suc i) xs) \<subseteq> set xs" for xs :: "(nat \<times> bytes) list"
      by (auto dest: in_set_takeD in_set_dropD)
    then show ?thesis using EvSealed by (auto simp: sealing_only_def seal_done_def Let_def split: prod.split)
  next
    case (EvType d)
    then show ?thesis using type [of True] type' [of True]
      by (auto simp: onData_def sealing_only_same split: option.split)
  next
    case (EvTouch k)
    then show ?thesis using type [of True] by (auto simp: touchKey_def sealing_only_same split: option.split)
  next
    case (EvPaste d)
    then show ?thesis using type' [of True] by (auto simp: sealing_only_same)
  next
    case (EvShortcut t)
    then show ?thesis using type' [of False] by simp
  next
    case EvResize
    then show ?thesis
      by (cases "b_hasControl st") (auto simp: applySize_def sendResize_def may_seal_def sealing_only_same intro!: sealing_js_send)
  next
    case EvControl
    have "sealing_only e (may_seal e ev st (b_handle e ev st)) st (js_send e (if b_hasControl st then jsCtrlRel else jsCtrlReq) [] st)"
      by (intro sealing_js_send) (simp add: may_seal_def)
    then show ?thesis
      by (auto simp: EvControl click_control_def requestControl_def applySize_def
          intro: sealing_only_same sealing_only_cong)
  qed (simp_all add: sealing_only_same ws_onopen_def ws_onmessage_def ws_onerror_def ws_onclose_def onclose_def
      fire_connect_def connect_def control_timeout_def mismatch_timeout_def click_ctrl_def leave_def showVerify_def
      fingerprint_mismatch_def enter_passphrase_def retryWithPassphrase_def Let_def split: option.split)
qed

text \<open>
  C15: The page sends input only with control, and no paste unasked. A frame that an event on the
  page newly seals is read by the runner under the page's next sequence number. If the page had no
  control before the event, the frame is a request for control, or the size that goes with a grant
  that just arrived: nothing that was typed leaves. If it had control the frame is a size, the release
  of control, or input; input that is long or has a line break was confirmed by the user, unless a
  single key or a saved shortcut made it.
\<close>

theorem page_input_needs_control:
  assumes "b_enabled ev st" "st' = b_handle e ev st" "length (be_nonce e) = 12"
    and "(w, fr) \<in> set (b_sealing st')" "(w, fr) \<notin> set (b_sealing st)"
  shows "\<exists>c kind p. b_seal st' = Some c \<and> Open (go_cipher c) fr = Inr (word_of_int (b_outSeq st'), kind, p)
    \<and> (if b_hasControl st
       then kind = jsResize \<or> kind = jsCtrlRel
         \<or> kind = jsInput \<and> (\<exists>d. encodeViewerPayload (b_viewerId st) (TextEncode d) = Some p \<and> input_ok e ev d)
       else kind = jsCtrlReq \<or> kind = jsResize \<and> b_hasControl st')"
proof -
  have "sealing_only e (may_seal e ev st st') st st'" using sealing_event assms(2) by simp
  then obtain c kind p where "fr = jsSeal c (be_nonce e) (b_outSeq st') kind p" "b_seal st' = Some c"
      "may_seal e ev st st' kind p"
    using assms(4,5) unfolding sealing_only_def by auto
  moreover have "Open (go_cipher c) fr = Inr (word_of_int (b_outSeq st'), kind, p)"
    using Open_sealWithNonce [OF go_cipher_ok, of "be_nonce e"] assms(3) calculation(1) by (simp add: jsSeal_go nonceLen_def)
  ultimately show ?thesis unfolding may_seal_def by blast
qed

lemma ex_viewer_payload: "encodeViewerPayload (js ''self-a'') p = Some (EncodeViewerPayload ''self-a'' p)"
  by (simp add: encodeViewerPayload_go)

theorem page_input_needs_control_witness:
  "\<exists>c kind p. b_seal (b_handle ex_benv (EvType (js ''x'')) ex_page) = Some c
     \<and> Open (go_cipher c) (jsSeal (ex_js 2) (replicate 12 0) 1 jsCtrlReq (EncodeViewerPayload ''self-a'' []))
       = Inr (1, kind, p) \<and> kind = jsCtrlReq"
proof -
  let ?st = "b_handle ex_benv (EvType (js ''x'')) ex_page"
  let ?fr = "jsSeal (ex_js 2) (replicate 12 0) 1 jsCtrlReq (EncodeViewerPayload ''self-a'' [])"
  have "\<not> isTerminalReport (js ''x'')" by (simp add: isTerminalReport_def js_def)
  then have s: "b_sealing ?st = [(0, ?fr)]" "b_outSeq ?st = 1" "\<not> b_hasControl ?st"
    by (simp_all add: onData_def sendInput_def ws_open_def requestControl_def js_send_def
        ex_viewer_payload num_exact)
  from page_input_needs_control [of "EvType (js ''x'')" ex_page ?st ex_benv 0 ?fr] s show ?thesis by simp
qed

subsection \<open>Giving up\<close>

text \<open>The pending attempt to connect is made and its socket closes again.\<close>

definition attempt_fails :: "benv \<Rightarrow> Browser \<Rightarrow> Browser" where
  "attempt_fails e st = ws_onclose (b_next st) (fire_connect e 0 st)"

definition fail_budget :: "Browser \<Rightarrow> nat" where
  "fail_budget st = (if b_everConnected st then MISSING_SESSION_FAILS else NEVER_CONNECTED_FAILS)"

definition waiting :: "Browser \<Rightarrow> bool" where
  "waiting st \<longleftrightarrow> (\<exists>d. b_timers st = [d] \<and> 500 \<le> d \<and> d \<le> 8000) \<and> \<not> b_ended st \<and> \<not> b_noReconnect st
     \<and> \<not> b_busyRetrying st \<and> 500 \<le> b_backoff st \<and> b_backoff st \<le> 8000 \<and> list_all (\<lambda>w. w < b_next st) (b_mute st)"

lemma attempt_fails_eq:
  assumes "waiting st"
  shows "b_next (attempt_fails e st) = Suc (b_next st)" "b_failCount (attempt_fails e st) = Suc (b_failCount st)"
    "b_everConnected (attempt_fails e st) = b_everConnected st"
    "Suc (b_failCount st) < fail_budget st \<Longrightarrow> waiting (attempt_fails e st)"
    "fail_budget st \<le> Suc (b_failCount st) \<Longrightarrow>
       b_noReconnect (attempt_fails e st) \<and> b_timers (attempt_fails e st) = []
       \<and> b_overlay (attempt_fails e st) = Some (if b_everConnected st then OvLost else OvNotFound)"
proof -
  obtain d where d: "b_timers st = [d]" using assms by (auto simp: waiting_def)
  have f: "\<not> b_ended st" "\<not> b_noReconnect st" "\<not> b_busyRetrying st" "b_next st \<notin> set (b_mute st)"
    using assms by (auto simp: waiting_def list_all_iff)
  note e = attempt_fails_def fire_connect_def connect_def ws_onclose_def onclose_def Let_def
  show "b_next (attempt_fails e st) = Suc (b_next st)" "b_failCount (attempt_fails e st) = Suc (b_failCount st)"
    "b_everConnected (attempt_fails e st) = b_everConnected st"
    using d f by (simp_all add: e)
  show "waiting (attempt_fails e st)" if "Suc (b_failCount st) < fail_budget st"
    using d f assms that by (simp add: e waiting_def fail_budget_def list_all_iff) auto
  show "b_noReconnect (attempt_fails e st) \<and> b_timers (attempt_fails e st) = []
      \<and> b_overlay (attempt_fails e st) = Some (if b_everConnected st then OvLost else OvNotFound)"
    if "fail_budget st \<le> Suc (b_failCount st)"
    using d f that by (simp add: e fail_budget_def)
qed

lemma attempts_fail:
  assumes "waiting st" "b_failCount st + j < fail_budget st"
  shows "waiting ((attempt_fails e ^^ j) st) \<and> b_failCount ((attempt_fails e ^^ j) st) = b_failCount st + j
    \<and> b_next ((attempt_fails e ^^ j) st) = b_next st + j
    \<and> b_everConnected ((attempt_fails e ^^ j) st) = b_everConnected st"
  using assms(2)
proof (induction j)
  case (Suc j)
  then show ?case using attempt_fails_eq(1-4) [of "(attempt_fails e ^^ j) st" e] by (simp add: fail_budget_def)
qed (simp add: assms(1))

text \<open>
  C32: The page stops trying. If from some moment on every attempt to connect fails, then after
  as many failures in a row as its budget allows - 3 if it was never connected, 20 otherwise - the
  page gives up: it says why, nothing is scheduled any more, and no later call of \<^verbatim>\<open>connect\<close> opens a
  socket. Before that there is always exactly one attempt scheduled, between 0.5 and 8 seconds away.
\<close>

theorem page_gives_up:
  assumes "waiting st" "b_failCount st < fail_budget st" "k = fail_budget st - b_failCount st"
  shows "(\<forall>j<k. waiting ((attempt_fails e ^^ j) st))
    \<and> b_timers ((attempt_fails e ^^ k) st) = [] \<and> b_next ((attempt_fails e ^^ k) st) = b_next st + k
    \<and> b_overlay ((attempt_fails e ^^ k) st) = Some (if b_everConnected st then OvLost else OvNotFound)
    \<and> (\<forall>e'. connect e' ((attempt_fails e ^^ k) st) = (attempt_fails e ^^ k) st)"
proof -
  have "0 < k" using assms(2,3) by simp
  then obtain j where k: "k = Suc j" using gr0_conv_Suc by blast
  have w: "\<forall>j<k. waiting ((attempt_fails e ^^ j) st)" using attempts_fail [OF assms(1)] assms(3) by simp
  have j: "waiting ((attempt_fails e ^^ j) st)" "b_failCount ((attempt_fails e ^^ j) st) = b_failCount st + j"
      "b_next ((attempt_fails e ^^ j) st) = b_next st + j" "b_everConnected ((attempt_fails e ^^ j) st) = b_everConnected st"
    using attempts_fail [OF assms(1), of j e] assms(3) k by simp_all
  then have "fail_budget ((attempt_fails e ^^ j) st) \<le> Suc (b_failCount ((attempt_fails e ^^ j) st))"
    using assms(3) k by (simp add: fail_budget_def)
  note last = attempt_fails_eq(5) [OF j(1) this, of e]
  show ?thesis using w last attempt_fails_eq(1) [OF j(1), of e] j(3,4) by (simp add: k connect_def)
qed

theorem page_gives_up_witness:
  "b_timers ((attempt_fails ex_benv ^^ 3) (ex_page\<lparr>b_timers := [500]\<rparr>)) = []
   \<and> b_overlay ((attempt_fails ex_benv ^^ 3) (ex_page\<lparr>b_timers := [500]\<rparr>)) = Some OvNotFound"
proof -
  let ?st = "ex_page\<lparr>b_timers := [500]\<rparr>"
  have st: "waiting ?st" "b_failCount ?st < fail_budget ?st" "3 = fail_budget ?st - b_failCount ?st"
      "(if b_everConnected ?st then OvLost else OvNotFound) = OvNotFound"
    by (simp_all add: waiting_def fail_budget_def NEVER_CONNECTED_FAILS_def)
  from page_gives_up [OF st(1-3), of ex_benv] show ?thesis unfolding st(4) by blast
qed

text \<open>A new passphrase starts the replay floor anew, also when the keys stay the same.\<close>

lemma retry_resets_floor:
  "b_lastSeq (retryWithPassphrase e v st) = 0" "b_outSeq (retryWithPassphrase e v st) = 0"
  by (simp_all add: retryWithPassphrase_def start_def connect_def Let_def split: option.split)

end
