(* ===== verification/Qr.thy ===== *)
theory Qr
  imports Prelude
begin

text \<open>
  \<^verbatim>\<open>src/runner/cmd/onlytty/qr.go\<close>: a QR code printed with half-block characters, two rows
  of modules per line, inside a quiet zone. The code itself comes from a library
  (\<^verbatim>\<open>rsc.io/qr\<close>): its size and its modules are arguments. A line is a list of cells; the
  bytes of a cell are in \<open>cell_bytes\<close>. The source's branches for an odd quiet zone are dead code,
  because the constant is 4; they are kept in the definition.
\<close>

definition qrQuietZone :: nat where "qrQuietZone = 4"

text \<open>The cells, named by their upper and lower module.\<close>

datatype cell = blackBlack | blackWhite | whiteBlack | whiteWhite

definition cell_bytes :: "cell \<Rightarrow> bytes" where
  "cell_bytes c =
     (case c of
        blackBlack \<Rightarrow> [0x20]
      | blackWhite \<Rightarrow> [0xE2, 0x96, 0x84]
      | whiteBlack \<Rightarrow> [0xE2, 0x96, 0x80]
      | whiteWhite \<Rightarrow> [0xE2, 0x96, 0x88])"

definition qr_cell :: "nat \<Rightarrow> (nat \<Rightarrow> nat \<Rightarrow> bool) \<Rightarrow> nat \<Rightarrow> nat \<Rightarrow> cell" where
  "qr_cell sz black y x =
     (let top = black x y;
          bottom = (if y + 1 < sz then black x (y + 1) else False)
      in if top \<and> bottom then blackBlack
         else if top \<and> \<not> bottom then blackWhite
         else if \<not> top \<and> bottom then whiteBlack
         else whiteWhite)"

text \<open>The loop over the rows, two at a time, while \<open>y \<le> size\<close>.\<close>

function qr_rows :: "nat \<Rightarrow> (nat \<Rightarrow> nat \<Rightarrow> bool) \<Rightarrow> nat \<Rightarrow> cell list list" where
  "qr_rows sz black y =
     (if y \<le> sz then
        (replicate qrQuietZone whiteWhite @ map (qr_cell sz black y) [0..<sz + 1]
           @ replicate (qrQuietZone - 1) whiteWhite)
        # qr_rows sz black (y + 2)
      else [])"
  by pat_completeness auto
termination
  by (relation "measure (\<lambda>(sz, black, y). sz + 1 - y)") auto

declare qr_rows.simps [simp del]

definition writeQRHalfBlockCode :: "nat \<Rightarrow> (nat \<Rightarrow> nat \<Rightarrow> bool) \<Rightarrow> cell list list" where
  "writeQRHalfBlockCode sz black =
     (let full = (\<lambda>c. replicate (sz + qrQuietZone * 2) c) in
      (if qrQuietZone mod 2 \<noteq> 0 then [full blackWhite] else [])
      @ replicate (qrQuietZone div 2) (full whiteWhite)
      @ qr_rows sz black 0
      @ (if qrQuietZone mod 2 = 0
         then replicate (qrQuietZone div 2 - 1) (full whiteWhite) @ [full whiteBlack]
         else replicate (qrQuietZone div 2) (full whiteWhite)))"

text \<open>The bytes written, and nothing at all when the text does not fit a code.\<close>

definition writeQRHalfBlock :: "(string \<Rightarrow> (nat \<times> (nat \<Rightarrow> nat \<Rightarrow> bool)) option) \<Rightarrow> string \<Rightarrow> bytes" where
  "writeQRHalfBlock encode url =
     (case encode url of
        None \<Rightarrow> []
      | Some (sz, black) \<Rightarrow>
          concat (map (\<lambda>line. concat (map cell_bytes line) @ [0x0A]) (writeQRHalfBlockCode sz black)))"

subsection \<open>What the printed lines show\<close>

text \<open>The module at column \<open>c\<close> and row \<open>r\<close> of the printed image is black.\<close>

definition shown :: "cell list list \<Rightarrow> nat \<Rightarrow> nat \<Rightarrow> bool" where
  "shown img c r =
     (case img ! (r div 2) ! c of
        blackBlack \<Rightarrow> True
      | blackWhite \<Rightarrow> r mod 2 = 0
      | whiteBlack \<Rightarrow> r mod 2 = 1
      | whiteWhite \<Rightarrow> False)"

lemma qr_rows_nth:
  "y + 2 * i \<le> sz \<Longrightarrow> qr_rows sz black y ! i =
     replicate qrQuietZone whiteWhite @ map (qr_cell sz black (y + 2 * i)) [0..<sz + 1]
       @ replicate (qrQuietZone - 1) whiteWhite"
proof (induction i arbitrary: y)
  case 0
  then show ?case by (simp add: qr_rows.simps [of sz black y])
next
  case (Suc i)
  then have "qr_rows sz black y ! Suc i = qr_rows sz black (y + 2) ! i"
    by (simp add: qr_rows.simps [of sz black y])
  with Suc show ?case by simp
qed

lemma length_qr_rows: "y \<le> sz + 1 \<Longrightarrow> length (qr_rows sz black y) = (sz + 2 - y) div 2"
proof (induction sz black y rule: qr_rows.induct)
  case (1 sz black y)
  show ?case
  proof (cases "y \<le> sz")
    case True
    then have "(sz + 2 - y) div 2 = Suc ((sz - y) div 2)" by (simp add: div_if)
    moreover have "length (qr_rows sz black (y + 2)) = (sz - y) div 2"
    proof (cases "y + 2 \<le> sz + 1")
      case False
      then have "sz = y" using True by simp
      then show ?thesis by (simp add: qr_rows.simps [of y black "Suc (Suc y)"])
    qed (use 1 True in simp)
    ultimately show ?thesis using True by (simp add: qr_rows.simps [of sz black y])
  next
    case False
    with 1(2) show ?thesis by (simp add: qr_rows.simps [of sz black y])
  qed
qed

lemma writeQR_lines:
  assumes "sz = 2 * n + 1"
  shows "writeQRHalfBlockCode sz black =
      replicate 2 (replicate (sz + 8) whiteWhite) @ qr_rows sz black 0
        @ [replicate (sz + 8) whiteWhite, replicate (sz + 8) whiteBlack]"
    and "length (qr_rows sz black 0) = n + 1"
proof -
  show "writeQRHalfBlockCode sz black =
      replicate 2 (replicate (sz + 8) whiteWhite) @ qr_rows sz black 0
        @ [replicate (sz + 8) whiteWhite, replicate (sz + 8) whiteBlack]"
    by (simp add: writeQRHalfBlockCode_def qrQuietZone_def Let_def replicate_Suc [where n = 0] del: replicate_Suc)
  show "length (qr_rows sz black 0) = n + 1"
    using assms length_qr_rows [of 0 sz black] by simp
qed

lemma qr_row_cell:
  assumes "2 * i \<le> sz" "c < sz + 8"
  shows "qr_rows sz black 0 ! i ! c =
    (if 4 \<le> c \<and> c < sz + 5 then qr_cell sz black (2 * i) (c - 4) else whiteWhite)"
  using assms by (auto simp: qr_rows_nth nth_append qrQuietZone_def simp del: upt_Suc)

lemma qr_rows_width: "l \<in> set (qr_rows sz black y) \<Longrightarrow> length l = sz + 8"
proof (induction sz black y rule: qr_rows.induct)
  case (1 sz black y)
  then show ?case
    by (subst (asm) (2) qr_rows.simps) (auto simp: qrQuietZone_def split: if_splits)
qed

text \<open>
  The printed QR code is the code. For a code of odd size (as QR codes are) whose modules outside
  it are white, every line has the same width, and the printed image is exactly the code with a
  quiet zone of four white modules on all four sides: the module at column \<open>c\<close> and row
  \<open>r\<close> is black if and only if it lies in the code and is black there.
\<close>

theorem qr_exact:
  assumes "odd sz" "\<And>x y. sz \<le> x \<or> sz \<le> y \<Longrightarrow> \<not> black x y"
    and "c < sz + 8" "r < sz + 8"
  shows "shown (writeQRHalfBlockCode sz black) c r =
      (4 \<le> c \<and> c < sz + 4 \<and> 4 \<le> r \<and> r < sz + 4 \<and> black (c - 4) (r - 4))
    \<and> (\<forall>line \<in> set (writeQRHalfBlockCode sz black). length line = sz + 8)"
proof
  obtain n where n: "sz = 2 * n + 1" using assms(1) by (rule oddE)
  note img = writeQR_lines [OF n, of black]
  show "\<forall>line \<in> set (writeQRHalfBlockCode sz black). length line = sz + 8"
    using qr_rows_width [of _ sz black 0] by (auto simp: img(1))
  have "r div 2 \<le> n + 4" using assms(4) n by simp
  then consider "r div 2 < 2" | "2 \<le> r div 2" "r div 2 < n + 3" | "r div 2 = n + 3" | "r div 2 = n + 4"
    by linarith
  then show "shown (writeQRHalfBlockCode sz black) c r =
      (4 \<le> c \<and> c < sz + 4 \<and> 4 \<le> r \<and> r < sz + 4 \<and> black (c - 4) (r - 4))"
  proof cases
    case 1
    then have "writeQRHalfBlockCode sz black ! (r div 2) = replicate (sz + 8) whiteWhite"
      by (simp add: img(1) nth_append del: replicate_Suc)
    moreover have "r < 4" using 1 by presburger
    ultimately show ?thesis using assms(3) by (simp add: shown_def)
  next
    case 2
    define i where "i = r div 2 - 2"
    have i: "2 * i \<le> sz" "i < n + 1" "r div 2 = i + 2" using 2 n by (simp_all add: i_def)
    then have "writeQRHalfBlockCode sz black ! (r div 2) = qr_rows sz black 0 ! i"
      by (simp add: img nth_append del: replicate_Suc)
    then have sh: "shown (writeQRHalfBlockCode sz black) c r =
        (case (if 4 \<le> c \<and> c < sz + 5 then qr_cell sz black (2 * i) (c - 4) else whiteWhite) of
           blackBlack \<Rightarrow> True | blackWhite \<Rightarrow> r mod 2 = 0 | whiteBlack \<Rightarrow> r mod 2 = 1 | whiteWhite \<Rightarrow> False)"
      by (simp add: shown_def qr_row_cell [OF i(1) assms(3)])
    have w: "c < sz + 4" if "4 \<le> c" "black (c - 4) y" for y
    proof (rule ccontr)
      assume "\<not> c < sz + 4"
      then have "sz \<le> c - 4" by linarith
      with that(2) assms(2) show False by blast
    qed
    have w': "r < sz + 4" if "4 \<le> r" "black (c - 4) (r - 4)"
    proof (rule ccontr)
      assume "\<not> r < sz + 4"
      then have "sz \<le> r - 4" by linarith
      with that(2) assms(2) show False by blast
    qed
    have r: "r = 4 + 2 * i + r mod 2" using i(3) by presburger
    show ?thesis
    proof (cases "r mod 2 = 0")
      case True
      with r have "r - 4 = 2 * i" "4 \<le> r" by simp_all
      with sh True w w' i show ?thesis
        by (auto simp: qr_cell_def Let_def not_less split: if_splits)
    next
      case False
      then have "r mod 2 = 1" by simp
      with r have "r - 4 = 2 * i + 1" "4 \<le> r" by simp_all
      with sh \<open>r mod 2 = 1\<close> w w' i show ?thesis
        by (auto simp: qr_cell_def Let_def not_less split: if_splits)
    qed
  next
    case 3
    then have "writeQRHalfBlockCode sz black ! (r div 2) = replicate (sz + 8) whiteWhite"
      by (simp add: img nth_append del: replicate_Suc)
    moreover have "sz + 4 \<le> r" using 3 n by presburger
    ultimately show ?thesis using assms(3) by (simp add: shown_def)
  next
    case 4
    then have "writeQRHalfBlockCode sz black ! (r div 2) = replicate (sz + 8) whiteBlack"
      by (simp add: img nth_append del: replicate_Suc)
    moreover have "r mod 2 = 0" "sz + 4 \<le> r" using 4 n assms(4) by presburger+
    ultimately show ?thesis using assms(3) by (simp add: shown_def)
  qed
qed

theorem qr_exact_witness:
  "shown (writeQRHalfBlockCode 21 (\<lambda>x y. x < 21 \<and> y = 20)) 4 24"
  by (subst qr_exact [THEN conjunct1]) auto

end
