(* ===== verification/CliText.thy ===== *)
theory CliText
  imports Orchestrator Qr
begin

text \<open>
  \<^verbatim>\<open>src/runner/cmd/onlytty/main.go\<close>: the pure functions of the
  command line - its choices, tokens and texts, the banner and the usage. Whether standard error
  is a terminal, the environment and random bytes are arguments; text printed for the host is
  returned as a string by the function that prints it.
\<close>

definition defaultPublicRelay :: string where "defaultPublicRelay = ''https://onlytty.com''"

subsection \<open>Choices\<close>

definition resolveControl :: "string \<Rightarrow> string + ControlMode" where
  "resolveControl controlFlag =
     (if controlFlag = ''auto'' then Inr ControlAuto
      else if controlFlag = ''view-only'' then Inr ControlViewOnly
      else if controlFlag = ''once'' then Inr ControlOnce
      else Inl controlFlag)"

text \<open>\<^verbatim>\<open>os.Getenv\<close> is the empty string for an unset variable.\<close>

definition envOr :: "(string \<Rightarrow> string) \<Rightarrow> string \<Rightarrow> string \<Rightarrow> string" where
  "envOr getenv key fallback = (if getenv key \<noteq> [] then getenv key else fallback)"

definition resolveCommand :: "(string \<Rightarrow> string) \<Rightarrow> string list \<Rightarrow> string list" where
  "resolveCommand getenv args =
     (if length args > 0 then args
      else let shell = getenv ''SHELL'' in [if shell = [] then ''/bin/sh'' else shell])"

datatype input_file = Stdin | DevTty

definition hostInput :: "bool \<Rightarrow> bool \<Rightarrow> bool \<Rightarrow> input_file" where
  "hostInput stdin_tty stderr_tty tty_opens =
     (if stdin_tty \<or> \<not> stderr_tty then Stdin else if tty_opens then DevTty else Stdin)"

definition gateLaunch :: "bool \<Rightarrow> bool \<Rightarrow> bool \<Rightarrow> bool" where
  "gateLaunch shellMode stderr_tty in_tty = (\<not> shellMode \<and> stderr_tty \<and> in_tty)"

text \<open>
  \<^verbatim>\<open>waitForStart\<close> as the reads it makes: how many of the coming reads (chunk, error) it
  consumes before the launch, \<open>None\<close> when it still waits.
\<close>

fun waitForStart :: "(bytes \<times> bool) list \<Rightarrow> nat option" where
  "waitForStart [] = None"
| "waitForStart ((chunk, err) # reads) =
     (if err \<or> list_ex (\<lambda>b. b = 0x0D \<or> b = 0x0A) chunk then Some 1
      else map_option Suc (waitForStart reads))"

subsection \<open>Texts\<close>

definition styled :: "bool \<Rightarrow> string \<Rightarrow> string \<Rightarrow> string" where
  "styled stderr_tty code s =
     (if stderr_tty then [CHR 0x1B] @ ''['' @ code @ ''m'' @ s @ [CHR 0x1B] @ ''[0m'' else s)"

definition bold :: "bool \<Rightarrow> string \<Rightarrow> string" where "bold stderr_tty s = styled stderr_tty ''1'' s"
definition dim :: "bool \<Rightarrow> string \<Rightarrow> string" where "dim stderr_tty s = styled stderr_tty ''2'' s"
definition itoa :: "int \<Rightarrow> string" where "itoa i = show_int i"

definition dash :: string where "dash = [CHR 0xE2, CHR 0x80, CHR 0x94]"

definition startPrompt :: "string list \<Rightarrow> string" where
  "startPrompt argv = ''Press Enter to start: '' @ join_with '' '' argv"

definition sessionInstruction :: "bool \<Rightarrow> string" where
  "sessionInstruction shellMode =
     (if shellMode then ''You are now inside a shared shell. Press Ctrl-D or type exit to stop sharing.''
      else ''Use the command normally here; when it exits, sharing stops.'')"

definition sessionActiveText :: "string list \<Rightarrow> bool \<Rightarrow> string" where
  "sessionActiveText argv shellMode =
     (if shellMode then ''onlytty: sharing is ACTIVE '' @ dash @ '' this shell is now shared''
      else if length argv = 0 then ''onlytty: sharing is ACTIVE''
      else ''onlytty: sharing is ACTIVE '' @ dash @ '' running: '' @ join_with '' '' argv)"

definition sessionStoppedText :: "int \<Rightarrow> string" where
  "sessionStoppedText code =
     ''OnlyTTY sharing stopped. Browser viewers are disconnected. Exit code: '' @ itoa code @ ''.''"

text \<open>\<^verbatim>\<open>notifier\<close>: what a notice writes to stderr; nothing when the child owns the screen.\<close>

definition notifier :: "bool \<Rightarrow> bool \<Rightarrow> string \<Rightarrow> bool \<Rightarrow> string" where
  "notifier stderr_tty verbose s screen_busy =
     (if \<not> stderr_tty then s @ [CHR 0x0A]
      else if verbose \<or> \<not> screen_busy then
        [CHR 0x0D, CHR 0x1B] @ ''[2K'' @ [CHR 0x1B] @ ''[2m'' @ s @ [CHR 0x1B] @ ''[0m'' @ [CHR 0x0D, CHR 0x0A]
      else [])"

text \<open>
  \<^verbatim>\<open>remaining\<close>: the time left, rounded to the second, half away from zero
  (\<^verbatim>\<open>Duration.Round\<close>), and \<^verbatim>\<open>Duration.String\<close> of whole seconds.
\<close>

definition round_second :: "int \<Rightarrow> int" where
  "round_second d =
     (let r = \<bar>d\<bar> mod Second; q = \<bar>d\<bar> - r;
          a = (if r + r < Second then q else q + Second)
      in if d < 0 then (if a > 2 ^ 63 then - (2 ^ 63) else - a) else (if a > 2 ^ 63 - 1 then 2 ^ 63 - 1 else a))"

definition remaining :: "int \<Rightarrow> int \<Rightarrow> int" where
  "remaining expires now =
     round_second (max (- (2 ^ 63)) (min (2 ^ 63 - 1) (expires * Second - now)))"

definition duration_string :: "int \<Rightarrow> string" where
  "duration_string d =
     (let u = nat (\<bar>d\<bar> div Second); s = show_nat (u mod 60) @ ''s''; m = u div 60
      in (if d < 0 then ''-'' else '''')
         @ (if m = 0 then s
            else (if m div 60 = 0 then '''' else show_nat (m div 60) @ ''h'') @ show_nat (m mod 60) @ ''m'' @ s))"

definition expiryLine :: "int \<Rightarrow> int \<Rightarrow> string" where
  "expiryLine expires now =
     (if expires \<le> 0 then ''never '' @ dash @ '' ends when the command exits''
      else ''in '' @ duration_string (remaining expires now))"

subsection \<open>Tokens, fingerprints, passphrases\<close>

definition randToken :: "bytes option \<Rightarrow> string option" where
  "randToken rnd = map_option base64_rawurl_encode rnd"

text \<open>
  The loop of \<^verbatim>\<open>formatFingerprint\<close> over the runes of the string, with the byte index of
  each; a byte that is no UTF-8 is written as U+FFFD. \<open>n\<close> bounds the number of runes.
\<close>

primrec fingerprint_loop :: "nat \<Rightarrow> nat \<Rightarrow> bytes \<Rightarrow> bytes" where
  "fingerprint_loop 0 i inp = []"
| "fingerprint_loop (Suc n) i inp =
     (if inp = [] then []
      else let k = (if rune_len inp = 0 then 1 else rune_len inp);
               r = (if rune_len inp = 0 then [0xEF, 0xBF, 0xBD] else take k inp)
           in (if 0 < i \<and> i mod 4 = 0 then [of_char CHR ''-''] else []) @ r
              @ fingerprint_loop n (i + k) (drop k inp))"

definition formatFingerprint :: "string \<Rightarrow> string" where
  "formatFingerprint fpr = bytes_str (fingerprint_loop (length fpr) 0 (str_bytes fpr))"

definition generatePassphrase :: "bytes option \<Rightarrow> string option" where
  "generatePassphrase rnd = map_option (\<lambda>b. formatFingerprint (base32_encode b)) rnd"

text \<open>\<^verbatim>\<open>promptPassphrase\<close>: the typed password, when stdin is a terminal and it can be read.\<close>

datatype prompt_error = NotInteractive | ReadFailed | EmptyPassphrase

definition promptPassphrase :: "bool \<Rightarrow> string option \<Rightarrow> prompt_error + string" where
  "promptPassphrase stdin_tty typed =
     (if \<not> stdin_tty then Inl NotInteractive
      else case typed of
        None \<Rightarrow> Inl ReadFailed
      | Some b \<Rightarrow> if length b = 0 then Inl EmptyPassphrase else Inr b)"

subsection \<open>The banner\<close>

definition nl :: string where "nl = [CHR 0x0A]"
definition crlf :: string where "crlf = [CHR 0x0D, CHR 0x0A]"

text \<open>The module version the build recorded, if any.\<close>

definition resolveVersion :: "string \<Rightarrow> string option \<Rightarrow> string" where
  "resolveVersion version build_info =
     (if version \<noteq> ''dev'' then version
      else case build_info of
        Some v \<Rightarrow> if v \<noteq> [] then v else version
      | None \<Rightarrow> version)"

definition control_desc :: "ControlMode \<Rightarrow> string" where
  "control_desc mode =
     (case mode of
        ControlViewOnly \<Rightarrow> ''view-only (viewers cannot type or resize)''
      | ControlOnce \<Rightarrow> ''the first viewer to ask is auto-granted control, once''
      | ControlAuto \<Rightarrow> ''any viewer may take control on request (auto-granted; SIGUSR1 to revoke)'')"

definition printBanner ::
  "bool \<Rightarrow> (string \<Rightarrow> (nat \<times> (nat \<Rightarrow> nat \<Rightarrow> bool)) option) \<Rightarrow> string \<Rightarrow> string \<Rightarrow> string \<Rightarrow> ControlMode
   \<Rightarrow> bool \<Rightarrow> string \<Rightarrow> bool \<Rightarrow> bool \<Rightarrow> string" where
  "printBanner stderr_tty encode link fingerprint expiry mode multiViewer_flag passphrase generated noQR =
     nl @ ''  '' @ bold stderr_tty (''onlytty '' @ dash @ '' this session is shared, end-to-end encrypted'') @ nl @ nl
     @ (if \<not> noQR then bytes_str (writeQRHalfBlock encode link) @ nl else [])
     @ ''  Link         '' @ link @ nl
     @ ''  Fingerprint  '' @ fingerprint @ ''  '' @ dim stderr_tty ''(must match in the browser)'' @ nl
     @ ''  Expires      '' @ expiry @ nl
     @ (if multiViewer_flag then ''  Viewers      multiple allowed; one controls at a time'' @ nl else [])
     @ ''  Control      '' @ control_desc mode @ nl
     @ (if generated then
          nl @ ''  '' @ bold stderr_tty (''Passphrase '' @ dash @ '' send in a DIFFERENT channel than the link:'') @ nl
          @ ''  '' @ bold stderr_tty passphrase @ nl
        else if passphrase \<noteq> [] then
          ''  Passphrase   '' @ dim stderr_tty (''required in the browser (the link alone won'' @ [CHR 0x27] @ ''t decrypt)'') @ nl
        else [])
     @ nl @ ''  '' @ dim stderr_tty ''Scan the QR or open the link. The relay only ever sees ciphertext.'' @ nl @ nl"

definition startWaitText :: "bool \<Rightarrow> string list \<Rightarrow> string" where
  "startWaitText stderr_tty argv =
     ''  '' @ bold stderr_tty (startPrompt argv) @ '' '' @ dim stderr_tty ''(the QR stays visible until you do)''"

definition printStartNotice :: "bool \<Rightarrow> string list \<Rightarrow> bool \<Rightarrow> string" where
  "printStartNotice stderr_tty argv shellMode =
     crlf @ bold stderr_tty (sessionActiveText argv shellMode) @ crlf
     @ dim stderr_tty (sessionInstruction shellMode) @ crlf @ crlf"

definition printStopNotice :: "bool \<Rightarrow> int \<Rightarrow> string" where
  "printStopNotice stderr_tty code = crlf @ bold stderr_tty (sessionStoppedText code) @ crlf"

subsection \<open>The usage text\<close>

text \<open>
  A flag as \<^verbatim>\<open>flag.VisitAll\<close> shows it (in the order of the names): its name, its text, and
  its default. The width counts the bytes of a name; all names are ASCII.
\<close>

record flag_info =
  fl_name :: string
  fl_usage :: string
  fl_def :: string

definition flag_list :: "(string \<Rightarrow> string) \<Rightarrow> flag_info list" where
  "flag_list getenv =
     (let ellipsis = [CHR 0xE2, CHR 0x80, CHR 0xA6] in
     [\<lparr>fl_name = ''allow-insecure'', fl_usage = ''allow a plain http:// relay to a non-local host (local testing only)'',
        fl_def = ''false''\<rparr>,
      \<lparr>fl_name = ''control'', fl_usage = ''viewer control policy: auto (auto-grant control to any viewer that requests it ''
        @ dash @ '' no host prompt; revoke with SIGUSR1), view-only (never), once (auto-grant the first request only)'',
        fl_def = ''auto''\<rparr>,
      \<lparr>fl_name = ''multi-viewer'', fl_usage = ''allow multiple browser viewers; only one viewer may control the terminal at a time'',
        fl_def = ''false''\<rparr>,
      \<lparr>fl_name = ''no-qr'', fl_usage = ''print the link without a QR code'', fl_def = ''false''\<rparr>,
      \<lparr>fl_name = ''passphrase'', fl_usage = ''prompt for a passphrase to mix into the keys (shared out-of-band; the link alone won''
        @ [CHR 0x27] @ ''t decrypt)'', fl_def = ''false''\<rparr>,
      \<lparr>fl_name = ''passphrase-generate'', fl_usage = ''generate a strong passphrase host-side and display it (implies --passphrase)'',
        fl_def = ''false''\<rparr>,
      \<lparr>fl_name = ''server'', fl_usage = ''relay origin (or ONLYTTY_SERVER); e.g. a self-hosted https://relay.example.com'',
        fl_def = envOr getenv ''ONLYTTY_SERVER'' defaultPublicRelay\<rparr>,
      \<lparr>fl_name = ''ttl'', fl_usage = ''session lifetime before the link expires; 0 (default) = no expiry '' @ dash
        @ '' the session lives as long as onlytty runs and ends when the command exits (the relay may impose a maximum)'',
        fl_def = ''0s''\<rparr>,
      \<lparr>fl_name = ''verbose'', fl_usage = ''always print viewer connect/disconnect/control notices inline; by default they show only when no full-screen or line-drawing app (editor, Claude Code, ''
        @ ellipsis @ '') is active'', fl_def = ''false''\<rparr>,
      \<lparr>fl_name = ''version'', fl_usage = ''print version and exit'', fl_def = ''false''\<rparr>])"

fun flag_width :: "nat \<Rightarrow> flag_info list \<Rightarrow> nat" where
  "flag_width width [] = width"
| "flag_width width (f # fs) =
     (let n = length (fl_name f) + length ''--'' in flag_width (if n > width then n else width) fs)"

definition pad_right :: "nat \<Rightarrow> string \<Rightarrow> string" where
  "pad_right n s = s @ replicate (n - length s) CHR '' ''"

definition usage_line :: "nat \<Rightarrow> flag_info \<Rightarrow> string" where
  "usage_line width f =
     (let def_text = (if fl_def f \<noteq> [] \<and> fl_def f \<noteq> ''false'' then '' (default '' @ fl_def f @ '')'' else [])
      in ''  '' @ pad_right width (''--'' @ fl_name f) @ ''  '' @ fl_usage f @ def_text @ nl)"

definition usage :: "(string \<Rightarrow> string) \<Rightarrow> string" where
  "usage getenv =
     ''onlytty '' @ dash @ '' share a command or your shell to a browser, end-to-end encrypted.'' @ nl @ nl
     @ ''Usage:'' @ nl
     @ ''  onlytty [flags]              share your $SHELL'' @ nl
     @ ''  onlytty [flags] -- <cmd>...  share one command'' @ nl @ nl
     @ ''Flags:'' @ nl
     @ (let fs = flag_list getenv in concat (map (usage_line (flag_width 0 fs)) fs))
     @ nl @ ''Examples:'' @ nl @ ''  onlytty -- claude'' @ nl @ ''  onlytty --control view-only -- htop'' @ nl
     @ ''  onlytty --multi-viewer -- claude'' @ nl @ ''  onlytty --passphrase'' @ nl"

subsection \<open>What they promise\<close>

lemma rune_len_ascii: "b < 0x80 \<Longrightarrow> rune_len (b # bs) = 1"
  by simp

lemma fingerprint_loop_ascii:
  "list_all (\<lambda>b. b < 0x80) inp \<Longrightarrow> length inp \<le> n \<Longrightarrow>
   fingerprint_loop n i inp =
     concat (map (\<lambda>(j, b). (if 0 < j \<and> j mod 4 = 0 then [of_char CHR ''-''] else []) @ [b]) (List.enumerate i inp))"
proof (induction n arbitrary: i inp)
  case (Suc n)
  then show ?case by (cases inp) (auto simp: Let_def rune_len_ascii)
qed simp

lemma filter_groups:
  "list_all (\<lambda>b. b \<noteq> d) bs \<Longrightarrow>
   filter (\<lambda>b. b \<noteq> d) (concat (map (\<lambda>(j, b). (if P j then [d] else []) @ [b]) (List.enumerate i bs))) = bs"
  by (induction bs arbitrary: i) auto

lemma length_groups:
  "length (concat (map (\<lambda>(j, b). (if P j then [d] else []) @ [b]) (List.enumerate i bs)))
   = length bs + length (filter P [i..<i + length bs])"
proof (induction bs arbitrary: i)
  case (Cons b bs)
  have "[i..<i + length (b # bs)] = i # [Suc i..<Suc i + length bs]"
    by (simp add: upt_conv_Cons del: upt_Suc)
  with Cons [of "Suc i"] show ?case by (simp del: upt_Suc)
qed simp

lemma dashes: "length (filter (\<lambda>j. 0 < j \<and> j mod 4 = 0) [0..<n]) = (n - 1) div 4"
proof (induction n)
  case (Suc n)
  have "n div 4 = (n - 1) div 4 + (if 0 < n \<and> n mod 4 = 0 then 1 else 0)"
    by (cases n) (simp_all add: div_Suc)
  with Suc show ?case by auto
qed simp

text \<open>
  What the host compares is the fingerprint. Grouping a base32 fingerprint changes nothing but
  dashes: without them it is the fingerprint again, there is one dash after every fourth
  character but the last, and so sixteen characters become nineteen.
\<close>

theorem fingerprint_groups:
  assumes "set fpr \<subseteq> set base32_alphabet"
  shows "filter (\<lambda>c. c \<noteq> CHR ''-'') (formatFingerprint fpr) = fpr
    \<and> length (formatFingerprint fpr) = length fpr + (length fpr - 1) div 4"
proof -
  let ?b = "str_bytes fpr" and ?d = "of_char CHR ''-'' :: byte"
  have a: "list_all (\<lambda>c. (of_char c :: byte) < 0x80 \<and> (of_char c :: byte) \<noteq> ?d) base32_alphabet"
    by code_simp
  then have b: "list_all (\<lambda>b. b < 0x80) ?b" "list_all (\<lambda>b. b \<noteq> ?d) ?b"
    using assms by (auto simp: list_all_iff str_bytes_def)
  let ?l = "fingerprint_loop (length fpr) 0 ?b"
  have l: "?l = concat (map (\<lambda>(j, b). (if 0 < j \<and> j mod 4 = 0 then [?d] else []) @ [b]) (List.enumerate 0 ?b))"
    using b(1) by (simp add: fingerprint_loop_ascii)
  have f: "filter (\<lambda>b. b \<noteq> ?d) ?l = ?b" unfolding l by (rule filter_groups [OF b(2)])
  have key: "char_of (unat a) = CHR ''-'' \<longleftrightarrow> a = ?d" for a :: byte
    by (metis byte_char_inverse char_byte_inverse)
  have "filter (\<lambda>c. c \<noteq> CHR ''-'') (bytes_str x) = bytes_str (filter (\<lambda>b. b \<noteq> ?d) x)" for x
    by (induction x) (simp_all add: bytes_str_def key)
  then have "filter (\<lambda>c. c \<noteq> CHR ''-'') (formatFingerprint fpr) = fpr"
    using f by (simp add: formatFingerprint_def)
  moreover have "length ?l = length fpr + (length fpr - 1) div 4"
    using length_groups [of "\<lambda>j. 0 < j \<and> j mod 4 = 0" ?d 0 ?b] dashes [of "length fpr"] unfolding l by simp
  ultimately show ?thesis by (simp add: formatFingerprint_def)
qed

theorem fingerprint_groups_witness:
  "length (formatFingerprint ''ABCDEFGHIJKLMNOP'') = 19"
  using fingerprint_groups [of "''ABCDEFGHIJKLMNOP''"] by (simp add: base32_alphabet_def)

subsection \<open>What the banner shows\<close>

lemma sublist_left: "sublist x a \<Longrightarrow> sublist x (a @ b)"
  and sublist_right: "sublist x b \<Longrightarrow> sublist x (a @ b)"
  by (metis sublist_append_rightI sublist_order.order.trans, metis sublist_append_leftI sublist_order.order.trans)

lemma sublist_bold: "sublist x (bold tty x)"
  unfolding bold_def styled_def by (cases tty) (simp_all only: if_True if_False, blast intro: sublist_left sublist_right)

lemmas printed = sublist_left sublist_right sublist_order.order_refl sublist_bold

lemma banner_shows:
  "sublist link (printBanner tty enc link fpr ex m mv pw gen qr)"
  "sublist fpr (printBanner tty enc link fpr ex m mv pw gen qr)"
  "sublist ex (printBanner tty enc link fpr ex m mv pw gen qr)"
  "sublist pw (printBanner tty enc link fpr ex m mv pw True qr)"
  unfolding printBanner_def if_True by (fast intro: printed)+

text \<open>
  The banner shows the link and the fingerprint in full, and of the passphrase only what it
  must: a prompted one is never printed - any two non-empty passphrases give the same banner -
  while a generated one, which the host has to pass on, is.
\<close>

theorem banner_passphrase:
  "sublist link (printBanner tty enc link fpr ex m mv pw gen qr)
   \<and> sublist fpr (printBanner tty enc link fpr ex m mv pw gen qr)
   \<and> sublist ex (printBanner tty enc link fpr ex m mv pw gen qr)
   \<and> sublist pw (printBanner tty enc link fpr ex m mv pw True qr)
   \<and> (pw \<noteq> [] \<longrightarrow> pw' \<noteq> [] \<longrightarrow>
        printBanner tty enc link fpr ex m mv pw False qr = printBanner tty enc link fpr ex m mv pw' False qr)"
  using banner_shows by (simp add: printBanner_def)

theorem banner_passphrase_witness:
  "printBanner False (\<lambda>_. None) ''link'' ''FP'' ''never'' ControlAuto False ''hunter2'' False True
   = printBanner False (\<lambda>_. None) ''link'' ''FP'' ''never'' ControlAuto False ''other'' False True"
  using banner_passphrase [of "''link''" False "\<lambda>_. None" "''FP''" "''never''" ControlAuto False "''hunter2''" False True "''other''"]
  by simp

end
