(* ===== verification/Control.thy ===== *)
theory Control
  imports Orchestrator
begin

text \<open>
  The contract of terminal control, as an abstract machine: at most one viewer owns the
  terminal, the host's mode decides who may become the owner, and anything may take ownership
  away. The orchestrator's handlers refine it (\<open>abs_ctl\<close> is the abstraction), and what the
  host was promised for \<^verbatim>\<open>--control view-only\<close> and \<^verbatim>\<open>--control once\<close> is proved on the
  abstract machine for whole runs, in the locale \<open>control_lock\<close>.
\<close>

record ctl =
  c_mode :: ControlMode
  c_owner :: "string option"
  c_used :: bool

definition may_grant :: "ctl \<Rightarrow> bool" where
  "may_grant s \<longleftrightarrow>
     (case c_mode s of ControlAuto \<Rightarrow> True | ControlViewOnly \<Rightarrow> False | ControlOnce \<Rightarrow> \<not> c_used s)"

definition ctl_request :: "string \<Rightarrow> ctl \<Rightarrow> ctl \<times> byte" where
  "ctl_request v s =
     (case c_owner s of
        Some w \<Rightarrow> (s, if w = v then ControlGranted else ControlTaken)
      | None \<Rightarrow>
          if may_grant s
          then (s\<lparr>c_owner := Some v, c_used := c_used s \<or> c_mode s = ControlOnce\<rparr>, ControlGranted)
          else (s, ControlReadOnly))"

definition ctl_drop :: "ctl \<Rightarrow> ctl" where
  "ctl_drop s = s\<lparr>c_owner := None\<rparr>"

definition ctl_release :: "string \<Rightarrow> ctl \<Rightarrow> ctl" where
  "ctl_release v s = (if c_owner s = Some v then ctl_drop s else s)"

inductive ctl_step :: "ctl \<Rightarrow> ctl \<Rightarrow> bool" where
  stay: "ctl_step s s"
| ask: "ctl_step s (fst (ctl_request v s))"
| let_go: "ctl_step s (ctl_drop s)"

inductive_cases ctl_stepE: "ctl_step s t"

lemmas ctl_defs = ctl_request_def ctl_drop_def may_grant_def

subsection \<open>Runs of the abstract machine\<close>

lemma ctl_step_mode: "ctl_step s t \<Longrightarrow> c_mode t = c_mode s"
  by (auto elim!: ctl_stepE simp: ctl_defs split: option.splits)

lemma ctl_run_mode: "ctl_step\<^sup>*\<^sup>* s t \<Longrightarrow> c_mode t = c_mode s"
  by (induction rule: rtranclp_induct) (simp_all add: ctl_step_mode)

lemma ctl_run_view_only:
  "ctl_step\<^sup>*\<^sup>* s t \<Longrightarrow> c_mode s = ControlViewOnly \<Longrightarrow> c_owner s = None \<Longrightarrow> c_owner t = None"
proof (induction rule: rtranclp_induct)
  case (step t u)
  then have "c_mode t = ControlViewOnly" by (simp add: ctl_run_mode)
  with step show ?case
    by (auto elim!: ctl_stepE simp: ctl_defs split: option.splits ControlMode.splits)
qed

text \<open>In once mode a spent grant is never given again, and an owner has no successor.\<close>

definition once_bound :: "string option \<Rightarrow> ctl \<Rightarrow> bool" where
  "once_bound w s \<longleftrightarrow>
     c_mode s = ControlOnce \<and> c_used s \<and> (c_owner s = None \<or> c_owner s = w)"

lemma once_bound_step: "once_bound w s \<Longrightarrow> ctl_step s t \<Longrightarrow> once_bound w t"
  by (auto elim!: ctl_stepE simp: once_bound_def ctl_defs split: option.splits ControlMode.splits)

lemma once_bound_run: "ctl_step\<^sup>*\<^sup>* s t \<Longrightarrow> once_bound w s \<Longrightarrow> once_bound w t"
  by (induction rule: rtranclp_induct) (auto intro: once_bound_step)

text \<open>From a start without owner, an owner in once mode has spent the grant.\<close>

definition ctl_inv :: "ctl \<Rightarrow> bool" where
  "ctl_inv s \<longleftrightarrow> (c_owner s = None \<or> (c_mode s = ControlAuto \<or> c_mode s = ControlOnce \<and> c_used s))"

lemma ctl_inv_step: "ctl_inv s \<Longrightarrow> ctl_step s t \<Longrightarrow> ctl_inv t"
  by (auto elim!: ctl_stepE simp: ctl_inv_def ctl_defs split: option.splits ControlMode.splits)

lemma ctl_inv_run: "ctl_step\<^sup>*\<^sup>* s t \<Longrightarrow> ctl_inv s \<Longrightarrow> ctl_inv t"
  by (induction rule: rtranclp_induct) (auto intro: ctl_inv_step)

subsection \<open>The interface: a system that refines the machine\<close>

locale control_lock =
  fixes stp :: "'s \<Rightarrow> 's \<Rightarrow> bool"
    and ab :: "'s \<Rightarrow> ctl"
    and good :: "'s \<Rightarrow> bool"
  assumes sim: "good s \<Longrightarrow> stp s t \<Longrightarrow> ctl_step (ab s) (ab t)"
    and good_step: "good s \<Longrightarrow> stp s t \<Longrightarrow> good t"
begin

lemma run_good: "stp\<^sup>*\<^sup>* s t \<Longrightarrow> good s \<Longrightarrow> good t"
  by (induction rule: rtranclp_induct) (auto intro: good_step)

lemma run_sim: "stp\<^sup>*\<^sup>* s t \<Longrightarrow> good s \<Longrightarrow> ctl_step\<^sup>*\<^sup>* (ab s) (ab t)"
proof (induction rule: rtranclp_induct)
  case (step t u)
  then have "ctl_step (ab t) (ab u)" by (auto intro: sim run_good)
  with step show ?case by auto
qed simp

lemma run_mode: "stp\<^sup>*\<^sup>* s t \<Longrightarrow> good s \<Longrightarrow> c_mode (ab t) = c_mode (ab s)"
  using run_sim ctl_run_mode by blast

lemma run_view_only:
  "stp\<^sup>*\<^sup>* s t \<Longrightarrow> good s \<Longrightarrow> c_mode (ab s) = ControlViewOnly \<Longrightarrow> c_owner (ab s) = None
   \<Longrightarrow> c_owner (ab t) = None"
  using run_sim ctl_run_view_only by blast

lemma run_once:
  "stp\<^sup>*\<^sup>* s t \<Longrightarrow> good s \<Longrightarrow> c_mode (ab s) = ControlOnce \<Longrightarrow> c_used (ab s)
   \<Longrightarrow> c_owner (ab t) = None \<or> c_owner (ab t) = c_owner (ab s)"
  using once_bound_run [OF run_sim, of s t "c_owner (ab s)"]
  by (auto simp: once_bound_def)

lemma run_single_owner:
  assumes "stp\<^sup>*\<^sup>* s t" "stp\<^sup>*\<^sup>* t u" "good s" "c_owner (ab s) = None"
    and "c_mode (ab s) = ControlOnce" "c_owner (ab t) = Some v" "c_owner (ab u) = Some w"
  shows "w = v"
proof -
  have "ctl_inv (ab s)" using assms(4) by (simp add: ctl_inv_def)
  then have "ctl_inv (ab t)" by (rule ctl_inv_run [OF run_sim [OF assms(1,3)]])
  moreover have "c_mode (ab t) = ControlOnce" using run_mode assms by metis
  ultimately have "c_used (ab t)" using assms(6) by (simp add: ctl_inv_def)
  from run_once [OF assms(2) run_good [OF assms(1,3)] \<open>c_mode (ab t) = ControlOnce\<close> this]
  show ?thesis using assms(6,7) by simp
qed

end

subsection \<open>The handlers refine the machine\<close>

definition abs_ctl :: "Orch \<Rightarrow> ctl" where
  "abs_ctl st =
     \<lparr>c_mode = control st, c_owner = (if controlOwner st = [] then None else Some (controlOwner st)),
      c_used = onceUsed st\<rparr>"

lemma abs_ctl_cong:
  "control a = control b \<Longrightarrow> controlOwner a = controlOwner b \<Longrightarrow> onceUsed a = onceUsed b
   \<Longrightarrow> abs_ctl a = abs_ctl b"
  by (simp add: abs_ctl_def)

lemma abs_ctl_handleControlRequest:
  "v \<noteq> [] \<Longrightarrow> abs_ctl (handleControlRequest e v r st) = fst (ctl_request v (abs_ctl st))"
  by (cases "control st")
    (auto simp: handleControlRequest_def emit_shapes Let_def abs_ctl_def ctl_defs)

lemma abs_ctl_handleControlRelease:
  "v \<noteq> [] \<Longrightarrow> abs_ctl (handleControlRelease e v r st) = ctl_release v (abs_ctl st)"
  by (auto simp: handleControlRelease_def emit_shapes abs_ctl_def ctl_release_def ctl_drop_def)

lemma abs_ctl_Revoke: "abs_ctl (Revoke e st) = ctl_drop (abs_ctl st)"
  by (simp add: Revoke_def emit_shapes Let_def abs_ctl_def ctl_drop_def)

lemma abs_ctl_clearControlOwner: "abs_ctl (clearControlOwner st) = ctl_drop (abs_ctl st)"
  by (simp add: clearControlOwner_def abs_ctl_def ctl_drop_def)

lemma abs_ctl_forgetViewer:
  "abs_ctl (forgetViewer r st) = abs_ctl st \<or> abs_ctl (forgetViewer r st) = ctl_drop (abs_ctl st)"
  by (auto simp: forgetViewer_def Let_def abs_ctl_def ctl_drop_def split: option.splits)

lemma ctl_step_handleControl: "ctl_step (abs_ctl st) (abs_ctl (handleControl e d st))"
proof -
  have "ctl_step (abs_ctl st) (abs_ctl (handleControlMsg e m st))" for m
  proof (cases "mT m = ''peer_left''")
    case True
    let ?st = "st\<lparr>viewers := word_of_int (if mViewers m < 0 then 0 else mViewers m)\<rparr>"
    have "abs_ctl (handleControlMsg e m st) = abs_ctl (forgetViewer (mViewerID m) ?st)"
      using True by (simp add: handleControlMsg_def Let_def emit_shapes abs_ctl_def)
    moreover have "abs_ctl ?st = abs_ctl st" by (simp add: abs_ctl_def)
    ultimately show ?thesis using abs_ctl_forgetViewer [of "mViewerID m" ?st]
      by (auto intro: ctl_step.intros)
  next
    case False
    then have "abs_ctl (handleControlMsg e m st) = abs_ctl st"
      by (simp add: handleControlMsg_def Let_def emit_shapes abs_ctl_def signal_join_def
          split: option.split)
    then show ?thesis by (simp add: ctl_step.stay)
  qed
  then show ?thesis by (simp add: handleControl_def ctl_step.stay split: option.split)
qed

lemma ctl_step_dispatch:
  "v \<noteq> [] \<Longrightarrow> ctl_step (abs_ctl st) (abs_ctl (dispatch e r v k p st))"
proof -
  assume v: "v \<noteq> []"
  consider "k = KindCtrlReq" | "k = KindCtrlRel" | "k \<noteq> KindCtrlReq" "k \<noteq> KindCtrlRel" by blast
  then show ?thesis
  proof cases
    case 1
    then have "dispatch e r v k p st = handleControlRequest e v r st"
      by (simp add: dispatch_def kind_defs)
    with v show ?thesis by (simp add: abs_ctl_handleControlRequest ctl_step.ask)
  next
    case 2
    then have "dispatch e r v k p st = handleControlRelease e v r st"
      by (simp add: dispatch_def kind_defs)
    with v show ?thesis
      by (simp add: abs_ctl_handleControlRelease ctl_release_def ctl_step.stay ctl_step.let_go)
  next
    case 3
    then have "abs_ctl (dispatch e r v k p st) = abs_ctl st"
      by (simp add: dispatch_def abs_ctl_def split: sum.split)
    then show ?thesis by (simp add: ctl_step.stay)
  qed
qed

lemma ctl_step_handleBinary: "ctl_step (abs_ctl st) (abs_ctl (handleBinary e fr st))"
proof (cases rule: handleBinary_cases [of e fr st])
  case dropped
  then show ?thesis by (simp add: ctl_step.stay)
next
  case (taken r v seq kind p)
  have "abs_ctl (accepted r v seq st) = abs_ctl st" by (simp add: accepted_def abs_ctl_def)
  with ctl_step_dispatch [OF \<open>v \<noteq> []\<close>, of "accepted r v seq st" e r kind p] taken(5)
  show ?thesis by simp
qed

subsection \<open>The order of the modes\<close>

text \<open>The control modes in the order of what they allow a viewer.\<close>

primrec mode_rank :: "ControlMode \<Rightarrow> nat" where
  "mode_rank ControlViewOnly = 0"
| "mode_rank ControlOnce = 1"
| "mode_rank ControlAuto = 2"

instantiation ControlMode :: linorder
begin

definition less_eq_ControlMode :: "ControlMode \<Rightarrow> ControlMode \<Rightarrow> bool" where
  "m \<le> m' \<longleftrightarrow> mode_rank m \<le> mode_rank m'"

definition less_ControlMode :: "ControlMode \<Rightarrow> ControlMode \<Rightarrow> bool" where
  "m < m' \<longleftrightarrow> mode_rank m < mode_rank m'"

instance
proof
  fix m m' :: ControlMode
  show "m \<le> m' \<Longrightarrow> m' \<le> m \<Longrightarrow> m = m'" by (cases m; cases m'; simp add: less_eq_ControlMode_def)
qed (auto simp: less_eq_ControlMode_def less_ControlMode_def)

end

text \<open>A request that a stricter mode grants is granted by every more permissive one.\<close>

lemma grant_mono:
  assumes "m \<le> m'" "v \<noteq> []" "controlOwner (handleControlRequest e v r (st\<lparr>control := m\<rparr>)) = v"
  shows "controlOwner (handleControlRequest e v r (st\<lparr>control := m'\<rparr>)) = v"
  using assms by (cases m; cases m')
    (auto simp: handleControlRequest_def emit_shapes Let_def less_eq_ControlMode_def split: if_splits)

end
