(* ===== verification/Sender.thy ===== *)
theory Sender
  imports Orchestrator
begin

text \<open>
  The connection side of \<^verbatim>\<open>src/runner/internal/runner/runner.go\<close>: the frames of a repaint,
  sealing and writing, the sender goroutine's two productive cases, and the life of one connection
  in \<^verbatim>\<open>serveConn\<close>. A write returns whether it succeeded; a failed write closes the
  connection's \<^verbatim>\<open>done\<close> channel and ends the sender.
\<close>

subsection \<open>Writing\<close>

definition repaintFrames :: "Orch \<Rightarrow> string \<Rightarrow> outMsg list" where
  "repaintFrames st viewerID =
     (case Size (sess st) of
        (cols, rows) \<Rightarrow>
          [\<lparr>m_kind = KindHello, m_payload = EncodeHello (baseline st viewerID) cols rows,
             m_target = viewerID, m_text = False\<rparr>,
           \<lparr>m_kind = KindOutput, m_payload = [0x1B, of_char CHR ''c''] @ Snapshot (o_ring st),
             m_target = viewerID, m_text = False\<rparr>]
          @ (if viewerID \<noteq> [] then
               [\<lparr>m_kind = KindControl, m_payload = [controlState st viewerID],
                  m_target = viewerID, m_text = False\<rparr>] else []))"

definition ws_write :: "wsmsg \<Rightarrow> Orch \<Rightarrow> Orch \<times> bool" where
  "ws_write w st =
     (case conn_obj st of
        None \<Rightarrow> (st, False)
      | Some c \<Rightarrow>
          if ws_ok c (length (ws_out c))
          then (st\<lparr>conn_obj := Some (c\<lparr>ws_out := ws_out c @ [w]\<rparr>)\<rparr>, True) else (st, False))"

definition writeText :: "bytes \<Rightarrow> Orch \<Rightarrow> Orch \<times> bool" where
  "writeText payload st = ws_write (WsText payload) st"

definition to_viewer_body :: "string \<Rightarrow> bytes \<Rightarrow> bytes" where
  "to_viewer_body viewerID fr =
     marshal_entries [(''frame'', base64_std_encode fr), (''t'', ''to_viewer''), (''viewer_id'', viewerID)]"

definition writeTargetFrame :: "string \<Rightarrow> bytes \<Rightarrow> Orch \<Rightarrow> Orch \<times> bool" where
  "writeTargetFrame viewerID fr st = writeText (to_viewer_body viewerID fr) st"

definition writeMsg :: "env \<Rightarrow> string \<Rightarrow> byte \<Rightarrow> bytes \<Rightarrow> Orch \<Rightarrow> Orch \<times> bool" where
  "writeMsg e target kind payload st =
     (let seq = outSeq st + 1; st1 = st\<lparr>outSeq := seq\<rparr> in
      case Seal (r2v st1) (e_rand e seq) seq kind payload of
        Inl _ \<Rightarrow> (st1, False)
      | Inr fr \<Rightarrow>
          if target \<noteq> [] then writeTargetFrame target fr st1
          else ws_write (WsBinary fr) st1)"

fun write_frames :: "env \<Rightarrow> outMsg list \<Rightarrow> Orch \<Rightarrow> Orch \<times> bool" where
  "write_frames e [] st = (st, True)"
| "write_frames e (m # ms) st =
     (case writeMsg e (m_target m) (m_kind m) (m_payload m) st of
        (st1, ok) \<Rightarrow> if ok then write_frames e ms st1 else (st1, False))"

definition sendRepaint :: "env \<Rightarrow> string \<Rightarrow> Orch \<Rightarrow> Orch \<times> bool" where
  "sendRepaint e viewerID st = write_frames e (repaintFrames st viewerID) st"

subsection \<open>The sender goroutine\<close>

definition upd_conn :: "(connState \<Rightarrow> connState) \<Rightarrow> Orch \<Rightarrow> Orch" where
  "upd_conn f st = st\<lparr>conn_obj := map_option f (conn_obj st)\<rparr>"

text \<open>What every case does after a write: go on, or fail the connection and return.\<close>

definition sender_after :: "Orch \<times> bool \<Rightarrow> Orch" where
  "sender_after r =
     (case r of (st, ok) \<Rightarrow> if ok then st else upd_conn (\<lambda>c. (conn_fail c)\<lparr>sender_up := False\<rparr>) st)"

definition sender_join :: "env \<Rightarrow> Orch \<Rightarrow> Orch" where
  "sender_join e st =
     (case conn_obj st of
        None \<Rightarrow> st
      | Some c \<Rightarrow>
          (case join_q c of
             [] \<Rightarrow> st
           | viewerID # rest \<Rightarrow>
               sender_after (sendRepaint e viewerID (upd_conn (\<lambda>c. c\<lparr>join_q := rest\<rparr>) st))))"

definition sender_send :: "env \<Rightarrow> Orch \<Rightarrow> Orch" where
  "sender_send e st =
     (case conn_obj st of
        None \<Rightarrow> st
      | Some c \<Rightarrow>
          (case send_q c of
             [] \<Rightarrow> st
           | m # rest \<Rightarrow>
               let st1 = upd_conn (\<lambda>c. c\<lparr>send_q := rest\<rparr>) st in
               if m_text m then sender_after (writeText (m_payload m) st1)
               else if dropped c then
                 (case sendRepaint e [] (upd_conn (\<lambda>c. c\<lparr>dropped := False\<rparr>) st1) of
                    (st2, ok) \<Rightarrow>
                      if ok then sender_after (writeMsg e (m_target m) (m_kind m) (m_payload m) st2)
                      else sender_after (st2, False))
               else sender_after (writeMsg e (m_target m) (m_kind m) (m_payload m) st1)))"

definition sender_stop :: "Orch \<Rightarrow> Orch" where
  "sender_stop st = upd_conn (\<lambda>c. c\<lparr>sender_up := False\<rparr>) st"

subsection \<open>The life of a connection\<close>

definition serve_start :: "(nat \<Rightarrow> bool) \<Rightarrow> Orch \<Rightarrow> Orch" where
  "serve_start ok st =
     st\<lparr>conn_obj := Some \<lparr>ws_out = [], ws_ok = ok, send_q = [], join_q = [], c_done = False,
          dropped = False, reader_up = True, sender_up = True\<rparr>,
        published := True\<rparr>"

text \<open>The reader returns on a read error; \<^verbatim>\<open>serveConn\<close> then fails the connection.\<close>

definition serve_reader_end :: "Orch \<Rightarrow> Orch" where
  "serve_reader_end st = upd_conn (\<lambda>c. (conn_fail c)\<lparr>reader_up := False\<rparr>) st"

definition serve_unpublish :: "Orch \<Rightarrow> Orch" where
  "serve_unpublish st = st\<lparr>published := False\<rparr>"

text \<open>After the sender has returned: no viewers, no owner, no routes.\<close>

definition serve_finish :: "Orch \<Rightarrow> Orch" where
  "serve_finish st = (clearControlOwner (st\<lparr>viewers := 0\<rparr>))\<lparr>conn_obj := None\<rparr>"

definition reader_message :: "env \<Rightarrow> wsmsg \<Rightarrow> Orch \<Rightarrow> Orch" where
  "reader_message e w st =
     (case w of WsText d \<Rightarrow> handleControl e d st | WsBinary d \<Rightarrow> handleBinary e d st)"

subsection \<open>Lemmas\<close>

lemma ws_write_frame:
  "fst (ws_write w st) = st\<lparr>conn_obj := conn_obj (fst (ws_write w st))\<rparr>"
  by (simp add: ws_write_def split: option.split)

lemma writeMsg_frame:
  "fst (writeMsg e t k p st) =
     st\<lparr>conn_obj := conn_obj (fst (writeMsg e t k p st)), outSeq := outSeq st + 1\<rparr>"
proof -
  have "fst (ws_write w (st\<lparr>outSeq := n\<rparr>))
      = st\<lparr>conn_obj := conn_obj (fst (ws_write w (st\<lparr>outSeq := n\<rparr>))), outSeq := n\<rparr>" for w n
    by (subst ws_write_frame) simp
  then show ?thesis
    by (simp add: writeMsg_def writeTargetFrame_def writeText_def Let_def split: sum.split)
qed

text \<open>Writing and the sender's cases change only the connection and the output counter.\<close>

definition only_conn :: "Orch \<Rightarrow> Orch \<Rightarrow> bool" where
  "only_conn st st' \<longleftrightarrow> st' = st\<lparr>conn_obj := conn_obj st', outSeq := outSeq st'\<rparr>"

lemma only_connI: "st' = st\<lparr>conn_obj := c, outSeq := n\<rparr> \<Longrightarrow> only_conn st st'"
  by (simp add: only_conn_def)

lemma only_connE:
  assumes "only_conn st st'"
  obtains c n where "st' = st\<lparr>conn_obj := c, outSeq := n\<rparr>"
  using assms unfolding only_conn_def by blast

lemma only_conn_refl: "only_conn st st"
  by (simp add: only_conn_def)

lemma only_conn_trans: "only_conn a b \<Longrightarrow> only_conn b c \<Longrightarrow> only_conn a c"
  by (elim only_connE) (simp add: only_conn_def)

lemma only_conn_upd: "only_conn st (upd_conn f st)"
  by (simp add: only_conn_def upd_conn_def)

lemma only_conn_after: "only_conn st (fst r) \<Longrightarrow> only_conn st (sender_after r)"
  by (cases r; cases "snd r")
    (auto simp: sender_after_def intro: only_conn_trans only_conn_upd)

lemma only_conn_ws: "only_conn st (fst (ws_write w st))"
  by (simp add: only_conn_def ws_write_def split: option.split)

lemma only_conn_msg: "only_conn st (fst (writeMsg e t k p st))"
  by (rule only_connI [OF writeMsg_frame])

lemma only_conn_frames: "only_conn st (fst (write_frames e ms st))"
proof (induction ms arbitrary: st)
  case Nil
  show ?case by (simp add: only_conn_refl)
next
  case (Cons m ms)
  obtain st1 ok where w: "writeMsg e (m_target m) (m_kind m) (m_payload m) st = (st1, ok)"
    by fastforce
  then have "only_conn st st1"
    using only_conn_msg [of st e "m_target m" "m_kind m" "m_payload m"] by simp
  with w Cons.IH [of st1] show ?case by (auto intro: only_conn_trans)
qed

lemma only_conn_repaint: "only_conn st (fst (sendRepaint e v st))"
  by (simp add: sendRepaint_def only_conn_frames)

lemmas only_conn_intros = only_conn_refl only_conn_upd only_conn_after only_conn_ws
  only_conn_msg only_conn_repaint

lemma only_conn_sender_join: "only_conn st (sender_join e st)"
  by (auto simp: sender_join_def split: option.split list.split
      intro!: only_conn_refl only_conn_after
      intro: only_conn_trans [OF only_conn_upd] only_conn_repaint)

lemma only_conn_sender_send: "only_conn st (sender_send e st)"
proof (cases "conn_obj st")
  case None
  then show ?thesis by (simp add: sender_send_def only_conn_refl)
next
  case (Some c)
  show ?thesis
  proof (cases "send_q c")
    case Nil
    with Some show ?thesis by (simp add: sender_send_def only_conn_refl)
  next
    case (Cons m rest)
    let ?st1 = "upd_conn (\<lambda>c. c\<lparr>send_q := rest\<rparr>) st"
    let ?st2 = "upd_conn (\<lambda>c. c\<lparr>dropped := False\<rparr>) ?st1"
    obtain st3 ok where r: "sendRepaint e [] ?st2 = (st3, ok)" by fastforce
    have 1: "only_conn st ?st1" by (rule only_conn_upd)
    have 2: "only_conn st ?st2" using 1 only_conn_upd by (rule only_conn_trans)
    have "only_conn ?st2 st3" using only_conn_repaint [of ?st2 e "[]"] r by simp
    with 2 have 3: "only_conn st st3" by (rule only_conn_trans)
    show ?thesis
      using Some Cons r 1 3
      by (auto simp: sender_send_def writeText_def Let_def
          intro!: only_conn_after intro: only_conn_trans only_conn_ws only_conn_msg)
  qed
qed

end
