(* ===== verification/Steps.thy ===== *)
theory Steps
  imports Control Sender
begin

text \<open>
  All interleavings of the orchestrator's goroutines, as a step relation: the reader handles one
  WebSocket message, the sender serves one case of its select, the PTY pump forwards one chunk,
  the host types, resizes, revokes, the keepalive ticks, the child exits, the connection is set up
  and torn down in the order of \<^verbatim>\<open>serveConn\<close>. The message a reader step handles, the clock,
  the select's choice and the random bytes are arbitrary: a hostile relay is one of the possible
  environments. A step is one handler; the theory \<open>Races\<close> has the finer interleaving of a
  handler's own locked regions with another goroutine.
\<close>

definition child_exit :: "int \<Rightarrow> Orch \<Rightarrow> Orch" where
  "child_exit code st =
     (let s = Wait (sess st) code in st\<lparr>sess := s, exitCode := word_of_int (ExitCode s)\<rparr>)"

definition host_input :: "bytes \<Rightarrow> Orch \<Rightarrow> Orch" where
  "host_input chunk st = pumpInput [(chunk, False)] st"

inductive orch_step :: "Orch \<Rightarrow> Orch \<Rightarrow> bool" where
  read: "conn_obj st = Some c \<Longrightarrow> reader_up c \<Longrightarrow> orch_step st (reader_message e w st)"
| revoke: "orch_step st (Revoke e st)"
| resize: "orch_step st (Resize e cols rows st)"
| pump: "chunk \<noteq> [] \<Longrightarrow> orch_step st (pump_chunk e chunk st)"
| type_in: "orch_step st (host_input chunk st)"
| keepalive: "orch_step st (keepalive_tick e st)"
| exit: "process_state (sess st) = None \<Longrightarrow> orch_step st (child_exit code st)"
| signal: "process_state (sess st) \<noteq> None \<Longrightarrow> orch_step st (signalExit e st)"
| shut: "orch_step st (shutdown st)"
| join: "conn_obj st = Some c \<Longrightarrow> sender_up c \<Longrightarrow> orch_step st (sender_join e st)"
| send: "conn_obj st = Some c \<Longrightarrow> sender_up c \<Longrightarrow> orch_step st (sender_send e st)"
| stop: "conn_obj st = Some c \<Longrightarrow> sender_up c \<Longrightarrow> orch_step st (sender_stop st)"
| connect: "conn_obj st = None \<Longrightarrow> orch_step st (serve_start ok st)"
| reader_end: "conn_obj st = Some c \<Longrightarrow> reader_up c \<Longrightarrow> orch_step st (serve_reader_end st)"
| unpublish: "conn_obj st = Some c \<Longrightarrow> \<not> reader_up c \<Longrightarrow> orch_step st (serve_unpublish st)"
| finish: "conn_obj st = Some c \<Longrightarrow> \<not> reader_up c \<Longrightarrow> \<not> published st \<Longrightarrow> \<not> sender_up c
    \<Longrightarrow> orch_step st (serve_finish st)"
| notice: "orch_step st (note_host e s st)"

inductive_cases orch_stepE: "orch_step st st'"

text \<open>The states a session can be in: from \<^verbatim>\<open>New\<close> by any steps.\<close>

definition reachable :: "Orch \<Rightarrow> bool" where
  "reachable st \<longleftrightarrow> (\<exists>cfg st0. New cfg = Inr st0 \<and> orch_step\<^sup>*\<^sup>* st0 st)"

subsection \<open>What every step leaves alone\<close>

text \<open>
  Every step but the reader's leaves the replay floors and the routes or clears the routes; the
  local steps leave the control fields.
\<close>

definition local_step :: "Orch \<Rightarrow> Orch \<Rightarrow> bool" where
  "local_step st st' \<longleftrightarrow>
     inSeqByViewer st' = inSeqByViewer st \<and> selfByRoute st' = selfByRoute st
     \<and> controlOwner st' = controlOwner st \<and> ownerRoute st' = ownerRoute st
     \<and> onceUsed st' = onceUsed st \<and> same_setup st st'"

lemma local_only_conn: "only_conn st st' \<Longrightarrow> local_step st st'"
  by (elim only_connE) (simp add: local_step_def same_setup_def)

lemma local_intros [intro!]:
  "local_step st (Resize e cols rows st)"
  "local_step st (pump_chunk e chunk st)"
  "local_step st (keepalive_tick e st)"
  "local_step st (child_exit code st)"
  "local_step st (signalExit e st)"
  "local_step st (shutdown st)"
  "local_step st (serve_start ok st)"
  "local_step st (serve_unpublish st)"
  "local_step st (host_input chunk st)"
  "local_step st (note_host e s st)"
  by (simp_all add: local_step_def same_setup_def Resize_def pump_chunk_def keepalive_tick_def
      child_exit_def signalExit_def shutdown_def serve_start_def serve_unpublish_def
      host_input_def pumpInput_def emit_shapes Let_def split: prod.split)

lemma local_sender [intro!]:
  "local_step st (sender_join e st)"
  "local_step st (sender_send e st)"
  "local_step st (sender_stop st)"
  "local_step st (serve_reader_end st)"
  by (intro local_only_conn; simp add: sender_stop_def serve_reader_end_def only_conn_sender_join
      only_conn_sender_send only_conn_upd)+

text \<open>A step is local, or it is the reader's, a revocation, or the end of a connection.\<close>

lemma orch_step_cases [consumes 1]:
  assumes "orch_step st st'"
  obtains (loc) "local_step st st'"
  | (ctrl) e d where "st' = handleControl e d st"
  | (binary) e d where "st' = handleBinary e d st"
  | (revoke) e where "st' = Revoke e st"
  | (finish) "st' = serve_finish st"
  using assms
proof cases
  case (read c e w)
  then show thesis by (cases w) (auto simp: reader_message_def intro: ctrl binary)
qed (auto intro: loc revoke finish)

lemma orch_step_setup:
  assumes "orch_step st st'"
  shows "same_setup st st'"
  using assms
proof (cases rule: orch_step_cases)
  case loc
  then show ?thesis by (simp add: local_step_def)
next
  case (ctrl e d)
  then show ?thesis using handleControl_frame(3) [of e d st] by (simp add: same_setup_def)
next
  case (binary e d)
  show ?thesis
  proof (cases rule: handleBinary_cases [of e d st])
    case dropped
    with binary show ?thesis by (simp add: same_setup_def)
  next
    case (taken r v seq kind p)
    then show ?thesis using binary dispatch_frame(3) [of e r v kind p "accepted r v seq st"]
      by (simp add: same_setup_def accepted_def)
  qed
next
  case (revoke e)
  then show ?thesis using Revoke_frame(3) [of e st] by (simp add: same_setup_def)
next
  case finish
  then show ?thesis by (simp add: serve_finish_def clearControlOwner_def same_setup_def)
qed

lemma run_setup: "orch_step\<^sup>*\<^sup>* st st' \<Longrightarrow> same_setup st st'"
  by (induction rule: rtranclp_induct) (auto dest!: orch_step_setup simp: same_setup_def)

subsection \<open>Replay floors\<close>

lemma floor_handleBinary: "floor_of st w \<le> floor_of (handleBinary e fr st) w"
proof (cases rule: handleBinary_cases [of e fr st])
  case dropped
  then show ?thesis by simp
next
  case (taken r v seq kind p)
  have "floor_of (handleBinary e fr st) w = floor_of (accepted r v seq st) w"
    unfolding taken(5) by (rule floor_of_cong) (rule dispatch_frame)
  with taken(2) show ?thesis by (simp add: floor_of_accepted less_imp_le)
qed

lemma floor_step:
  assumes "orch_step st st'"
  shows "floor_of st w \<le> floor_of st' w"
  using assms
proof (cases rule: orch_step_cases)
  case (binary e d)
  then show ?thesis by (simp add: floor_handleBinary)
next
  case (ctrl e d)
  then show ?thesis by (simp add: floor_of_cong [OF handleControl_frame(1)])
next
  case (revoke e)
  then show ?thesis by (simp add: floor_of_cong [OF Revoke_frame(1)])
qed (simp_all add: local_step_def floor_of_def serve_finish_def clearControlOwner_def)

lemma floor_run: "orch_step\<^sup>*\<^sup>* st st' \<Longrightarrow> floor_of st w \<le> floor_of st' w"
  by (induction rule: rtranclp_induct) (auto dest: floor_step intro: order_trans)

lemma floor_after_handleBinary:
  "decode_frame (v2r st) fr = Some (r, v, seq, k, p) \<Longrightarrow> seq \<le> floor_of (handleBinary e fr st) v"
proof (cases "seq \<le> floor_of st v")
  case False
  assume d: "decode_frame (v2r st) fr = Some (r, v, seq, k, p)"
  with False have "handleBinary e fr st = dispatch e r v k p (accepted r v seq st)"
    by (simp add: handleBinary_eq)
  then have "floor_of (handleBinary e fr st) v = floor_of (accepted r v seq st) v"
    by (auto intro: floor_of_cong dispatch_frame)
  then show ?thesis by (simp add: floor_of_accepted)
qed (simp add: handleBinary_eq)

lemma stale_frame_dropped:
  "decode_frame (v2r st) fr = Some (r, v, seq, k, p) \<Longrightarrow> seq \<le> floor_of st v
   \<Longrightarrow> handleBinary e fr st = st"
  by (simp add: handleBinary_eq)

subsection \<open>Control over whole runs\<close>

lemma ctl_step_orch:
  assumes "orch_step st st'"
  shows "ctl_step (abs_ctl st) (abs_ctl st')"
  using assms
proof (cases rule: orch_step_cases)
  case loc
  then have "abs_ctl st' = abs_ctl st"
    by (intro abs_ctl_cong) (simp_all add: local_step_def same_setup_def)
  then show ?thesis by (simp add: ctl_step.stay)
next
  case finish
  have "abs_ctl (serve_finish st) = abs_ctl (clearControlOwner st)"
    by (simp add: serve_finish_def clearControlOwner_def abs_ctl_def)
  with finish show ?thesis by (simp add: abs_ctl_clearControlOwner ctl_step.let_go)
qed (simp_all add: ctl_step_handleControl ctl_step_handleBinary abs_ctl_Revoke ctl_step.let_go)

interpretation orch: control_lock orch_step abs_ctl "\<lambda>_. True"
  by unfold_locales (simp_all add: ctl_step_orch)

lemma New_fields:
  "New cfg = Inr st \<Longrightarrow> controlOwner st = [] \<and> ownerRoute st = [] \<and> onceUsed st = False
     \<and> control st = cfg_Control cfg \<and> conn_obj st = None \<and> \<not> published st \<and> outSeq st = 0
     \<and> inSeqByViewer st = Map.empty \<and> selfByRoute st = Map.empty \<and> viewers st = 0
     \<and> sess st = cfg_Session cfg \<and> cipher_ok (r2v st) \<and> cipher_ok (v2r st)
     \<and> o_ring st = NewRing ringBytes \<and> exitCode st = -1"
  by (auto simp: New_def split: sum.splits dest!: NewCipher_ok)

end
