(* ===== verification/Cli.thy ===== *)
theory Cli
  imports CliText Steps
begin

text \<open>
  \<^verbatim>\<open>run\<close> of \<^verbatim>\<open>src/runner/cmd/onlytty/main.go\<close>: from the flags to a running
  orchestrator, and the goroutines that turn signals into its operations. What the process's
  surroundings answer - environment variables, terminals, the random source, the relay, the
  operating system - is the record \<open>world\<close>. The flags are the record of their parsed values.
\<close>

subsection \<open>From the flags to the orchestrator\<close>

record flags =
  f_server :: string
  f_control :: string
  f_multiViewer :: bool
  f_ttl :: int
  f_withPass :: bool
  f_genPass :: bool
  f_noQR :: bool
  f_allowInsecure :: bool
  f_verbose :: bool
  f_showVer :: bool
  f_args :: "string list"

record world =
  w_getenv :: "string \<Rightarrow> string"
  w_environ :: "string list"
  w_rand_pass :: "bytes option"
  w_stdin_tty :: bool
  w_typed :: "string option"
  w_rand_id :: "bytes option"
  w_rand_tok :: "bytes option"
  w_post :: "http_request \<Rightarrow> http_result"
  w_rand_secret :: "bytes option"
  w_pty_start :: "string \<Rightarrow> string list \<Rightarrow> string list \<Rightarrow> string option"
  w_winsize :: "(u16 \<times> u16) option"
  w_version :: string
  w_build_info :: "string option"
  w_stderr_tty :: bool
  w_tty_opens :: bool
  w_encode :: "string \<Rightarrow> (nat \<times> (nat \<Rightarrow> nat \<Rightarrow> bool)) option"
  w_now :: int
  w_reads :: "(bytes \<times> bool) list"

text \<open>The passphrase: generated, prompted for, or none; \<open>None\<close> when that fails.\<close>

definition choosePassphrase :: "flags \<Rightarrow> world \<Rightarrow> string option" where
  "choosePassphrase f w =
     (if f_genPass f then generatePassphrase (w_rand_pass w)
      else if f_withPass f then
        (case promptPassphrase (w_stdin_tty w) (w_typed w) of Inl _ \<Rightarrow> None | Inr p \<Rightarrow> Some p)
      else Some [])"

text \<open>
  \<^verbatim>\<open>run\<close> up to the call of \<^verbatim>\<open>orch.Run\<close>: it exits with a code (after printing the
  version, or an error whose text is not modelled), it waits for the host's Enter, or it has
  started: the texts it printed on standard error, what the host types into, and the
  orchestrator. Putting the terminal in raw mode decides nothing here.
\<close>

datatype outcome =
    Exit int string
  | Waiting string
  | Started string input_file Orch

definition prepare :: "flags \<Rightarrow> world \<Rightarrow> outcome" where
  "prepare f w =
     (if f_showVer f then Exit 0 (''onlytty '' @ resolveVersion (w_version w) (w_build_info w) @ nl)
      else if f_server f = [] then Exit 2 []
      else if f_ttl f < 0 then Exit 2 []
      else case resolveControl (f_control f) of Inl _ \<Rightarrow> Exit 2 [] | Inr controlMode \<Rightarrow>
      (let shellMode = (f_args f = []);
           argv = resolveCommand (w_getenv w) (f_args f) in
      case NewClient (f_server f) (f_allowInsecure f) of
         Inl _ \<Rightarrow> Exit 1 []
       | Inr client \<Rightarrow>
      (case choosePassphrase f w of None \<Rightarrow> Exit 1 [] | Some passphrase \<Rightarrow>
      (case randToken (w_rand_id w) of None \<Rightarrow> Exit 1 [] | Some sid \<Rightarrow>
      (case randToken (w_rand_tok w) of None \<Rightarrow> Exit 1 [] | Some tok \<Rightarrow>
      (case CreateSessionWithOptions client (w_post w) sid tok (f_ttl f) \<lparr>MultiViewer = f_multiViewer f\<rparr> of
         Inl _ \<Rightarrow> Exit 1 []
       | Inr created \<Rightarrow>
      (case w_rand_secret w of None \<Rightarrow> Exit 1 [] | Some secret \<Rightarrow>
      (case DeriveKeys secret sid passphrase of Inl _ \<Rightarrow> Exit 1 [] | Inr keys \<Rightarrow>
      (let link = ViewerURL client sid (base64_rawurl_encode secret) (passphrase \<noteq> []);
           fpr = formatFingerprint (Fingerprint keys);
           out1 = printBanner (w_stderr_tty w) (w_encode w) link fpr (expiryLine (ExpiresAt created) (w_now w))
                    controlMode (f_multiViewer f) passphrase (f_genPass f) (f_noQR f);
           inp = hostInput (w_stdin_tty w) (w_stderr_tty w) (w_tty_opens w);
           gated = gateLaunch shellMode (w_stderr_tty w) (inp = DevTty \<or> w_stdin_tty w);
           out2 = (if gated then out1 @ startWaitText (w_stderr_tty w) argv else out1)
       in
       if gated \<and> waitForStart (w_reads w) = None then Waiting out2
       else case Start (w_pty_start w) argv (w_environ w) of
         Inl _ \<Rightarrow> Exit 1 []
       | Inr ps \<Rightarrow>
          let psess = (case w_winsize w of
                Some (cols, rows) \<Rightarrow> fst (SetSize ps cols rows (None :: unit option))
              | None \<Rightarrow> fst (SetSize ps 80 24 (None :: unit option)))
          in case Orchestrator.New \<lparr>cfg_Client = client, cfg_Session = psess, cfg_Keys = keys,
               cfg_SessionID = sid, cfg_Token = tok, cfg_TTL = f_ttl f,
               cfg_MultiViewer = f_multiViewer f, cfg_ExpiresAt = ExpiresAt created,
               cfg_Control = controlMode, cfg_LocalIn = True, cfg_LocalOut = True,
               cfg_Notify = True, cfg_Fingerprint = fpr\<rparr> of
             Inl _ \<Rightarrow> Exit 1 []
           | Inr orch \<Rightarrow> Started (out2 @ (if gated then nl else []) @ printStartNotice (w_stderr_tty w) argv shellMode) inp orch)))))))))"

subsection \<open>The signals\<close>

text \<open>
  \<^verbatim>\<open>watchResize\<close> and \<^verbatim>\<open>watchRevoke\<close>: one element for each signal that arrives before
  the context is done; the size is what the terminal answers.
\<close>

fun watchResize :: "(env \<times> (u16 \<times> u16) option) list \<Rightarrow> Orch \<Rightarrow> Orch" where
  "watchResize [] st = st"
| "watchResize ((e, ws) # sigs) st =
     watchResize sigs (case ws of Some (cols, rows) \<Rightarrow> Resize e cols rows st | None \<Rightarrow> st)"

fun watchRevoke :: "env list \<Rightarrow> Orch \<Rightarrow> Orch" where
  "watchRevoke [] st = st"
| "watchRevoke (e # sigs) st = watchRevoke sigs (Revoke e st)"

subsection \<open>What a session starts with\<close>

lemma New_config:
  "Orchestrator.New cfg = Inr st \<Longrightarrow>
     NewCipher (R2V (cfg_Keys cfg)) (str_bytes (cfg_SessionID cfg)) = Inr (r2v st)
   \<and> NewCipher (V2R (cfg_Keys cfg)) (str_bytes (cfg_SessionID cfg)) = Inr (v2r st)
   \<and> o_client st = cfg_Client cfg \<and> o_id st = cfg_SessionID cfg \<and> o_tok st = cfg_Token cfg \<and> expiresAt st = cfg_ExpiresAt cfg
   \<and> control st = cfg_Control cfg \<and> fp st = cfg_Fingerprint cfg \<and> sess st = cfg_Session cfg
   \<and> controlOwner st = [] \<and> conn_obj st = None"
  by (auto simp: New_def split: sum.splits)

text \<open>
  C39: What a session is started with. \<^verbatim>\<open>run\<close> ends with exit code 0, 1 or 2 before the
  session, or waits for Enter - only for a given command, on a terminal - or has printed the link to
  exactly this session and secret, and the orchestrator has: a policy that is the flag's, an id and a token that are the
  base64url of fresh random bytes, ciphers derived from the random secret, that id and the chosen
  passphrase, the expiry the relay assigned on creating exactly this session, no owner, and no
  connection yet. A negative lifetime never gets there.
\<close>

theorem prepare_session:
  "case prepare f w of
     Exit code out \<Rightarrow> code \<in> {0, 1, 2}
   | Waiting out \<Rightarrow> f_args f \<noteq> [] \<and> w_stderr_tty w \<and> waitForStart (w_reads w) = None
   | Started out inp st \<Rightarrow> 0 \<le> f_ttl f \<and> NewClient (f_server f) (f_allowInsecure f) = Inr (o_client st)
      \<and> resolveControl (f_control f) = Inr (control st)
      \<and> (\<exists>rid rtok secret pass keys created.
          w_rand_id w = Some rid \<and> o_id st = base64_rawurl_encode rid
        \<and> w_rand_tok w = Some rtok \<and> o_tok st = base64_rawurl_encode rtok
        \<and> w_rand_secret w = Some secret \<and> choosePassphrase f w = Some pass
        \<and> DeriveKeys secret (o_id st) pass = Inr keys
        \<and> NewCipher (R2V keys) (str_bytes (o_id st)) = Inr (r2v st)
        \<and> NewCipher (V2R keys) (str_bytes (o_id st)) = Inr (v2r st)
        \<and> fp st = formatFingerprint (Fingerprint keys)
        \<and> CreateSessionWithOptions (o_client st) (w_post w) (o_id st) (o_tok st) (f_ttl f) \<lparr>MultiViewer = f_multiViewer f\<rparr> = Inr created
        \<and> expiresAt st = ExpiresAt created
        \<and> sublist (ViewerURL (o_client st) (o_id st) (base64_rawurl_encode secret) (pass \<noteq> [])) out
        \<and> sublist (fp st) out)
      \<and> controlOwner st = [] \<and> conn_obj st = None \<and> size_inv (sess st)"
proof (cases "prepare f w")
  case (Exit code out)
  then have "code \<in> {0, 1, 2}"
    by (simp add: prepare_def Let_def split: if_splits sum.splits option.splits)
  with Exit show ?thesis by simp
next
  case (Waiting out)
  then have "f_args f \<noteq> [] \<and> w_stderr_tty w \<and> waitForStart (w_reads w) = None"
    by (auto simp: prepare_def Let_def gateLaunch_def split: if_splits sum.splits option.splits)
  with Waiting show ?thesis by simp
next
  case (Started out inp st)
  then obtain m client pass rid rtok created secret keys ps where
    p: "0 \<le> f_ttl f" "NewClient (f_server f) (f_allowInsecure f) = Inr client" "resolveControl (f_control f) = Inr m" "choosePassphrase f w = Some pass"
      "w_rand_id w = Some rid" "w_rand_tok w = Some rtok" "w_rand_secret w = Some secret"
      "CreateSessionWithOptions client (w_post w) (base64_rawurl_encode rid) (base64_rawurl_encode rtok) (f_ttl f)
         \<lparr>MultiViewer = f_multiViewer f\<rparr> = Inr created"
      "DeriveKeys secret (base64_rawurl_encode rid) pass = Inr keys"
      "Start (w_pty_start w) (resolveCommand (w_getenv w) (f_args f)) (w_environ w) = Inr ps"
    by (auto simp: prepare_def randToken_def Let_def not_less split: if_splits sum.splits option.splits)
  define psess where "psess = (case w_winsize w of
        Some (cols, rows) \<Rightarrow> fst (SetSize ps cols rows (None :: unit option))
      | None \<Rightarrow> fst (SetSize ps 80 24 (None :: unit option)))"
  define link where "link = ViewerURL client (base64_rawurl_encode rid) (base64_rawurl_encode secret) (pass \<noteq> [])"
  from Started p have n: "Orchestrator.New \<lparr>cfg_Client = client, cfg_Session = psess, cfg_Keys = keys,
        cfg_SessionID = base64_rawurl_encode rid, cfg_Token = base64_rawurl_encode rtok,
        cfg_TTL = f_ttl f, cfg_MultiViewer = f_multiViewer f, cfg_ExpiresAt = ExpiresAt created,
        cfg_Control = m, cfg_LocalIn = True, cfg_LocalOut = True, cfg_Notify = True,
        cfg_Fingerprint = formatFingerprint (Fingerprint keys)\<rparr> = Inr st"
    and o: "\<exists>rest. out = printBanner (w_stderr_tty w) (w_encode w) link
        (formatFingerprint (Fingerprint keys)) (expiryLine (ExpiresAt created) (w_now w)) m
        (f_multiViewer f) pass (f_genPass f) (f_noQR f) @ rest"
    by (auto simp: prepare_def randToken_def Let_def not_less psess_def link_def split: if_splits sum.splits)
  have "size_inv psess"
    using size_inv_Start [OF p(10)] by (auto simp: psess_def intro: size_inv_SetSize split: option.split)
  moreover from o have "sublist link out" "sublist (formatFingerprint (Fingerprint keys)) out"
    by (auto intro!: sublist_left banner_shows)
  ultimately show ?thesis using Started p New_config [OF n] unfolding link_def by auto
qed

text \<open>The signal loops are steps of the orchestrator.\<close>

lemma watch_steps:
  "orch_step\<^sup>*\<^sup>* st (watchResize sigs st)" "orch_step\<^sup>*\<^sup>* st (watchRevoke envs st)"
proof -
  show "orch_step\<^sup>*\<^sup>* st (watchResize sigs st)"
  proof (induction sigs st rule: watchResize.induct)
    case (2 e ws sigs st)
    then show ?case
      by (cases ws) (auto intro: converse_rtranclp_into_rtranclp orch_step.resize split: prod.splits)
  qed simp
  show "orch_step\<^sup>*\<^sup>* st (watchRevoke envs st)"
    by (induction envs arbitrary: st) (auto intro: converse_rtranclp_into_rtranclp orch_step.revoke)
qed

end
