(* ===== verification/Examples.thy ===== *)
theory Examples
  imports Steps
begin

text \<open>
  Concrete sessions for the witnesses: a configuration with real AES-256-GCM keys, the
  orchestrator that \<^verbatim>\<open>New\<close> builds from it, the same with a connection up, and frames as an
  honest viewer and relay make them.
\<close>

definition ex_session :: Session where
  "ex_session = \<lparr>ptmx_open = True, has_process = True, process_state = None, s_cols = 80,
     s_rows = 24, pty_in = [], winsizes = [(80, 24)], sent_signals = []\<rparr>"

definition ex_config :: "ControlMode \<Rightarrow> Config" where
  "ex_config mode = \<lparr>cfg_Client = ex_relay, cfg_Session = ex_session,
     cfg_Keys = \<lparr>R2V = replicate 32 1, V2R = replicate 32 2, Fingerprint = ''AAAA''\<rparr>,
     cfg_SessionID = ''sess'', cfg_Token = ''tok'', cfg_TTL = 0, cfg_MultiViewer = False,
     cfg_ExpiresAt = 0, cfg_Control = mode, cfg_LocalIn = True, cfg_LocalOut = True,
     cfg_Notify = True, cfg_Fingerprint = ''AAAA''\<rparr>"

definition ex_cipher :: "byte \<Rightarrow> Cipher" where
  "ex_cipher k = \<lparr>aead_of = NewGCM (aes_encrypt (replicate 32 k)), aad = str_bytes ''sess''\<rparr>"

definition ex_orch :: "ControlMode \<Rightarrow> Orch" where
  "ex_orch mode = \<lparr>o_client = ex_relay, sess = ex_session, o_id = ''sess'', o_tok = ''tok'',
     o_ttl = 0, multiViewer = False, expiresAt = 0, control = mode, r2v = ex_cipher 1,
     v2r = ex_cipher 2, o_ring = NewRing ringBytes, has_localIn = True, has_localOut = True,
     local_out = [], has_notify = True, notices = [], fp = ''AAAA'', outSeq = 0,
     inSeqByViewer = Map.empty, selfByRoute = Map.empty, controlOwner = [], ownerRoute = [],
     onceUsed = False, viewers = 0, exitCode = -1, screen = \<lparr>altScreen = False, lastCtl = 0\<rparr>,
     conn_obj = None, published = False, shutdownOnce = False\<rparr>"

definition ex_env :: env where
  "ex_env = \<lparr>e_now = 0, e_pick_done = (\<lambda>_. False), e_rand = (\<lambda>_. Some (replicate 12 0))\<rparr>"

definition ex_up :: "ControlMode \<Rightarrow> Orch" where
  "ex_up mode = serve_start (\<lambda>_. True) (ex_orch mode)"

text \<open>The frame of viewer \<open>v\<close>, relayed under the routing id \<open>r\<close>.\<close>

definition viewer_sealed :: "Cipher \<Rightarrow> bytes \<Rightarrow> string \<Rightarrow> u64 \<Rightarrow> byte \<Rightarrow> bytes \<Rightarrow> bytes" where
  "viewer_sealed c nonce v seq kind payload =
     sealWithNonce c nonce seq kind (EncodeViewerPayload v payload)"

definition viewer_frame :: "Cipher \<Rightarrow> bytes \<Rightarrow> string \<Rightarrow> string \<Rightarrow> u64 \<Rightarrow> byte \<Rightarrow> bytes \<Rightarrow> bytes" where
  "viewer_frame c nonce r v seq kind payload =
     EncodeRelayViewerFrame r (viewer_sealed c nonce v seq kind payload)"

abbreviation ex_frame :: "string \<Rightarrow> string \<Rightarrow> u64 \<Rightarrow> byte \<Rightarrow> bytes \<Rightarrow> bytes" where
  "ex_frame r v seq kind payload \<equiv> viewer_frame (ex_cipher 2) (replicate 12 0) r v seq kind payload"

lemma ex_cipher_ok [simp]: "cipher_ok (ex_cipher k)"
  by (simp add: cipher_ok_def ex_cipher_def aead_NewGCM)

lemma New_ex_config: "New (ex_config mode) = Inr (ex_orch mode)"
  by (simp add: New_def ex_config_def NewCipher_def aes_NewCipher_def ex_orch_def ex_cipher_def)

lemma ex_up_step: "orch_step (ex_orch mode) (ex_up mode)"
  unfolding ex_up_def by (rule orch_step.connect) (simp add: ex_orch_def)

lemma reachable_ex_up: "reachable (ex_up mode)"
  unfolding reachable_def using New_ex_config ex_up_step by blast

lemma decode_relay_viewer_frame:
  "r \<noteq> [] \<Longrightarrow> length r \<le> 255 \<Longrightarrow>
   DecodeRelayViewerFrame (viewer_frame c n r v seq k p) = Inr (r, viewer_sealed c n v seq k p)"
  by (simp add: viewer_frame_def otv.dec_enc_short)

lemma decode_viewer_frame:
  assumes "cipher_ok c" "length n = 12" "r \<noteq> []" "length r \<le> 255" "v \<noteq> []" "length v \<le> 255"
  shows "decode_frame c (viewer_frame c n r v seq k p) = Some (r, v, seq, k, p)"
  using assms by (simp add: decode_frame_def decode_relay_viewer_frame viewer_sealed_def
      Open_sealWithNonce nonceLen_def ovp.dec_enc_short)

lemma handle_viewer_frame:
  assumes "cipher_ok (v2r st)" "length n = 12" "r \<noteq> []" "length r \<le> 255" "v \<noteq> []" "length v \<le> 255"
    and "floor_of st v < seq"
  shows "handleBinary e (viewer_frame (v2r st) n r v seq k p) st
    = dispatch e r v k p (accepted r v seq st)"
  using assms by (simp add: handleBinary_eq decode_viewer_frame not_le)

lemmas ex_simps = ex_up_def ex_orch_def serve_start_def ex_env_def ex_session_def

end
