(* ===== verification/Delivery.thy ===== *)
theory Delivery
  imports Examples
begin

text \<open>
  What leaves the runner and what reaches it: the frames a repaint or a queued message becomes on
  the WebSocket, recovery after dropped messages, failed writes, the local mirror, and a viewer
  taking control and typing.
\<close>

subsection \<open>Frames on the wire\<close>

definition framed :: "env \<Rightarrow> Cipher \<Rightarrow> u64 \<Rightarrow> outMsg \<Rightarrow> wsmsg" where
  "framed e c seq m =
     (let fr = sealWithNonce c (the (e_rand e seq)) seq (m_kind m) (m_payload m)
      in if m_target m \<noteq> [] then WsText (to_viewer_body (m_target m) fr) else WsBinary fr)"

primrec framed_run :: "env \<Rightarrow> Cipher \<Rightarrow> u64 \<Rightarrow> outMsg list \<Rightarrow> wsmsg list" where
  "framed_run e c seq [] = []"
| "framed_run e c seq (m # ms) = framed e c (seq + 1) m # framed_run e c (seq + 1) ms"

text \<open>Nothing goes wrong: the random source delivers nonces and the WebSocket takes every write.\<close>

definition healthy :: "env \<Rightarrow> connState \<Rightarrow> bool" where
  "healthy e c \<longleftrightarrow>
     (\<forall>s. \<exists>n. e_rand e s = Some n \<and> length n = nonceLen) \<and> (\<forall>n. ws_ok c n)"

lemma writeMsg_healthy:
  assumes "healthy e c" "conn_obj st = Some c"
  shows "writeMsg e (m_target m) (m_kind m) (m_payload m) st =
    (st\<lparr>outSeq := outSeq st + 1,
        conn_obj := Some (c\<lparr>ws_out := ws_out c @ [framed e (r2v st) (outSeq st + 1) m]\<rparr>)\<rparr>, True)"
proof -
  obtain n where n: "e_rand e (outSeq st + 1) = Some n" using assms(1) by (auto simp: healthy_def)
  show ?thesis using assms n
    by (simp add: writeMsg_def Seal_def framed_def writeTargetFrame_def writeText_def ws_write_def
        healthy_def Let_def)
qed

lemma write_frames_healthy:
  "healthy e c \<Longrightarrow> conn_obj st = Some c \<Longrightarrow>
   write_frames e ms st =
     (st\<lparr>outSeq := outSeq st + of_nat (length ms),
         conn_obj := Some (c\<lparr>ws_out := ws_out c @ framed_run e (r2v st) (outSeq st) ms\<rparr>)\<rparr>, True)"
proof (induction ms arbitrary: st c)
  case (Cons m ms)
  let ?c = "c\<lparr>ws_out := ws_out c @ [framed e (r2v st) (outSeq st + 1) m]\<rparr>"
  have "healthy e ?c" using Cons.prems(1) by (simp add: healthy_def)
  then show ?case using Cons.prems
    by (simp add: writeMsg_healthy Cons.IH [of ?c] add.assoc)
qed simp

lemma Open_framed:
  "healthy e c \<Longrightarrow> cipher_ok k \<Longrightarrow> m_target m = [] \<Longrightarrow>
   \<exists>fr. framed e k seq m = WsBinary fr \<and> Open k fr = Inr (seq, m_kind m, m_payload m)"
proof -
  assume "healthy e c" "cipher_ok k" "m_target m = []"
  moreover then obtain n where "e_rand e seq = Some n" "length n = nonceLen" by (auto simp: healthy_def)
  ultimately show ?thesis by (simp add: framed_def Open_sealWithNonce)
qed

lemma Open_framed_target:
  "healthy e c \<Longrightarrow> cipher_ok k \<Longrightarrow> m_target m \<noteq> [] \<Longrightarrow>
   \<exists>fr. framed e k seq m = WsText (to_viewer_body (m_target m) fr)
     \<and> Open k fr = Inr (seq, m_kind m, m_payload m)"
proof -
  assume "healthy e c" "cipher_ok k" "m_target m \<noteq> []"
  moreover then obtain n where "e_rand e seq = Some n" "length n = nonceLen" by (auto simp: healthy_def)
  ultimately show ?thesis
    by (auto simp: framed_def Open_sealWithNonce
        intro!: exI [of _ "sealWithNonce k n seq (m_kind m) (m_payload m)"])
qed

lemma healthy_upd [simp]:
  "healthy e (c\<lparr>join_q := x\<rparr>) = healthy e c" "healthy e (c\<lparr>send_q := y\<rparr>) = healthy e c"
  "healthy e (c\<lparr>dropped := z\<rparr>) = healthy e c" "healthy e (c\<lparr>ws_out := w\<rparr>) = healthy e c"
  by (simp_all add: healthy_def)

subsection \<open>Repaints\<close>

text \<open>
  A viewer that joins is brought up to date. Serving a join writes exactly three targeted
  messages with consecutive sequence numbers; opened with the runner-to-viewer key they are the
  HELLO with the terminal size, the OUTPUT with the reset and the ring's snapshot, and the CONTROL
  frame with the state of that route.
\<close>

theorem join_repaint:
  assumes "conn_obj st = Some c" "join_q c = v # rest" "v \<noteq> []" "healthy e c" "cipher_ok (r2v st)"
  shows "\<exists>f1 f2 f3 c'. conn_obj (sender_join e st) = Some c'
    \<and> ws_out c' = ws_out c @ map (\<lambda>f. WsText (to_viewer_body v f)) [f1, f2, f3]
    \<and> Open (r2v st) f1 = Inr (outSeq st + 1, KindHello, EncodeHello (baseline st v) (s_cols (sess st)) (s_rows (sess st)))
    \<and> Open (r2v st) f2 = Inr (outSeq st + 2, KindOutput, [0x1B, 0x63] @ Snapshot (o_ring st))
    \<and> Open (r2v st) f3 = Inr (outSeq st + 3, KindControl, [controlState st v])
    \<and> join_q c' = rest \<and> send_q c' = send_q c"
proof -
  let ?st = "upd_conn (\<lambda>c. c\<lparr>join_q := rest\<rparr>) st"
  let ?c = "c\<lparr>join_q := rest\<rparr>"
  have c: "conn_obj ?st = Some ?c" "healthy e ?c" using assms by (simp_all add: upd_conn_def)
  obtain m1 m2 m3 where m: "repaintFrames ?st v = [m1, m2, m3]"
    and p: "m_target m1 = v" "m_kind m1 = KindHello"
        "m_payload m1 = EncodeHello (baseline st v) (s_cols (sess st)) (s_rows (sess st))"
      "m_target m2 = v" "m_kind m2 = KindOutput" "m_payload m2 = [0x1B, 0x63] @ Snapshot (o_ring st)"
      "m_target m3 = v" "m_kind m3 = KindControl" "m_payload m3 = [controlState st v]"
    using assms(3) by (simp add: repaintFrames_def Size_def upd_conn_def baseline_def floor_of_def controlState_def)
  have w: "sendRepaint e v ?st =
      (?st\<lparr>outSeq := outSeq st + 3, conn_obj := Some (?c\<lparr>ws_out := ws_out c @
          framed_run e (r2v st) (outSeq st) [m1, m2, m3]\<rparr>)\<rparr>, True)"
    using write_frames_healthy [OF c(2,1), of "repaintFrames ?st v"] m
    by (simp add: sendRepaint_def upd_conn_def)
  have v: "m_target m1 \<noteq> []" "m_target m2 \<noteq> []" "m_target m3 \<noteq> []" using p assms(3) by simp_all
  obtain f1 f2 f3 where f:
      "framed e (r2v st) (outSeq st + 1) m1 = WsText (to_viewer_body v f1)"
      "Open (r2v st) f1 = Inr (outSeq st + 1, m_kind m1, m_payload m1)"
      "framed e (r2v st) (outSeq st + 2) m2 = WsText (to_viewer_body v f2)"
      "Open (r2v st) f2 = Inr (outSeq st + 2, m_kind m2, m_payload m2)"
      "framed e (r2v st) (outSeq st + 3) m3 = WsText (to_viewer_body v f3)"
      "Open (r2v st) f3 = Inr (outSeq st + 3, m_kind m3, m_payload m3)"
    using Open_framed_target [OF assms(4,5) v(1)] Open_framed_target [OF assms(4,5) v(2)]
      Open_framed_target [OF assms(4,5) v(3)] p by metis
  show ?thesis
    by (rule exI [of _ f1], rule exI [of _ f2], rule exI [of _ f3])
      (use assms(1,2) w f p in \<open>simp add: sender_join_def sender_after_def add.assoc\<close>)
qed

definition ex_conn :: connState where
  "ex_conn = \<lparr>ws_out = [], ws_ok = (\<lambda>_. True), send_q = [], join_q = [], c_done = False,
     dropped = False, reader_up = True, sender_up = True\<rparr>"

lemma ex_healthy: "healthy ex_env ex_conn"
  by (simp add: healthy_def ex_env_def ex_conn_def nonceLen_def)

lemma ex_conn_fields [simp]: "ws_out ex_conn = []" "send_q ex_conn = []" "join_q ex_conn = []"
  by (simp_all add: ex_conn_def)

lemma baseline_conn [simp]: "baseline (st\<lparr>conn_obj := x\<rparr>) v = baseline st v"
  by (simp add: baseline_def floor_of_def)

lemma controlState_conn [simp]: "controlState (st\<lparr>conn_obj := x\<rparr>) v = controlState st v"
  by (simp add: controlState_def)

lemma ex_up_fields:
  "r2v (ex_up mode) = ex_cipher 1" "outSeq (ex_up mode) = 0" "sess (ex_up mode) = ex_session"
  "baseline (ex_up mode) v = 1" "Snapshot (o_ring (ex_up mode)) = []"
  "controlState (ex_up mode) v = ControlReadOnly" "conn_obj (ex_up mode) = Some ex_conn"
  "s_cols ex_session = 80" "s_rows ex_session = 24"
  by (simp_all add: ex_simps baseline_def floor_of_def controlState_def Snapshot_def ex_conn_def)

theorem join_repaint_witness:
  "\<exists>f1 f2 f3 c'.
    conn_obj (sender_join ex_env ((ex_up ControlAuto)\<lparr>conn_obj := Some (ex_conn\<lparr>join_q := [''r'']\<rparr>)\<rparr>)) = Some c'
    \<and> ws_out c' = map (\<lambda>f. WsText (to_viewer_body ''r'' f)) [f1, f2, f3]
    \<and> Open (ex_cipher 1) f1 = Inr (1, KindHello, EncodeHello 1 80 24)
    \<and> Open (ex_cipher 1) f2 = Inr (2, KindOutput, [0x1B, 0x63])
    \<and> Open (ex_cipher 1) f3 = Inr (3, KindControl, [ControlReadOnly])
    \<and> join_q c' = [] \<and> send_q c' = []"
  using join_repaint [of "(ex_up ControlAuto)\<lparr>conn_obj := Some (ex_conn\<lparr>join_q := [''r'']\<rparr>)\<rparr>"
      "ex_conn\<lparr>join_q := [''r'']\<rparr>" "''r''" "[]" ex_env]
  by (simp add: ex_up_fields ex_healthy)

text \<open>
  Recovery after an overflow. When messages were dropped, the next queued message goes out behind
  a broadcast repaint: HELLO and OUTPUT for everybody, no CONTROL frame, then the message itself,
  with consecutive sequence numbers; the drop flag is cleared and the rest of the queue is kept.
\<close>

theorem drop_recovery:
  assumes "conn_obj st = Some c" "send_q c = m # rest" "dropped c" "\<not> m_text m" "m_target m = []"
    and "healthy e c" "cipher_ok (r2v st)"
  shows "\<exists>f1 f2 f3 c'. conn_obj (sender_send e st) = Some c'
    \<and> ws_out c' = ws_out c @ [WsBinary f1, WsBinary f2, WsBinary f3]
    \<and> Open (r2v st) f1 = Inr (outSeq st + 1, KindHello, EncodeHello (baseline st []) (s_cols (sess st)) (s_rows (sess st)))
    \<and> Open (r2v st) f2 = Inr (outSeq st + 2, KindOutput, [0x1B, 0x63] @ Snapshot (o_ring st))
    \<and> Open (r2v st) f3 = Inr (outSeq st + 3, m_kind m, m_payload m)
    \<and> send_q c' = rest \<and> \<not> dropped c'"
proof -
  let ?st = "upd_conn (\<lambda>c. c\<lparr>dropped := False\<rparr>) (upd_conn (\<lambda>c. c\<lparr>send_q := rest\<rparr>) st)"
  let ?c = "c\<lparr>send_q := rest, dropped := False\<rparr>"
  have c: "conn_obj ?st = Some ?c" "healthy e ?c" using assms by (simp_all add: upd_conn_def)
  obtain m1 m2 where m: "repaintFrames ?st [] = [m1, m2]"
    and p: "m_target m1 = []" "m_kind m1 = KindHello"
        "m_payload m1 = EncodeHello (baseline st []) (s_cols (sess st)) (s_rows (sess st))"
      "m_target m2 = []" "m_kind m2 = KindOutput" "m_payload m2 = [0x1B, 0x63] @ Snapshot (o_ring st)"
    by (simp add: repaintFrames_def Size_def upd_conn_def baseline_def floor_of_def)
  let ?c2 = "?c\<lparr>ws_out := ws_out c @ framed_run e (r2v st) (outSeq st) [m1, m2]\<rparr>"
  let ?st2 = "?st\<lparr>outSeq := outSeq st + 2, conn_obj := Some ?c2\<rparr>"
  have w: "sendRepaint e [] ?st = (?st2, True)"
    using write_frames_healthy [OF c(2,1), of "repaintFrames ?st []"] m
    by (simp add: sendRepaint_def upd_conn_def)
  have w2: "writeMsg e (m_target m) (m_kind m) (m_payload m) ?st2 =
      (?st2\<lparr>outSeq := outSeq st + 3,
        conn_obj := Some (?c2\<lparr>ws_out := ws_out ?c2 @ [framed e (r2v st) (outSeq st + 3) m]\<rparr>)\<rparr>, True)"
    using writeMsg_healthy [of e ?c2 ?st2 m] c(2) by (simp add: upd_conn_def add.assoc)
  obtain f1 f2 f3 where f: "framed e (r2v st) (outSeq st + 1) m1 = WsBinary f1"
      "Open (r2v st) f1 = Inr (outSeq st + 1, m_kind m1, m_payload m1)"
      "framed e (r2v st) (outSeq st + 2) m2 = WsBinary f2"
      "Open (r2v st) f2 = Inr (outSeq st + 2, m_kind m2, m_payload m2)"
      "framed e (r2v st) (outSeq st + 3) m = WsBinary f3"
      "Open (r2v st) f3 = Inr (outSeq st + 3, m_kind m, m_payload m)"
    using Open_framed [OF assms(6,7) p(1)] Open_framed [OF assms(6,7) p(4)]
      Open_framed [OF assms(6,7) assms(5)] by metis
  show ?thesis
    by (rule exI [of _ f1], rule exI [of _ f2], rule exI [of _ f3])
      (use assms(1-4) w w2 f p in \<open>simp add: sender_send_def sender_after_def Let_def add.assoc\<close>)
qed

theorem drop_recovery_witness:
  "\<exists>f1 f2 f3 c'.
    conn_obj (sender_send ex_env ((ex_up ControlAuto)\<lparr>conn_obj := Some (ex_conn\<lparr>dropped := True,
        send_q := [\<lparr>m_kind = KindOutput, m_payload = [7], m_target = [], m_text = False\<rparr>]\<rparr>)\<rparr>)) = Some c'
    \<and> ws_out c' = [WsBinary f1, WsBinary f2, WsBinary f3]
    \<and> Open (ex_cipher 1) f1 = Inr (1, KindHello, EncodeHello 1 80 24)
    \<and> Open (ex_cipher 1) f2 = Inr (2, KindOutput, [0x1B, 0x63])
    \<and> Open (ex_cipher 1) f3 = Inr (3, KindOutput, [7])
    \<and> send_q c' = [] \<and> \<not> dropped c'"
  using drop_recovery [of "(ex_up ControlAuto)\<lparr>conn_obj := Some (ex_conn\<lparr>dropped := True,
        send_q := [\<lparr>m_kind = KindOutput, m_payload = [7], m_target = [], m_text = False\<rparr>]\<rparr>)\<rparr>"
      "ex_conn\<lparr>dropped := True,
        send_q := [\<lparr>m_kind = KindOutput, m_payload = [7], m_target = [], m_text = False\<rparr>]\<rparr>"
      "\<lparr>m_kind = KindOutput, m_payload = [7], m_target = [], m_text = False\<rparr>" "[]" ex_env]
  by (simp add: ex_up_fields ex_healthy)

text \<open>
  A failed write ends the connection. If the WebSocket refuses the next write, serving a queued
  message writes nothing, closes the connection's \<^verbatim>\<open>done\<close> channel and ends the sender.
\<close>

theorem write_failure_stops:
  assumes "conn_obj st = Some c" "send_q c = m # rest" "\<not> ws_ok c (length (ws_out c))"
  shows "\<exists>c'. conn_obj (sender_send e st) = Some c' \<and> ws_out c' = ws_out c \<and> c_done c' \<and> \<not> sender_up c'"
proof -
  have bad: "writeMsg e t k p st' = (st'\<lparr>outSeq := outSeq st' + 1\<rparr>, False)"
    if "conn_obj st' = Some c'" "\<not> ws_ok c' (length (ws_out c'))" for t k p st' c'
    using that by (simp add: writeMsg_def writeTargetFrame_def writeText_def ws_write_def Let_def
        split: sum.split)
  have "\<exists>st2. sendRepaint e [] st' = (st2, False) \<and> conn_obj st2 = conn_obj st'"
    if "conn_obj st' = Some c'" "\<not> ws_ok c' (length (ws_out c'))" for st' c'
    using that by (simp add: sendRepaint_def repaintFrames_def bad split: prod.split)
  from this [of "upd_conn (\<lambda>c. c\<lparr>dropped := False\<rparr>) (upd_conn (\<lambda>c. c\<lparr>send_q := rest\<rparr>) st)"]
  show ?thesis using assms
    by (auto simp: sender_send_def sender_after_def writeText_def ws_write_def upd_conn_def
        conn_fail_def Let_def bad)
qed

theorem write_failure_stops_witness:
  "\<exists>c'. conn_obj (sender_send ex_env ((ex_up ControlAuto)\<lparr>conn_obj := Some (ex_conn\<lparr>ws_ok := \<lambda>_. False,
        send_q := [\<lparr>m_kind = KindOutput, m_payload = [7], m_target = [], m_text = False\<rparr>]\<rparr>)\<rparr>)) = Some c'
     \<and> ws_out c' = [] \<and> c_done c' \<and> \<not> sender_up c'"
  using write_failure_stops [of "(ex_up ControlAuto)\<lparr>conn_obj := Some (ex_conn\<lparr>ws_ok := \<lambda>_. False,
        send_q := [\<lparr>m_kind = KindOutput, m_payload = [7], m_target = [], m_text = False\<rparr>]\<rparr>)\<rparr>"
      "ex_conn\<lparr>ws_ok := \<lambda>_. False,
        send_q := [\<lparr>m_kind = KindOutput, m_payload = [7], m_target = [], m_text = False\<rparr>]\<rparr>"
      "\<lparr>m_kind = KindOutput, m_payload = [7], m_target = [], m_text = False\<rparr>" "[]" ex_env]
  by simp

subsection \<open>Only ciphertext leaves\<close>

text \<open>
  What the payload of each kind of frame is: the three fields of HELLO, any bytes for OUTPUT, an
  exit code, one of the three control states. The runner sends no other kind.
\<close>

definition typed_payload :: "byte \<Rightarrow> bytes \<Rightarrow> bool" where
  "typed_payload kind p =
     (if kind = KindHello then (case DecodeHello p of Inl _ \<Rightarrow> False | Inr (b, cols, rows) \<Rightarrow> p = EncodeHello b cols rows)
      else if kind = KindExit then (case DecodeExit p of Inl _ \<Rightarrow> False | Inr code \<Rightarrow> p = EncodeExit code)
      else if kind = KindControl then p \<in> {[ControlReadOnly], [ControlGranted], [ControlTaken]}
      else kind = KindOutput)"

lemma typed_intros [simp]:
  "typed_payload KindHello (EncodeHello b cols rows)" "typed_payload KindOutput p"
  "typed_payload KindExit (EncodeExit code)" "typed_payload KindControl [controlState st v]"
  "typed_payload KindControl [ControlReadOnly]" "typed_payload KindControl [ControlGranted]"
  "typed_payload KindControl [ControlTaken]"
proof -
  have "DecodeHello (EncodeHello b cols rows) = Inr (b, cols, rows)" by (metis DecodeHello_iff append_Nil2)
  then show "typed_payload KindHello (EncodeHello b cols rows)" by (simp add: typed_payload_def)
  have "DecodeExit (EncodeExit code) = Inr code" by (metis DecodeExit_iff append_Nil2)
  then show "typed_payload KindExit (EncodeExit code)" by (simp add: typed_payload_def kind_defs)
qed (simp_all add: typed_payload_def kind_defs controlState_def)

definition typed_msg :: "outMsg \<Rightarrow> bool" where
  "typed_msg m = (if m_text m then m_payload m = byeEnded else typed_payload (m_kind m) (m_payload m))"

lemma typed_repaint: "m \<in> set (repaintFrames st v) \<Longrightarrow> \<not> m_text m \<and> typed_payload (m_kind m) (m_payload m)"
  by (auto simp: repaintFrames_def split: prod.splits if_splits)

text \<open>
  The messages the relay may see: frames sealed with the runner-to-viewer key around such a
  payload, such frames addressed to one route, and the fixed goodbye.
\<close>

definition sealed_by :: "Cipher \<Rightarrow> bytes \<Rightarrow> bool" where
  "sealed_by c fr \<longleftrightarrow> (\<exists>nonce seq kind p. fr = sealWithNonce c nonce seq kind p \<and> typed_payload kind p)"

definition ciphertext_only :: "Cipher \<Rightarrow> wsmsg \<Rightarrow> bool" where
  "ciphertext_only c w \<longleftrightarrow>
     (case w of
        WsBinary fr \<Rightarrow> sealed_by c fr
      | WsText t \<Rightarrow> t = byeEnded \<or> (\<exists>v fr. sealed_by c fr \<and> t = to_viewer_body v fr))"

definition wire_ok :: "Cipher \<Rightarrow> connState option \<Rightarrow> bool" where
  "wire_ok k co \<longleftrightarrow>
     (\<forall>c. co = Some c \<longrightarrow> (\<forall>w \<in> set (ws_out c). ciphertext_only k w) \<and> (\<forall>m \<in> set (send_q c). typed_msg m))"

lemma wire_ok_None [simp]: "wire_ok k None"
  by (simp add: wire_ok_def)

lemma wire_ok_offer: "wire_ok k (Some c) \<Longrightarrow> typed_msg m \<Longrightarrow> wire_ok k (Some (conn_offer e m c))"
  by (auto simp: wire_ok_def conn_offer_def)

lemma wire_ok_offered: "wire_ok k (conn_obj st) \<Longrightarrow> typed_msg m \<Longrightarrow> wire_ok k (offered e m st)"
  using wire_ok_offer by (cases "conn_obj st") (auto simp: offered_def)

lemma wire_ok_offered_upd:
  "conn_obj st' = conn_obj st \<Longrightarrow> wire_ok k (conn_obj st) \<Longrightarrow> typed_msg m \<Longrightarrow> wire_ok k (offered e m st')"
  using wire_ok_offered [of k st' m e] by simp

lemma wire_ok_handlers:
  assumes "wire_ok k (conn_obj st)"
  shows "wire_ok k (conn_obj (Resize e cols rows st))"
    "wire_ok k (conn_obj (pump_chunk e chunk st))"
    "wire_ok k (conn_obj (keepalive_tick e st))"
    "wire_ok k (conn_obj (handleControlRequest e v r st))"
    "wire_ok k (conn_obj (handleControlRelease e v r st))"
    "wire_ok k (conn_obj (Revoke e st))"
  using assms
  by (auto simp: Resize_def pump_chunk_def keepalive_tick_def handleControlRequest_def
      handleControlRelease_def Revoke_def emit_shapes Let_def typed_msg_def
      intro!: wire_ok_offered_upd [of _ st] split: prod.split)

lemma wire_ok_signalExit:
  assumes "wire_ok k (conn_obj st)"
  shows "wire_ok k (conn_obj (signalExit e st))"
proof -
  have "wire_ok k (conn_obj (emit e KindExit (EncodeExit code) st))" for code
    using assms by (simp add: emit_shapes wire_ok_offered_upd typed_msg_def)
  then show ?thesis by (simp add: signalExit_def emitText_def enqueue_shape wire_ok_offered typed_msg_def)
qed

lemma wire_ok_handleBinary:
  "wire_ok k (conn_obj st) \<Longrightarrow> wire_ok k (conn_obj (handleBinary e fr st))"
proof (cases rule: handleBinary_cases [of e fr st])
  case (taken r v seq kind p)
  assume "wire_ok k (conn_obj st)"
  then have "wire_ok k (conn_obj (accepted r v seq st))" by (simp add: accepted_def)
  then show ?thesis unfolding taken(5) by (simp add: dispatch_def wire_ok_handlers split: sum.split)
qed simp

lemma wire_ok_handleControl:
  assumes "wire_ok k (conn_obj st)"
  shows "wire_ok k (conn_obj (handleControl e d st))"
proof -
  have "wire_ok k (conn_obj (handleControlMsg e m st))" for m
    using assms by (auto simp: handleControlMsg_def emit_shapes Let_def signal_join_def wire_ok_def
        forgetViewer_frame split: option.split)
  then show ?thesis using assms by (simp add: handleControl_def split: option.split)
qed

text \<open>Writing keeps it: what is written is sealed, and the queues only shrink.\<close>

lemma wire_ok_ws:
  "wire_ok k (conn_obj st) \<Longrightarrow> ciphertext_only k w \<Longrightarrow> wire_ok k (conn_obj (fst (ws_write w st)))"
  by (auto simp: wire_ok_def ws_write_def split: option.splits)

lemma wire_ok_msg:
  assumes "wire_ok (r2v st) (conn_obj st)" "typed_payload kd p"
  shows "wire_ok (r2v st) (conn_obj (fst (writeMsg e t kd p st)))"
proof -
  let ?st = "st\<lparr>outSeq := outSeq st + 1\<rparr>"
  have "sealed_by (r2v st) fr" if "Seal (r2v st) n sq kd p = Inr fr" for fr n sq
    using that assms(2) by (auto simp: Seal_def sealed_by_def split: option.splits)
  then have "ciphertext_only (r2v st) (WsBinary fr)" "ciphertext_only (r2v st) (WsText (to_viewer_body t fr))"
    if "Seal (r2v st) n sq kd p = Inr fr" for fr n sq
    using that unfolding ciphertext_only_def wsmsg.case by blast+
  then show ?thesis using assms(1) wire_ok_ws [of "r2v st" ?st]
    by (auto simp: writeMsg_def writeTargetFrame_def writeText_def Let_def split: sum.split)
qed

lemma only_conn_r2v: "only_conn st st' \<Longrightarrow> r2v st' = r2v st"
  by (elim only_connE) simp

lemma wire_ok_frames:
  "wire_ok (r2v st) (conn_obj st) \<Longrightarrow> \<forall>m\<in>set ms. typed_payload (m_kind m) (m_payload m)
   \<Longrightarrow> wire_ok (r2v st) (conn_obj (fst (write_frames e ms st)))"
proof (induction ms arbitrary: st)
  case (Cons m ms)
  obtain st1 ok where w: "writeMsg e (m_target m) (m_kind m) (m_payload m) st = (st1, ok)"
    by fastforce
  then have "wire_ok (r2v st) (conn_obj st1)" "r2v st1 = r2v st"
    using wire_ok_msg [OF Cons.prems(1), of "m_kind m" "m_payload m"] Cons.prems(2)
      only_conn_r2v [OF only_conn_msg] by (metis fst_conv list.set_intros(1))+
  with w Cons.IH [of st1] Cons.prems(2) show ?case by auto
qed simp

lemma wire_ok_after:
  "wire_ok k (conn_obj (fst r)) \<Longrightarrow> wire_ok k (conn_obj (sender_after r))"
  by (cases r; cases "snd r")
    (auto simp: sender_after_def upd_conn_def conn_fail_def wire_ok_def)

lemma wire_ok_sender_join:
  assumes "wire_ok (r2v st) (conn_obj st)"
  shows "wire_ok (r2v st) (conn_obj (sender_join e st))"
proof -
  have "wire_ok (r2v st) (conn_obj (upd_conn (\<lambda>c. c\<lparr>join_q := rest\<rparr>) st))" for rest
    using assms by (auto simp: upd_conn_def wire_ok_def)
  then have "wire_ok (r2v st) (conn_obj (fst (sendRepaint e v (upd_conn (\<lambda>c. c\<lparr>join_q := rest\<rparr>) st))))" for rest v
    using wire_ok_frames [of "upd_conn (\<lambda>c. c\<lparr>join_q := rest\<rparr>) st"] typed_repaint
    by (simp add: sendRepaint_def upd_conn_def)
  then show ?thesis using assms
    by (auto simp: sender_join_def intro!: wire_ok_after split: option.splits list.splits)
qed

lemma wire_ok_sender_send:
  assumes "wire_ok (r2v st) (conn_obj st)"
  shows "wire_ok (r2v st) (conn_obj (sender_send e st))"
proof (cases "\<exists>c m rest. conn_obj st = Some c \<and> send_q c = m # rest")
  case True
  then obtain c m rest where c: "conn_obj st = Some c" "send_q c = m # rest" by blast
  let ?st1 = "upd_conn (\<lambda>c. c\<lparr>send_q := rest\<rparr>) st"
  let ?st2 = "upd_conn (\<lambda>c. c\<lparr>dropped := False\<rparr>) ?st1"
  obtain st3 ok where r: "sendRepaint e [] ?st2 = (st3, ok)" by fastforce
  have k: "r2v ?st1 = r2v st" "r2v ?st2 = r2v st" by (simp_all add: upd_conn_def)
  have 1: "wire_ok (r2v st) (conn_obj ?st1)" "wire_ok (r2v st) (conn_obj ?st2)"
    using assms c by (auto simp: upd_conn_def wire_ok_def)
  have 3: "r2v st3 = r2v st" "wire_ok (r2v st) (conn_obj st3)"
    using only_conn_r2v [OF only_conn_repaint [of ?st2 e "[]"]] wire_ok_frames [of ?st2 "repaintFrames ?st2 []" e] typed_repaint 1 k r
    unfolding sendRepaint_def by (metis fst_conv)+
  have bye: "ciphertext_only (r2v st) (WsText (m_payload m))" if "m_text m"
    using assms c that by (simp add: wire_ok_def ciphertext_only_def typed_msg_def)
  have ty: "typed_payload (m_kind m) (m_payload m)" if "\<not> m_text m"
    using assms c that by (simp add: wire_ok_def typed_msg_def)
  show ?thesis using c r 1 3 bye wire_ok_msg [of st3 _ _ e] wire_ok_msg [of ?st1 _ _ e] k ty
      wire_ok_ws [of "r2v st" ?st1]
    by (auto simp: sender_send_def writeText_def Let_def intro!: wire_ok_after)
qed (use assms in \<open>auto simp: sender_send_def split: option.splits list.splits\<close>)

lemma wire_ok_step:
  assumes "orch_step st st'" "wire_ok (r2v st) (conn_obj st)"
  shows "wire_ok (r2v st) (conn_obj st')"
  using assms(1)
proof cases
  case (read c e w)
  with assms(2) show ?thesis
    by (cases w) (simp_all add: reader_message_def wire_ok_handleBinary wire_ok_handleControl)
qed (use assms(2) in \<open>simp_all add: wire_ok_handlers wire_ok_signalExit wire_ok_sender_join
    wire_ok_sender_send\<close>, use assms(2) in \<open>auto simp: wire_ok_def host_input_def pumpInput_def
    child_exit_def shutdown_def sender_stop_def upd_conn_def serve_start_def serve_reader_end_def
    conn_fail_def serve_unpublish_def serve_finish_def note_host_shape Let_def\<close>)

lemma wire_ok_run:
  "orch_step\<^sup>*\<^sup>* st st' \<Longrightarrow> wire_ok (r2v st) (conn_obj st) \<Longrightarrow> wire_ok (r2v st) (conn_obj st')"
proof (induction rule: rtranclp_induct)
  case (step t u)
  from run_setup [OF step(1)] have "r2v t = r2v st" by (simp add: same_setup_def)
  with step wire_ok_step [of t u] show ?case by simp
qed

text \<open>
  C21: Every message has the type of its kind. In every state a session can reach, each queued
  message that is not the goodbye, and each sealed frame written to the WebSocket, broadcast or addressed, carries a
  payload its kind prescribes: sealed with a nonce of the right length it opens to a HELLO that decodes, an EXIT that
  decodes, one of the three control states, or output - never to another kind, so a viewer's decoders
  never fail on what the runner sends.
\<close>

theorem frames_well_typed:
  assumes "New cfg = Inr st0" "orch_step\<^sup>*\<^sup>* st0 st" "conn_obj st = Some c"
  shows "(\<forall>m\<in>set (send_q c). typed_msg m)
    \<and> (\<forall>w\<in>set (ws_out c). w = WsText byeEnded
        \<or> (\<exists>nonce seq kind p fr. (w = WsBinary fr \<or> (\<exists>v. w = WsText (to_viewer_body v fr)))
            \<and> fr = sealWithNonce (r2v st0) nonce seq kind p \<and> typed_payload kind p
            \<and> (length nonce = nonceLen \<longrightarrow> Open (r2v st0) fr = Inr (seq, kind, p))))"
proof -
  have k: "cipher_ok (r2v st0)" using New_fields [OF assms(1)] by simp
  have "wire_ok (r2v st0) (Some c)" using wire_ok_run [OF assms(2)] New_fields [OF assms(1)] assms(3) by simp
  then have q: "\<forall>m\<in>set (send_q c). typed_msg m" "\<forall>w\<in>set (ws_out c). ciphertext_only (r2v st0) w"
    by (simp_all add: wire_ok_def)
  moreover have "\<exists>nonce seq kind p. fr = sealWithNonce (r2v st0) nonce seq kind p \<and> typed_payload kind p
      \<and> (length nonce = nonceLen \<longrightarrow> Open (r2v st0) fr = Inr (seq, kind, p))" if "sealed_by (r2v st0) fr" for fr
    using that Open_sealWithNonce [OF k] unfolding sealed_by_def by blast
  ultimately show ?thesis unfolding ciphertext_only_def by (fastforce split: wsmsg.splits)
qed

abbreviation ex_hello :: outMsg where
  "ex_hello \<equiv> \<lparr>m_kind = KindHello, m_payload = EncodeHello 1 80 24, m_target = [], m_text = False\<rparr>"

lemma ex_hello_sent:
  "conn_obj (sender_send ex_env (keepalive_tick ex_env (ex_up mode)))
    = Some (ex_conn\<lparr>ws_out := [framed ex_env (ex_cipher 1) 1 ex_hello]\<rparr>)"
proof -
  have k: "keepalive_tick ex_env (ex_up mode) = (ex_up mode)\<lparr>conn_obj := Some (ex_conn\<lparr>send_q := [ex_hello]\<rparr>)\<rparr>"
    by (simp add: keepalive_tick_def Size_def ex_up_fields emit_shapes offered_def conn_offer_def sendQueue_def)
      (simp add: ex_simps ex_conn_def)
  have u: "upd_conn (\<lambda>c. c\<lparr>send_q := []\<rparr>) ((ex_up mode)\<lparr>conn_obj := Some (ex_conn\<lparr>send_q := [ex_hello]\<rparr>)\<rparr>)
      = (ex_up mode)\<lparr>conn_obj := Some ex_conn\<rparr>"
    by (simp add: upd_conn_def ex_conn_def)
  have "writeMsg ex_env [] KindHello (EncodeHello 1 80 24) ((ex_up mode)\<lparr>conn_obj := Some ex_conn\<rparr>) =
      ((ex_up mode)\<lparr>outSeq := 1, conn_obj := Some (ex_conn\<lparr>ws_out := [framed ex_env (ex_cipher 1) 1 ex_hello]\<rparr>)\<rparr>, True)"
    using writeMsg_healthy [OF ex_healthy, of "(ex_up mode)\<lparr>conn_obj := Some ex_conn\<rparr>" ex_hello]
    by (simp add: ex_up_fields)
  moreover have "\<not> dropped ex_conn" by (simp add: ex_conn_def)
  ultimately show ?thesis unfolding k by (simp add: sender_send_def sender_after_def u Let_def)
qed

lemma ex_hello_run:
  "orch_step\<^sup>*\<^sup>* (ex_orch ControlAuto) (sender_send ex_env (keepalive_tick ex_env (ex_up ControlAuto)))"
proof -
  let ?k = "keepalive_tick ex_env (ex_up ControlAuto)"
  have "orch_step\<^sup>*\<^sup>* (ex_orch ControlAuto) ?k"
    by (meson ex_up_step orch_step.keepalive r_into_rtranclp rtranclp.rtrancl_into_rtrancl)
  moreover have "\<exists>c. conn_obj ?k = Some c \<and> sender_up c"
    by (simp add: keepalive_tick_def emit_shapes offered_def conn_offer_def ex_simps split: prod.split)
  then have "orch_step ?k (sender_send ex_env ?k)" by (auto intro: orch_step.send)
  ultimately show ?thesis by simp
qed

theorem frames_well_typed_witness:
  "\<exists>nonce seq kind p. framed ex_env (ex_cipher 1) 1 ex_hello = WsBinary (sealWithNonce (ex_cipher 1) nonce seq kind p)
     \<and> typed_payload kind p"
  using frames_well_typed [OF New_ex_config ex_hello_run ex_hello_sent]
  by (auto simp: ex_orch_def framed_def)

subsection \<open>The local side\<close>

text \<open>The chunks a pump loop handles: the non-empty reads up to the first error.\<close>

fun pumped :: "('e \<times> bytes \<times> bool) list \<Rightarrow> bytes list" where
  "pumped [] = []"
| "pumped ((e, chunk, err) # reads) = (if chunk \<noteq> [] then [chunk] else []) @ (if err then [] else pumped reads)"

text \<open>
  Local mirroring never depends on the network. Whatever the state of the connection - none, slow,
  full, failed - pumping the PTY's output writes every chunk read, in order and unchanged, to the
  host's terminal and to the resume ring, and changes nothing about the session, the floors or
  control.
\<close>

theorem mirror_complete:
  "local_out (pumpOutput reads st) = local_out st @ (if has_localOut st then pumped reads else [])
   \<and> o_ring (pumpOutput reads st) = foldl (\<lambda>r p. fst (Write r p)) (o_ring st) (pumped reads)
   \<and> sess (pumpOutput reads st) = sess st \<and> controlOwner (pumpOutput reads st) = controlOwner st
   \<and> inSeqByViewer (pumpOutput reads st) = inSeqByViewer st \<and> has_localOut (pumpOutput reads st) = has_localOut st"
proof (induction reads st rule: pumpOutput.induct)
  case (2 e chunk err reads st)
  have "local_out (pump_chunk e chunk st) = local_out st @ (if has_localOut st then [chunk] else [])
      \<and> o_ring (pump_chunk e chunk st) = fst (Write (o_ring st) chunk)
      \<and> sess (pump_chunk e chunk st) = sess st \<and> controlOwner (pump_chunk e chunk st) = controlOwner st
      \<and> inSeqByViewer (pump_chunk e chunk st) = inSeqByViewer st
      \<and> has_localOut (pump_chunk e chunk st) = has_localOut st"
    by (simp add: pump_chunk_def emit_shapes Let_def)
  with 2 [OF refl] show ?case by (cases "chunk = []"; cases err) simp_all
qed simp

text \<open>
  What the host types always reaches the command: with a local input and an open PTY, every chunk
  read is written to the PTY, in order, whoever owns control; no viewer state is consulted or
  changed.
\<close>

theorem host_typing:
  assumes "has_localIn st" "ptmx_open (sess st)"
  shows "pumpInput (map snd reads) st = st\<lparr>sess := (sess st)\<lparr>pty_in := pty_in (sess st) @ pumped reads\<rparr>\<rparr>"
proof -
  have "pumpInput_loop (map snd reads) st = st\<lparr>sess := (sess st)\<lparr>pty_in := pty_in (sess st) @ pumped reads\<rparr>\<rparr>"
    using assms(2)
    by (induction reads arbitrary: st rule: pumped.induct) (auto simp: SessionWrite_def)
  with assms(1) show ?thesis by (simp add: pumpInput_def)
qed

theorem host_typing_witness:
  "pty_in (sess (pumpInput (map snd [((), [0x6C], False), ((), [], False), ((), [0x73], True), ((), [0x21], False)])
     (ex_up ControlViewOnly))) = [[0x6C], [0x73]]"
  by (subst host_typing) (simp_all add: ex_simps)

text \<open>
  The end of the command is announced in order: with a live connection and room for two messages,
  \<^verbatim>\<open>signalExit\<close> queues the encrypted EXIT frame with the exit code and behind it the plaintext
  goodbye.
\<close>

theorem exit_then_bye:
  assumes "published st" "conn_obj st = Some c" "\<not> c_done c" "length (send_q c) + 2 \<le> 256"
  shows "\<exists>c'. conn_obj (signalExit e st) = Some c' \<and> send_q c' = send_q c @
    [\<lparr>m_kind = KindExit, m_payload = EncodeExit (word_of_int (ExitCode (sess st))), m_target = [], m_text = False\<rparr>,
     \<lparr>m_kind = 0, m_payload = byeEnded, m_target = [], m_text = True\<rparr>]"
  using assms by (simp add: signalExit_def emit_shapes offered_def conn_offer_def sendQueue_def)

theorem exit_then_bye_witness:
  "\<exists>c'. conn_obj (signalExit ex_env (child_exit 3 (ex_up ControlAuto))) = Some c' \<and> send_q c' =
    [\<lparr>m_kind = KindExit, m_payload = EncodeExit 3, m_target = [], m_text = False\<rparr>,
     \<lparr>m_kind = 0, m_payload = byeEnded, m_target = [], m_text = True\<rparr>]"
  using exit_then_bye [of "child_exit 3 (ex_up ControlAuto)" ex_conn ex_env]
  by (simp add: child_exit_def ExitCode_def Wait_def Let_def ex_up_fields) (simp add: ex_simps ex_conn_def)

subsection \<open>A viewer drives the terminal\<close>

text \<open>
  An honest viewer gets what it asks for. In an auto-control session nobody controls, a viewer
  whose control request and keystrokes arrive in order of their sequence numbers (under whatever
  routes, with whatever nonces) becomes the owner and its keystrokes reach the command's PTY.
\<close>

theorem viewer_drives_terminal:
  assumes "cipher_ok (v2r st)" "control st = ControlAuto" "controlOwner st = []" "ptmx_open (sess st)"
    and "length n1 = 12" "length n2 = 12" "v \<noteq> []" "length v \<le> 255"
    and "r1 \<noteq> []" "length r1 \<le> 255" "r2 \<noteq> []" "length r2 \<le> 255"
    and "floor_of st v < s1" "s1 < s2"
    and "st1 = handleBinary e1 (viewer_frame (v2r st) n1 r1 v s1 KindCtrlReq []) st"
    and "st2 = handleBinary e2 (viewer_frame (v2r st) n2 r2 v s2 KindInput keys) st1"
  shows "controlOwner st1 = v \<and> ownerRoute st1 = r1 \<and> pty_in (sess st2) = pty_in (sess st) @ [keys]"
proof -
  let ?a = "accepted r1 v s1 st"
  have st1: "st1 = handleControlRequest e1 v r1 ?a"
    using handle_viewer_frame [OF assms(1,5,9,10,7,8,13)] assms(15) by (simp add: dispatch_def kind_defs)
  then have o1: "controlOwner st1 = v" "ownerRoute st1 = r1" "sess st1 = sess st" "v2r st1 = v2r st"
    using assms(2,3,7) by (simp_all add: handleControlRequest_def emit_shapes accepted_def Let_def)
  have "floor_of st1 v = floor_of ?a v"
    unfolding st1 by (rule floor_of_cong) (rule handleControlRequest_frame)
  with assms(14) have "floor_of st1 v < s2" by (simp add: floor_of_accepted)
  with handle_viewer_frame [of st1 n2 r2 v s2 e2 KindInput keys] o1(4) assms
  have "st2 = dispatch e2 r2 v KindInput keys (accepted r2 v s2 st1)" by simp
  with o1 assms(4) show ?thesis
    by (simp add: dispatch_def accepted_def viewerHasControl_def SessionWrite_def)
qed

theorem viewer_drives_terminal_witness:
  "pty_in (sess (handleBinary ex_env (ex_frame ''r2'' ''v'' 9 KindInput [0x6C, 0x73])
     (handleBinary ex_env (ex_frame ''r1'' ''v'' 4 KindCtrlReq []) (ex_up ControlAuto)))) = [[0x6C, 0x73]]"
  using viewer_drives_terminal [OF _ _ _ _ _ _ _ _ _ _ _ _ _ _ refl refl,
      of "ex_up ControlAuto" "replicate 12 0" "replicate 12 0" "''v''" "''r1''" "''r2''" 4 9 ex_env ex_env "[0x6C, 0x73]"]
  by (simp add: ex_simps floor_of_def)

end
