(* ===== verification/RelayNet.thy ===== *)
theory RelayNet
  imports PortalSocket
begin

text \<open>
  One session of the relay with its sockets, as a transition system. The session process and every
  socket process have a mailbox; a step is one message handled by one process, one frame from a
  client, one arrival or one departure. A join is a synchronous call: the socket waits for the
  session and then runs its \<^verbatim>\<open>init\<close>. A monitor delivers one \<^verbatim>\<open>:DOWN\<close> when its process is
  gone, and \<^verbatim>\<open>Process.demonitor(ref, [:flush])\<close> removes it from the mailbox. Messages arrive in
  the order they are sent, as between processes of one node. Process ids are not reused, so what is
  sent to a process that is gone is never read. \<open>n_in\<close> and \<open>n_out\<close> record everything a
  socket received from and pushed to its client.
\<close>

record relay_env =
  w_jenc :: encoder
  w_jdec :: "bytes \<Rightarrow> json option"
  w_maxq :: nat
  w_rnd :: "pid \<Rightarrow> bytes"
  w_role :: "pid \<Rightarrow> role"

definition vid :: "relay_env \<Rightarrow> pid \<Rightarrow> string" where
  "vid w p = viewer_id_of (w_rnd w p)"

datatype sess_msg =
    CallRunner pid
  | CallViewer pid
  | CastMsg cast
  | DrainMsg
  | TtlMsg
  | IdleMsg
  | ReapMsg
  | DownMsg monitor pid

datatype sock = Joining | Live Socket

record Net =
  n_sess :: "PSession option"
  n_inbox :: "sess_msg list"
  n_mons :: "(monitor \<times> pid) list"
  n_refs :: nat
  n_pids :: nat
  n_socks :: "pid \<rightharpoonup> sock"
  n_mail :: "pid \<Rightarrow> mail list"
  n_out :: "pid \<Rightarrow> wsmsg list"
  n_in :: "pid \<Rightarrow> wsmsg list"

definition net_init :: "PSession \<Rightarrow> Net" where
  "net_init s =
     \<lparr>n_sess = Some s, n_inbox = [], n_mons = [], n_refs = 0, n_pids = 0, n_socks = Map.empty,
      n_mail = (\<lambda>_. []), n_out = (\<lambda>_. []), n_in = (\<lambda>_. [])\<rparr>"

subsection \<open>Messages, monitors and deaths\<close>

definition mail_for :: "pid \<Rightarrow> (pid \<times> mail) list \<Rightarrow> mail list" where
  "mail_for p sends = map snd (filter (\<lambda>(q, m). q = p) sends)"

definition post :: "(pid \<times> mail) list \<Rightarrow> Net \<Rightarrow> Net" where
  "post sends n = n\<lparr>n_mail := (\<lambda>p. n_mail n p @ mail_for p sends)\<rparr>"

definition die :: "pid \<Rightarrow> Net \<Rightarrow> Net" where
  "die p n =
     n\<lparr>n_socks := (n_socks n)(p := None),
       n_inbox := n_inbox n @ map (\<lambda>(r, q). DownMsg r q) (filter (\<lambda>(r, q). q = p) (n_mons n)),
       n_mons := filter (\<lambda>(r, q). q \<noteq> p) (n_mons n)\<rparr>"

definition monitor_pid :: "pid \<Rightarrow> Net \<Rightarrow> Net" where
  "monitor_pid p n =
     (if n_socks n p = None
      then n\<lparr>n_refs := Suc (n_refs n), n_inbox := n_inbox n @ [DownMsg (n_refs n) p]\<rparr>
      else n\<lparr>n_refs := Suc (n_refs n), n_mons := (n_refs n, p) # n_mons n\<rparr>)"

definition down_of :: "monitor \<Rightarrow> sess_msg \<Rightarrow> bool" where
  "down_of ref m = (case m of DownMsg r p \<Rightarrow> r = ref | _ \<Rightarrow> False)"

definition demonitor_flush :: "monitor option \<Rightarrow> Net \<Rightarrow> Net" where
  "demonitor_flush ro n =
     (case ro of
        None \<Rightarrow> n
      | Some ref \<Rightarrow> n\<lparr>n_mons := filter (\<lambda>(r, q). r \<noteq> ref) (n_mons n),
                       n_inbox := filter (\<lambda>m. \<not> down_of ref m) (n_inbox n)\<rparr>)"

text \<open>What a socket's handler does to the system.\<close>

definition sock_apply :: "pid \<Rightarrow> sock_effect \<Rightarrow> Net \<Rightarrow> Net" where
  "sock_apply p ef n =
     (let n1 = post (se_send ef)
                 (n\<lparr>n_out := (n_out n)(p := n_out n p @ se_push ef),
                    n_inbox := n_inbox n @ map CastMsg (se_cast ef)\<rparr>)
      in case se_next ef of
           Goes k \<Rightarrow> n1\<lparr>n_socks := (n_socks n1)(p \<mapsto> Live k)\<rparr>
         | Stops _ _ \<Rightarrow> die p n1)"

subsection \<open>The session handles a message\<close>

definition serve_runner :: "relay_env \<Rightarrow> int \<Rightarrow> pid \<Rightarrow> PSession \<Rightarrow> Net \<Rightarrow> Net" where
  "serve_runner w now p s n =
     (let n1 = demonitor_flush (ss_runner_ref s) n;
          (snap, sends, s') = join_runner (w_jenc w) now p (n_refs n1) s;
          n2 = (post sends (monitor_pid p n1))\<lparr>n_sess := Some s'\<rparr>
      in if n_socks n p = None then n2 else sock_apply p (init_runner (w_jenc w) (w_maxq w) snap) n2)"

definition serve_viewer :: "relay_env \<Rightarrow> pid \<Rightarrow> PSession \<Rightarrow> Net \<Rightarrow> Net" where
  "serve_viewer w p s n =
     (let (reply, sends, s') = join_viewer (w_jenc w) p (n_refs n) (w_rnd w p) s;
          n1 = (if reply = Busy then n else (post sends (monitor_pid p n))\<lparr>n_sess := Some s'\<rparr>)
      in if n_socks n p = None then n1 else sock_apply p (init_viewer (w_jenc w) (w_maxq w) reply) n1)"

definition session_apply :: "sess_result \<Rightarrow> Net \<Rightarrow> Net" where
  "session_apply r n = (case r of (sends, so) \<Rightarrow> (post sends n)\<lparr>n_sess := so\<rparr>)"

definition serve_cast :: "int \<Rightarrow> cast \<Rightarrow> PSession \<Rightarrow> sess_result" where
  "serve_cast now c s =
     (case c of CastRunnerActive \<Rightarrow> runner_active now s | CastClose reason \<Rightarrow> session_close reason s)"

definition session_handle :: "relay_env \<Rightarrow> int \<Rightarrow> sess_msg \<Rightarrow> PSession \<Rightarrow> Net \<Rightarrow> Net" where
  "session_handle w now m s n =
     (case m of
        CallRunner p \<Rightarrow> serve_runner w now p s n
      | CallViewer p \<Rightarrow> serve_viewer w p s n
      | CastMsg c \<Rightarrow> session_apply (serve_cast now c s) n
      | DrainMsg \<Rightarrow> session_apply (session_drain (w_jenc w) s) n
      | TtlMsg \<Rightarrow> session_apply (ttl_expired s) n
      | IdleMsg \<Rightarrow> session_apply (idle_expired s) n
      | ReapMsg \<Rightarrow> session_apply (reap_unconnected s) n
      | DownMsg ref p \<Rightarrow> session_apply (session_down (w_jenc w) now ref p s) n)"

subsection \<open>Steps\<close>

definition accept :: "relay_env \<Rightarrow> Net \<Rightarrow> Net" where
  "accept w n =
     (let p = n_pids n in
      n\<lparr>n_pids := Suc p, n_socks := (n_socks n)(p \<mapsto> Joining),
        n_inbox := n_inbox n @ [case w_role w p of Runner \<Rightarrow> CallRunner p | Viewer \<Rightarrow> CallViewer p]\<rparr>)"

definition receive :: "relay_env \<Rightarrow> pid \<Rightarrow> wsmsg \<Rightarrow> Socket \<Rightarrow> Net \<Rightarrow> Net" where
  "receive w p f k n =
     sock_apply p (handle_in (w_jdec w) f k) (n\<lparr>n_in := (n_in n)(p := n_in n p @ [f])\<rparr>)"

definition take_mail :: "relay_env \<Rightarrow> pid \<Rightarrow> mail \<Rightarrow> mail list \<Rightarrow> Socket \<Rightarrow> Net \<Rightarrow> Net" where
  "take_mail w p m rest k n =
     sock_apply p (handle_info (w_jenc w) (length rest) m k) (n\<lparr>n_mail := (n_mail n)(p := rest)\<rparr>)"

definition timer_armed :: "PSession \<Rightarrow> sess_msg \<Rightarrow> bool" where
  "timer_armed s m \<longleftrightarrow>
     m = TtlMsg \<and> ss_ttl_timer s \<noteq> None \<or> m = IdleMsg \<and> ss_idle_timer s \<noteq> None
     \<or> m = ReapMsg \<and> ss_unconnected_timer s \<noteq> None \<or> m = DrainMsg"

inductive relay_step :: "relay_env \<Rightarrow> Net \<Rightarrow> Net \<Rightarrow> bool" for w where
  arrives: "n_sess n \<noteq> None \<Longrightarrow> relay_step w n (accept w n)"
| receives: "n_socks n p = Some (Live k) \<Longrightarrow> relay_step w n (receive w p f k n)"
| takes: "n_socks n p = Some (Live k) \<Longrightarrow> n_mail n p = m # rest \<Longrightarrow> relay_step w n (take_mail w p m rest k n)"
| leaves: "n_socks n p \<noteq> None \<Longrightarrow> relay_step w n (die p n)"
| serves: "n_sess n = Some s \<Longrightarrow> n_inbox n = m # rest \<Longrightarrow>
    relay_step w n (session_handle w now m s (n\<lparr>n_inbox := rest\<rparr>))"
| ticks: "n_sess n = Some s \<Longrightarrow> timer_armed s m \<Longrightarrow> relay_step w n (n\<lparr>n_inbox := n_inbox n @ [m]\<rparr>)"

inductive relay_reach :: "relay_env \<Rightarrow> PSession \<Rightarrow> Net \<Rightarrow> bool" for w s where
  start: "relay_reach w s (net_init s)"
| step: "relay_reach w s n \<Longrightarrow> relay_step w n n' \<Longrightarrow> relay_reach w s n'"

subsection \<open>Fields\<close>

lemma post_fields [simp]:
  "n_sess (post ms n) = n_sess n" "n_inbox (post ms n) = n_inbox n" "n_mons (post ms n) = n_mons n"
  "n_refs (post ms n) = n_refs n" "n_pids (post ms n) = n_pids n" "n_socks (post ms n) = n_socks n"
  "n_out (post ms n) = n_out n" "n_in (post ms n) = n_in n"
  "n_mail (post ms n) p = n_mail n p @ mail_for p ms"
  by (simp_all add: post_def)

lemma die_fields [simp]:
  "n_sess (die q n) = n_sess n" "n_refs (die q n) = n_refs n" "n_pids (die q n) = n_pids n"
  "n_socks (die q n) = (n_socks n)(q := None)" "n_mail (die q n) = n_mail n"
  "n_out (die q n) = n_out n" "n_in (die q n) = n_in n"
  by (simp_all add: die_def)

lemma monitor_pid_fields [simp]:
  "n_sess (monitor_pid q n) = n_sess n" "n_refs (monitor_pid q n) = Suc (n_refs n)"
  "n_pids (monitor_pid q n) = n_pids n" "n_socks (monitor_pid q n) = n_socks n"
  "n_mail (monitor_pid q n) = n_mail n" "n_out (monitor_pid q n) = n_out n" "n_in (monitor_pid q n) = n_in n"
  by (simp_all add: monitor_pid_def)

lemma demonitor_flush_fields [simp]:
  "n_sess (demonitor_flush r n) = n_sess n" "n_refs (demonitor_flush r n) = n_refs n"
  "n_pids (demonitor_flush r n) = n_pids n" "n_socks (demonitor_flush r n) = n_socks n"
  "n_mail (demonitor_flush r n) = n_mail n" "n_out (demonitor_flush r n) = n_out n"
  "n_in (demonitor_flush r n) = n_in n"
  by (simp_all add: demonitor_flush_def split: option.split)

lemma sock_apply_fields [simp]:
  "n_sess (sock_apply p ef n) = n_sess n" "n_refs (sock_apply p ef n) = n_refs n"
  "n_pids (sock_apply p ef n) = n_pids n" "n_in (sock_apply p ef n) = n_in n"
  "n_mail (sock_apply p ef n) q = n_mail n q @ mail_for q (se_send ef)"
  "n_out (sock_apply p ef n) = (n_out n)(p := n_out n p @ se_push ef)"
  "n_socks (sock_apply p ef n) =
     (n_socks n)(p := (case se_next ef of Goes k \<Rightarrow> Some (Live k) | Stops _ _ \<Rightarrow> None))"
  by (simp_all add: sock_apply_def Let_def split: sock_next.split)

lemma session_apply_fields [simp]:
  "n_sess (session_apply r n) = snd r" "n_inbox (session_apply r n) = n_inbox n"
  "n_mons (session_apply r n) = n_mons n"
  "n_refs (session_apply r n) = n_refs n" "n_pids (session_apply r n) = n_pids n"
  "n_socks (session_apply r n) = n_socks n" "n_out (session_apply r n) = n_out n"
  "n_in (session_apply r n) = n_in n" "n_mail (session_apply r n) p = n_mail n p @ mail_for p (fst r)"
  by (simp_all add: session_apply_def split: prod.split)

lemma set_mail_for: "set (mail_for p ms) = {m. (p, m) \<in> set ms}"
  by (force simp: mail_for_def)

lemma mail_for_append [simp]: "mail_for p (xs @ ys) = mail_for p xs @ mail_for p ys"
  by (simp add: mail_for_def)

lemma mail_for_Nil [simp]: "mail_for p [] = []"
  by (simp add: mail_for_def)

lemma mail_for_Cons [simp]: "mail_for p ((q, m) # xs) = (if q = p then [m] else []) @ mail_for p xs"
  by (simp add: mail_for_def)

end
