(* ===== verification/RelayRouting.thy ===== *)
theory RelayRouting
  imports RelayNet
begin

text \<open>
  Routing in the relay. A binary frame pushed to a runner is some viewer's frame under the id the
  relay gave that viewer, and a binary frame pushed to a viewer is a runner's: one it broadcast, or
  one it addressed to that viewer's id. The invariant says which roles may be wired to which and
  where every queued frame comes from.
\<close>

type_synonym history = "pid \<Rightarrow> wsmsg list"

definition addressed :: "relay_env \<Rightarrow> bytes \<Rightarrow> string \<Rightarrow> bytes \<Rightarrow> bool" where
  "addressed w t v d \<longleftrightarrow>
     (\<exists>ms f. decode_control (w_jdec w) t = Some ms \<and> obj_get ms ''t'' = Some (JStr ''to_viewer'')
        \<and> obj_get ms ''viewer_id'' = Some (JStr v) \<and> obj_get ms ''frame'' = Some (JStr f)
        \<and> base64_std_decode f = Some d)"

definition from_runner :: "relay_env \<Rightarrow> history \<Rightarrow> pid \<Rightarrow> bytes \<Rightarrow> bool" where
  "from_runner w h p d \<longleftrightarrow>
     (\<exists>r. w_role w r = Runner
        \<and> (WsBinary d \<in> set (h r) \<or> (\<exists>t. WsText t \<in> set (h r) \<and> addressed w t (vid w p) d)))"

definition from_viewer :: "relay_env \<Rightarrow> history \<Rightarrow> string \<Rightarrow> bytes \<Rightarrow> bool" where
  "from_viewer w h v d \<longleftrightarrow> (\<exists>q. w_role w q = Viewer \<and> v = vid w q \<and> WsBinary d \<in> set (h q))"

definition ok_mail :: "relay_env \<Rightarrow> history \<Rightarrow> pid \<Rightarrow> mail \<Rightarrow> bool" where
  "ok_mail w h p m \<longleftrightarrow>
     (case m of
        OnlyttyBinary d \<Rightarrow> w_role w p = Viewer \<and> from_runner w h p d
      | OnlyttyViewerBinary vo d \<Rightarrow> w_role w p = Runner \<and> (\<exists>v. vo = Some v \<and> from_viewer w h v d)
      | AddPeer q \<Rightarrow> w_role w p = Viewer \<and> w_role w q = Runner
      | AddViewerPeer q v \<Rightarrow> w_role w p = Runner \<and> w_role w q = Viewer \<and> v = vid w q
      | _ \<Rightarrow> True)"

definition ok_out :: "relay_env \<Rightarrow> history \<Rightarrow> pid \<Rightarrow> wsmsg \<Rightarrow> bool" where
  "ok_out w h p f \<longleftrightarrow>
     (case f of
        WsText _ \<Rightarrow> True
      | WsBinary b \<Rightarrow>
          (case w_role w p of
             Runner \<Rightarrow> \<exists>v d. from_viewer w h v d \<and> b = relay_viewer_frame v d
           | Viewer \<Rightarrow> from_runner w h p b))"

definition ok_sock :: "relay_env \<Rightarrow> pid \<Rightarrow> Socket \<Rightarrow> bool" where
  "ok_sock w p k \<longleftrightarrow>
     so_role k = w_role w p \<and> (w_role w p = Viewer \<longrightarrow> so_viewer_id k = Some (vid w p))
     \<and> (\<forall>q\<in>set (so_peers k). w_role w q \<noteq> w_role w p)
     \<and> (\<forall>v q. so_viewer_peers k v = Some q \<longrightarrow> w_role w q = Viewer \<and> v = vid w q)"

definition ok_sess :: "relay_env \<Rightarrow> PSession \<Rightarrow> bool" where
  "ok_sess w s \<longleftrightarrow>
     (\<forall>r. ss_runner s = Some r \<longrightarrow> w_role w r = Runner)
     \<and> (\<forall>(v, i)\<in>set (ss_viewers s). w_role w v = Viewer \<and> vi_id i = vid w v)"

definition ok_msg :: "relay_env \<Rightarrow> sess_msg \<Rightarrow> bool" where
  "ok_msg w m \<longleftrightarrow>
     (case m of CallRunner p \<Rightarrow> w_role w p = Runner | CallViewer p \<Rightarrow> w_role w p = Viewer | _ \<Rightarrow> True)"

definition routed :: "relay_env \<Rightarrow> Net \<Rightarrow> bool" where
  "routed w n \<longleftrightarrow>
     (\<forall>p. \<forall>m\<in>set (n_mail n p). ok_mail w (n_in n) p m)
     \<and> (\<forall>p. \<forall>f\<in>set (n_out n p). ok_out w (n_in n) p f)
     \<and> (\<forall>p k. n_socks n p = Some (Live k) \<longrightarrow> ok_sock w p k)
     \<and> (\<forall>s. n_sess n = Some s \<longrightarrow> ok_sess w s)
     \<and> (\<forall>m\<in>set (n_inbox n). ok_msg w m)"

definition ok_effect :: "relay_env \<Rightarrow> history \<Rightarrow> pid \<Rightarrow> sock_effect \<Rightarrow> bool" where
  "ok_effect w h p ef \<longleftrightarrow>
     (\<forall>(q, m)\<in>set (se_send ef). ok_mail w h q m) \<and> (\<forall>f\<in>set (se_push ef). ok_out w h p f)
     \<and> (\<forall>k. se_next ef = Goes k \<longrightarrow> ok_sock w p k)"

definition ok_sends :: "relay_env \<Rightarrow> history \<Rightarrow> (pid \<times> mail) list \<Rightarrow> bool" where
  "ok_sends w h ms \<longleftrightarrow> (\<forall>(q, m)\<in>set ms. ok_mail w h q m)"

subsection \<open>Handlers\<close>

lemma ok_mail_simps [simp]:
  "ok_mail w h p (OnlyttyControl js)" "ok_mail w h p (DelPeer q)" "ok_mail w h p (CloseMsg c r)"
  "ok_mail w h p (AddPeer q) \<longleftrightarrow> w_role w p = Viewer \<and> w_role w q = Runner"
  "ok_mail w h p (AddViewerPeer q v) \<longleftrightarrow> w_role w p = Runner \<and> w_role w q = Viewer \<and> v = vid w q"
  "ok_mail w h p (OnlyttyBinary d) \<longleftrightarrow> w_role w p = Viewer \<and> from_runner w h p d"
  "ok_mail w h p (OnlyttyViewerBinary vo d) \<longleftrightarrow>
     w_role w p = Runner \<and> (\<exists>v. vo = Some v \<and> from_viewer w h v d)"
  by (simp_all add: ok_mail_def)

lemma ok_out_text [simp]: "ok_out w h p (WsText t)"
  by (simp add: ok_out_def)

lemma sock_goes_fields [simp]:
  "se_next (sock_goes k) = Goes k" "se_push (sock_goes k) = []" "se_send (sock_goes k) = []"
  "se_cast (sock_goes k) = []"
  by (simp_all add: sock_goes_def)

lemma role_cases: "r \<noteq> r' \<Longrightarrow> r' = Runner \<Longrightarrow> r = Viewer" "r \<noteq> r' \<Longrightarrow> r' = Viewer \<Longrightarrow> r = Runner"
  by (cases r; simp)+

lemma send_to_viewer_ok:
  assumes "ok_sock w p k" "w_role w p = Runner" "WsText t \<in> set (h p)"
    and "decode_control (w_jdec w) t = Some ms" "obj_get ms ''t'' = Some (JStr ''to_viewer'')"
  shows "ok_sends w h (send_to_viewer ms k)"
proof -
  have "ok_mail w h q (OnlyttyBinary d)"
    if "obj_get ms ''viewer_id'' = Some (JStr v)" "obj_get ms ''frame'' = Some (JStr f)"
      "so_viewer_peers k v = Some q" "base64_std_decode f = Some d" for v f q d
  proof -
    have "w_role w q = Viewer" "v = vid w q" using assms(1) that(3) by (auto simp: ok_sock_def)
    moreover from this have "addressed w t (vid w q) d" unfolding addressed_def using assms(4,5) that by blast
    ultimately show ?thesis using assms(2,3) by (auto simp: from_runner_def)
  qed
  then show ?thesis
    by (auto simp: ok_sends_def send_to_viewer_def split: option.splits json.splits) (metis ok_mail_simps(6))+
qed

lemma handle_in_binary_ok:
  assumes "ok_sock w p k" "WsBinary d \<in> set (h p)"
  shows "ok_effect w h p (handle_in_binary d k)"
  using assms role_cases
  by (cases "w_role w p")
    (fastforce simp: handle_in_binary_def ok_effect_def ok_sock_def from_runner_def from_viewer_def)+

lemma handle_in_text_ok:
  assumes "ok_sock w p k" "WsText t \<in> set (h p)"
  shows "ok_effect w h p (handle_in_text (w_jdec w) t k)"
proof (cases "decode_control (w_jdec w) t")
  case (Some ms)
  have role: "so_role k = w_role w p" using assms(1) by (simp add: ok_sock_def)
  have "ok_sends w h (send_to_viewer ms k)"
    if "obj_get ms ''t'' = Some (JStr ''to_viewer'')" "so_role k = Runner"
    using send_to_viewer_ok [of w p k t h ms] assms Some that role by simp
  then show ?thesis
    using assms(1)
    by (auto simp: handle_in_text_def Some Let_def ok_effect_def ok_sends_def sock_crash_def
        split: option.splits json.splits)
qed (use assms in \<open>simp add: handle_in_text_def ok_effect_def\<close>)

lemma handle_info_ok:
  assumes "ok_sock w p k" "ok_mail w h p m"
  shows "ok_effect w h p (handle_info jenc q m k)"
  using assms
  by (cases m)
    (auto simp: handle_info_def ok_effect_def ok_out_def sock_crash_def ok_sock_def split: option.splits if_splits)

subsection \<open>The session\<close>

lemma ok_sends_simps [simp]:
  "ok_sends w h []" "ok_sends w h ((q, m) # ms) \<longleftrightarrow> ok_mail w h q m \<and> ok_sends w h ms"
  "ok_sends w h (xs @ ys) \<longleftrightarrow> ok_sends w h xs \<and> ok_sends w h ys"
  by (auto simp: ok_sends_def)

lemma ok_sends_broadcast [simp]:
  "ok_mail w h r m \<Longrightarrow> True" "(\<And>q. ok_mail w h q m) \<Longrightarrow> ok_sends w h (to_runner s m)"
  "(\<And>q. ok_mail w h q m) \<Longrightarrow> ok_sends w h (to_viewers s m)"
  by (auto simp: to_runner_def to_viewers_def ok_sends_def split: option.split)

lemma session_result_ok:
  assumes "ok_sess w s"
  shows "ok_sends w h (fst (serve_cast now c s)) \<and> (\<forall>s'. snd (serve_cast now c s) = Some s' \<longrightarrow> ok_sess w s')"
    "ok_sends w h (fst (session_drain jenc s)) \<and> (\<forall>s'. snd (session_drain jenc s) = Some s' \<longrightarrow> ok_sess w s')"
    "ok_sends w h (fst (ttl_expired s)) \<and> (\<forall>s'. snd (ttl_expired s) = Some s' \<longrightarrow> ok_sess w s')"
    "ok_sends w h (fst (idle_expired s)) \<and> (\<forall>s'. snd (idle_expired s) = Some s' \<longrightarrow> ok_sess w s')"
    "ok_sends w h (fst (reap_unconnected s)) \<and> (\<forall>s'. snd (reap_unconnected s) = Some s' \<longrightarrow> ok_sess w s')"
    "ok_sends w h (fst (session_down jenc now ref p s))
     \<and> (\<forall>s'. snd (session_down jenc now ref p s) = Some s' \<longrightarrow> ok_sess w s')"
proof -
  have del: "set (AList.delete p vs) \<subseteq> set vs" for p and vs :: "(pid \<times> viewer_info) list"
    by (auto simp: AList.delete_eq)
  show "ok_sends w h (fst (session_down jenc now ref p s))
     \<and> (\<forall>s'. snd (session_down jenc now ref p s) = Some s' \<longrightarrow> ok_sess w s')"
    using assms del [of p "ss_viewers s"]
    by (auto simp: session_down_def runner_down_def viewer_down_def ok_sess_def ok_sends_def Let_def
        to_runner_def split: option.splits)
qed (use assms in \<open>auto simp: serve_cast_def runner_active_def reset_idle_timer_def session_close_def
      close_all_def session_drain_def ttl_expired_def idle_expired_def reap_unconnected_def ok_sess_def
      split: cast.split\<close>)

lemma join_runner_ok:
  assumes "ok_sess w s" "w_role w p = Runner" "join_runner jenc now p ref s = (snap, sends, s')"
  shows "ok_sends w h sends \<and> ok_sess w s'"
proof -
  have "ok_sends w h (join_runner_wiring jenc p old s1)" if "ss_viewers s1 = ss_viewers s" for s1 old
    using assms(1,2) that
    by (fastforce simp: join_runner_wiring_def ok_sess_def ok_sends_def split: option.splits if_splits)
  with assms show ?thesis
    by (auto simp: join_runner_def Let_def reset_idle_timer_def ok_sess_def split: option.splits)
qed

lemma join_viewer_ok:
  assumes "ok_sess w s" "w_role w p = Viewer" "join_viewer jenc p ref (w_rnd w p) s = (reply, sends, s')"
  shows "ok_sends w h sends \<and> ok_sess w s' \<and> (\<forall>snap v b. reply = Joined snap v b \<longrightarrow> v = vid w p)"
proof -
  have up: "set (AList.update p i vs) \<subseteq> insert (p, i) (set vs)" for i and vs :: "(pid \<times> viewer_info) list"
    by (induction vs) auto
  show ?thesis
    using assms up [of "\<lparr>vi_ref = ref, vi_id = vid w p\<rparr>" "ss_viewers s"]
    by (auto simp: join_viewer_def Let_def vid_def ok_sess_def split: option.splits if_splits)
qed

subsection \<open>The invariant\<close>

lemma mono_from:
  "(\<And>q. set (h q) \<subseteq> set (h' q)) \<Longrightarrow> from_runner w h p d \<Longrightarrow> from_runner w h' p d"
  "(\<And>q. set (h q) \<subseteq> set (h' q)) \<Longrightarrow> from_viewer w h v d \<Longrightarrow> from_viewer w h' v d"
  unfolding from_runner_def from_viewer_def by blast+

lemma mono_ok:
  "(\<And>q. set (h q) \<subseteq> set (h' q)) \<Longrightarrow> ok_mail w h p m \<Longrightarrow> ok_mail w h' p m"
  "(\<And>q. set (h q) \<subseteq> set (h' q)) \<Longrightarrow> ok_out w h p f \<Longrightarrow> ok_out w h' p f"
  by (cases m; auto intro: mono_from)
    (auto simp: ok_out_def split: wsmsg.splits role.splits intro: mono_from; blast intro: mono_from)

lemma routed_inbox:
  "routed w n \<Longrightarrow> (\<forall>m\<in>set ms. ok_msg w m) \<Longrightarrow> routed w (n\<lparr>n_inbox := ms\<rparr>)"
  by (simp add: routed_def)

lemma routed_die [intro]: "routed w n \<Longrightarrow> routed w (die p n)"
  by (auto simp: routed_def die_def ok_msg_def)

lemma routed_monitor [intro]: "routed w n \<Longrightarrow> routed w (monitor_pid p n)"
  by (auto simp: routed_def monitor_pid_def ok_msg_def)

lemma routed_demonitor [intro]: "routed w n \<Longrightarrow> routed w (demonitor_flush r n)"
  by (auto simp: routed_def demonitor_flush_def split: option.split)

lemma routed_post [intro]: "routed w n \<Longrightarrow> ok_sends w (n_in n) ms \<Longrightarrow> routed w (post ms n)"
  by (auto simp: routed_def set_mail_for ok_sends_def)

lemma routed_sess [intro]:
  "routed w n \<Longrightarrow> (\<And>s. so = Some s \<Longrightarrow> ok_sess w s) \<Longrightarrow> routed w (n\<lparr>n_sess := so\<rparr>)"
  by (simp add: routed_def)

lemma routed_sock_apply:
  assumes "routed w n" "ok_effect w (n_in n) p ef"
  shows "routed w (sock_apply p ef n)"
proof -
  let ?n = "n\<lparr>n_out := (n_out n)(p := n_out n p @ se_push ef), n_inbox := n_inbox n @ map CastMsg (se_cast ef)\<rparr>"
  have "routed w ?n" using assms by (auto simp: routed_def ok_effect_def ok_msg_def)
  then have "routed w (post (se_send ef) ?n)"
    by (rule routed_post) (use assms(2) in \<open>simp add: ok_effect_def ok_sends_def\<close>)
  with assms(2) show ?thesis
    by (auto simp: sock_apply_def Let_def ok_effect_def routed_def split: sock_next.split)
      (auto simp: die_def ok_msg_def)
qed

lemma init_ok:
  "w_role w p = Runner \<Longrightarrow> ok_effect w h p (init_runner jenc q snap)"
  "w_role w p = Viewer \<Longrightarrow> (\<And>snap v b. reply = Joined snap v b \<Longrightarrow> v = vid w p) \<Longrightarrow>
     ok_effect w h p (init_viewer jenc q reply)"
  by (auto simp: init_runner_def init_viewer_def ok_effect_def ok_sock_def base_state_def split: join_reply.splits)

lemma routed_serve_runner:
  assumes "routed w n" "n_sess n = Some s" "w_role w p = Runner"
  shows "routed w (serve_runner w now p s n)"
proof -
  obtain snap sends s' where j: "join_runner (w_jenc w) now p (n_refs n) s = (snap, sends, s')"
    by (cases "join_runner (w_jenc w) now p (n_refs n) s") auto
  have ok: "ok_sess w s" using assms by (simp add: routed_def)
  let ?n = "(post sends (monitor_pid p (demonitor_flush (ss_runner_ref s) n)))\<lparr>n_sess := Some s'\<rparr>"
  have "routed w ?n"
    using join_runner_ok [OF ok assms(3) j, of "n_in n"] assms(1) by (intro routed_sess routed_post) auto
  with routed_sock_apply [OF this init_ok(1)] assms(3) show ?thesis
    by (simp add: serve_runner_def Let_def j)
qed

lemma routed_serve_viewer:
  assumes "routed w n" "n_sess n = Some s" "w_role w p = Viewer"
  shows "routed w (serve_viewer w p s n)"
proof -
  obtain reply sends s' where j: "join_viewer (w_jenc w) p (n_refs n) (w_rnd w p) s = (reply, sends, s')"
    by (cases "join_viewer (w_jenc w) p (n_refs n) (w_rnd w p) s") auto
  have ok: "ok_sess w s" using assms by (simp add: routed_def)
  let ?n = "(post sends (monitor_pid p n))\<lparr>n_sess := Some s'\<rparr>"
  have "routed w ?n"
    using join_viewer_ok [OF ok assms(3) j, of "n_in n"] assms(1) by (intro routed_sess routed_post) auto
  with routed_sock_apply [OF _ init_ok(2)] join_viewer_ok [OF ok assms(3) j] assms show ?thesis
    by (simp add: serve_viewer_def Let_def j)
qed

lemma routed_session_handle:
  assumes "routed w n" "n_sess n = Some s" "ok_msg w m"
  shows "routed w (session_handle w now m s n)"
proof -
  have ok: "ok_sess w s" using assms by (simp add: routed_def)
  have app: "routed w (session_apply r n)"
    if "ok_sends w (n_in n) (fst r) \<and> (\<forall>s'. snd r = Some s' \<longrightarrow> ok_sess w s')" for r
    using that assms(1) by (cases r) (auto simp: session_apply_def)
  show ?thesis
    using assms session_result_ok [OF ok]
    by (cases m)
      (auto simp: session_handle_def ok_msg_def intro!: app routed_serve_runner routed_serve_viewer)
qed

lemma routed_step: "relay_step w n n' \<Longrightarrow> routed w n \<Longrightarrow> routed w n'"
proof (induction rule: relay_step.induct)
  case (arrives n)
  then show ?case
    by (auto simp: routed_def accept_def Let_def ok_msg_def split: role.split)
next
  case (receives n p k f)
  let ?n = "n\<lparr>n_in := (n_in n)(p := n_in n p @ [f])\<rparr>"
  have sub: "set (n_in n q) \<subseteq> set (n_in ?n q)" for q by auto
  have r: "routed w ?n"
    using receives(2) mono_ok [OF sub] unfolding routed_def by (simp del: fun_upd_apply)
  have k: "ok_sock w p k" using receives by (simp add: routed_def)
  have "ok_effect w (n_in ?n) p (handle_in (w_jdec w) f k)"
    using handle_in_binary_ok [OF k, of _ "n_in ?n"] handle_in_text_ok [OF k, of _ "n_in ?n"]
    by (cases f) (simp_all add: handle_in_def)
  from routed_sock_apply [OF r this] show ?case by (simp add: receive_def)
next
  case (takes n p k m rest)
  let ?n = "n\<lparr>n_mail := (n_mail n)(p := rest)\<rparr>"
  have r: "routed w ?n" using takes by (auto simp: routed_def)
  have "ok_sock w p k" "ok_mail w (n_in n) p m" using takes by (auto simp: routed_def)
  from routed_sock_apply [OF r] handle_info_ok [OF this] show ?case by (simp add: take_mail_def)
next
  case (serves n s m rest now)
  then have "routed w (n\<lparr>n_inbox := rest\<rparr>)" "ok_msg w m" by (simp_all add: routed_def)
  then show ?case using serves(1) by (intro routed_session_handle) simp_all
next
  case (ticks n s m)
  then show ?case by (auto simp: routed_def timer_armed_def ok_msg_def)
qed auto

lemma routed_reach:
  assumes "relay_reach w s n" "ss_runner s = None" "ss_viewers s = []"
  shows "routed w n"
  using assms
proof (induction rule: relay_reach.induct)
  case start
  then show ?case by (simp add: routed_def net_init_def ok_sess_def)
qed (auto intro: routed_step)

end
