(* ===== verification/RelayTrack.thy ===== *)
theory RelayTrack
  imports RelayRouting
begin

text \<open>
  The relay's bookkeeping. Only sockets that joined are known to the others; every attached socket
  is monitored, so it is alive or its \<^verbatim>\<open>:DOWN\<close> is in the session's mailbox; the viewers never
  exceed the cap; a live socket is attached or has been told to close; an armed reap timer means no
  runner.
\<close>

subsection \<open>Joined sockets\<close>

primrec call_of :: "sess_msg \<Rightarrow> pid list" where
  "call_of (CallRunner p) = [p]"
| "call_of (CallViewer p) = [p]"
| "call_of (CastMsg c) = []"
| "call_of DrainMsg = []"
| "call_of TtlMsg = []"
| "call_of IdleMsg = []"
| "call_of ReapMsg = []"
| "call_of (DownMsg r p) = []"

definition calls :: "sess_msg list \<Rightarrow> pid list" where
  "calls ms = concat (map call_of ms)"

definition joined :: "Net \<Rightarrow> pid \<Rightarrow> bool" where
  "joined n p \<longleftrightarrow> p < n_pids n \<and> p \<notin> set (calls (n_inbox n))"

definition attached :: "PSession \<Rightarrow> pid \<Rightarrow> bool" where
  "attached s p \<longleftrightarrow> ss_runner s = Some p \<or> p \<in> fst ` set (ss_viewers s)"

fun mail_pids :: "mail \<Rightarrow> pid set" where
  "mail_pids (AddPeer q) = {q}"
| "mail_pids (AddViewerPeer q v) = {q}"
| "mail_pids _ = {}"

definition sock_pids :: "Socket \<Rightarrow> pid set" where
  "sock_pids k = set (so_peers k) \<union> ran (so_viewer_peers k)"

definition known :: "Net \<Rightarrow> bool" where
  "known n \<longleftrightarrow>
     (\<forall>p. n_pids n \<le> p \<longrightarrow> n_socks n p = None)
     \<and> distinct (calls (n_inbox n)) \<and> (\<forall>p\<in>set (calls (n_inbox n)). p < n_pids n)
     \<and> (\<forall>p k. n_socks n p = Some (Live k) \<longrightarrow> joined n p \<and> (\<forall>q\<in>sock_pids k. joined n q))
     \<and> (\<forall>p. n_mail n p \<noteq> [] \<or> n_out n p \<noteq> [] \<longrightarrow> joined n p)
     \<and> (\<forall>p. \<forall>m\<in>set (n_mail n p). \<forall>q\<in>mail_pids m. joined n q)
     \<and> (\<forall>s p. n_sess n = Some s \<longrightarrow> attached s p \<longrightarrow> joined n p)"

lemma calls_simps [simp]:
  "calls [] = []" "calls (m # ms) = call_of m @ calls ms" "calls (xs @ ys) = calls xs @ calls ys"
  "calls (map CastMsg cs) = []" "calls (map (\<lambda>(r, q). DownMsg r q) ds) = []"
  "calls (filter (\<lambda>m. \<not> down_of r m) ms) = calls ms"
proof -
  show "calls (map CastMsg cs) = []" by (induction cs) (simp_all add: calls_def)
  show "calls (map (\<lambda>(r, q). DownMsg r q) ds) = []" by (induction ds) (auto simp: calls_def)
  show "calls (filter (\<lambda>m. \<not> down_of r m) ms) = calls ms"
    by (induction ms) (auto simp: calls_def down_of_def split: sess_msg.splits)
qed (simp_all add: calls_def)

lemma inbox_calls [simp]:
  "calls (n_inbox (die p n)) = calls (n_inbox n)" "calls (n_inbox (monitor_pid p n)) = calls (n_inbox n)"
  "calls (n_inbox (demonitor_flush r n)) = calls (n_inbox n)"
  "calls (n_inbox (sock_apply p ef n)) = calls (n_inbox n)"
  by (auto simp: die_def monitor_pid_def demonitor_flush_def sock_apply_def Let_def post_def
      split: option.split sock_next.split)

text \<open>What the handlers send, and to whom.\<close>

definition closed_sends :: "(pid \<Rightarrow> bool) \<Rightarrow> (pid \<times> mail) list \<Rightarrow> bool" where
  "closed_sends J ms \<longleftrightarrow> (\<forall>(q, m)\<in>set ms. J q \<and> (\<forall>x\<in>mail_pids m. J x))"

lemma closed_sends_simps [simp]:
  "closed_sends J []"
  "closed_sends J ((q, m) # ms) \<longleftrightarrow> J q \<and> (\<forall>x\<in>mail_pids m. J x) \<and> closed_sends J ms"
  "closed_sends J (xs @ ys) \<longleftrightarrow> closed_sends J xs \<and> closed_sends J ys"
  by (auto simp: closed_sends_def)

lemma closed_sends_concat:
  "(\<And>x. x \<in> set xs \<Longrightarrow> closed_sends J (f x)) \<Longrightarrow> closed_sends J (concat (map f xs))"
  by (induction xs) auto

lemma closed_broadcast:
  assumes "\<And>p. attached s p \<Longrightarrow> J p" "mail_pids m = {}"
  shows "closed_sends J (to_runner s m)" "closed_sends J (to_viewers s m)"
  using assms by (force simp: to_runner_def to_viewers_def attached_def closed_sends_def split: option.split)+

lemma send_to_viewer_pids: "(q, m) \<in> set (send_to_viewer ms k) \<Longrightarrow> q \<in> ran (so_viewer_peers k) \<and> mail_pids m = {}"
  by (auto simp: send_to_viewer_def ran_def split: option.splits json.splits)

lemma handle_in_closed:
  assumes "\<forall>q\<in>sock_pids k. J q"
  shows "closed_sends J (se_send (handle_in jdec f k))"
proof (cases f)
  case (WsBinary d)
  then show ?thesis
    using assms by (auto simp: handle_in_def handle_in_binary_def closed_sends_def sock_pids_def split: role.splits)
next
  case (WsText t)
  have "closed_sends J (send_to_viewer ms k)" for ms
    using assms send_to_viewer_pids by (force simp: closed_sends_def sock_pids_def)
  then show ?thesis
    by (auto simp: WsText handle_in_def handle_in_text_def Let_def sock_crash_def split: option.splits json.splits)
qed

lemma handle_in_next: "se_next (handle_in jdec f k) = Goes k' \<Longrightarrow> k' = k"
  by (auto simp: handle_in_def handle_in_binary_def handle_in_text_def Let_def sock_crash_def
      split: wsmsg.splits role.splits option.splits json.splits if_splits)

lemma handle_info_send: "se_send (handle_info jenc c m k) = []"
  by (cases m) (auto simp: handle_info_def sock_crash_def split: option.splits)

lemma handle_info_cast: "se_cast (handle_info jenc c m k) = []"
  by (cases m) (auto simp: handle_info_def sock_crash_def split: option.splits)

lemma ran_upd: "ran (f(a := None)) \<subseteq> ran f" "ran (f(a \<mapsto> b)) \<subseteq> insert b (ran f)"
  by (auto simp: ran_def)

lemma handle_info_pids:
  assumes "se_next (handle_info jenc c m k) = Goes k'"
  shows "sock_pids k' \<subseteq> sock_pids k \<union> mail_pids m"
  using assms ran_upd [of "so_viewer_peers k"]
  by (cases m) (fastforce simp: handle_info_def sock_crash_def sock_pids_def split: option.splits if_splits)+

lemma closed_session_down:
  assumes "\<And>p. attached s p \<Longrightarrow> J p"
  shows "closed_sends J (fst (session_down jenc now ref p s))"
proof -
  have v: "J v" if "(v, i) \<in> set (ss_viewers s)" for v i
    using assms [of v] that by (force simp: attached_def)
  have "closed_sends J (fst (runner_down jenc now s))"
    unfolding runner_down_def fst_conv
    by (rule closed_sends_concat) (auto split: option.split dest: v)
  moreover have "closed_sends J (fst (viewer_down jenc ref p s))"
    using closed_broadcast [OF assms] by (auto simp: viewer_down_def Let_def split: option.split)
  ultimately show ?thesis by (simp add: session_down_def)
qed

lemma closed_session:
  assumes "\<And>p. attached s p \<Longrightarrow> J p"
  shows "closed_sends J (fst (serve_cast now c s))" "closed_sends J (fst (session_drain jenc s))"
    "closed_sends J (fst (ttl_expired s))" "closed_sends J (fst (idle_expired s))"
    "closed_sends J (fst (reap_unconnected s))"
  using closed_broadcast [OF assms]
  by (auto simp: serve_cast_def runner_active_def session_close_def close_all_def session_drain_def
      ttl_expired_def idle_expired_def reap_unconnected_def split: cast.split)

lemma attached_session:
  "snd (serve_cast now c s) = Some s' \<Longrightarrow> attached s' p \<Longrightarrow> attached s p"
  "snd (session_drain jenc s) = Some s' \<Longrightarrow> attached s' p \<Longrightarrow> attached s p"
  "snd (reap_unconnected s) = Some s' \<Longrightarrow> attached s' p \<Longrightarrow> attached s p"
  "snd (session_down jenc now ref q s) = Some s' \<Longrightarrow> attached s' p \<Longrightarrow> attached s p"
  "snd (ttl_expired s) = None" "snd (idle_expired s) = None"
  by (auto simp: serve_cast_def runner_active_def session_close_def reset_idle_timer_def session_drain_def
      ttl_expired_def idle_expired_def reap_unconnected_def session_down_def runner_down_def viewer_down_def
      attached_def AList.delete_eq Let_def split: cast.splits option.splits if_splits)

lemma closed_wiring:
  assumes "\<And>v i. (v, i) \<in> set (ss_viewers s) \<Longrightarrow> J v" "J p"
  shows "closed_sends J (join_runner_wiring jenc p old s)"
  unfolding join_runner_wiring_def
  by (rule closed_sends_concat) (use assms in \<open>auto split: option.split\<close>)

lemma join_runner_attached:
  assumes "join_runner jenc now p ref s = (snap, sends, s')" "\<And>q. attached s q \<Longrightarrow> J q" "J p"
  shows "closed_sends J sends" "attached s' q \<Longrightarrow> attached s q \<or> q = p"
proof -
  have v: "J v" if "(v, i) \<in> set (ss_viewers s)" for v i
    using assms(2) [of v] that by (force simp: attached_def)
  have "closed_sends J (join_runner_wiring jenc p old s1)" if "ss_viewers s1 = ss_viewers s" for old s1
    by (rule closed_wiring) (use that v assms(3) in auto)
  then show "closed_sends J sends"
    using assms by (auto simp: join_runner_def Let_def reset_idle_timer_def attached_def split: option.splits)
  show "attached s' q \<Longrightarrow> attached s q \<or> q = p"
    using assms(1) by (auto simp: join_runner_def Let_def reset_idle_timer_def attached_def)
qed

lemma join_viewer_attached:
  assumes "join_viewer jenc p ref rnd s = (reply, sends, s')" "\<And>q. attached s q \<Longrightarrow> J q" "J p"
  shows "closed_sends J sends" "attached s' q \<Longrightarrow> attached s q \<or> q = p"
proof -
  show "closed_sends J sends"
    using assms by (auto simp: join_viewer_def attached_def Let_def split: option.splits if_splits)
  have "s' = s \<or> s' = s\<lparr>ss_viewers := AList.update p \<lparr>vi_ref = ref, vi_id = viewer_id_of rnd\<rparr> (ss_viewers s)\<rparr>"
    using assms(1) by (auto simp: join_viewer_def Let_def split: if_splits)
  then have "fst ` set (ss_viewers s') \<subseteq> insert p (fst ` set (ss_viewers s))" "ss_runner s' = ss_runner s"
    by (elim disjE; simp add: AList.dom_update subset_insertI)+
  then show "attached s' q \<Longrightarrow> attached s q \<or> q = p"
    unfolding attached_def by (metis insertE subsetD)
qed

subsection \<open>Only joined sockets are known\<close>

lemma known_sock_apply:
  assumes "known n" "joined n p" "closed_sends (joined n) (se_send ef)"
    and "\<And>k. se_next ef = Goes k \<Longrightarrow> \<forall>q\<in>sock_pids k. joined n q"
  shows "known (sock_apply p ef n)"
proof -
  have j: "joined (sock_apply p ef n) = joined n" by (auto simp: joined_def fun_eq_iff)
  have "joined n q" if "mail_for q (se_send ef) \<noteq> []" for q
    using assms(3) that by (auto simp: closed_sends_def mail_for_def filter_empty_conv)
  moreover have "\<forall>x\<in>mail_pids m. joined n x" if "m \<in> set (mail_for q (se_send ef))" for q m
    using assms(3) that by (auto simp: closed_sends_def set_mail_for)
  moreover have "p < n_pids n" using assms(2) by (simp add: joined_def)
  ultimately show ?thesis
    using assms unfolding known_def j by (auto split: sock_next.splits)
qed

lemma known_post:
  assumes "known n" "closed_sends (joined n) ms" "\<And>s p. so = Some s \<Longrightarrow> attached s p \<Longrightarrow> joined n p"
  shows "known ((post ms n)\<lparr>n_sess := so\<rparr>)"
proof -
  have j: "joined ((post ms n)\<lparr>n_sess := so\<rparr>) = joined n" by (auto simp: joined_def fun_eq_iff)
  have "joined n q" if "mail_for q ms \<noteq> []" for q
    using assms(2) that by (auto simp: closed_sends_def mail_for_def filter_empty_conv)
  moreover have "\<forall>x\<in>mail_pids m. joined n x" if "m \<in> set (mail_for q ms)" for q m
    using assms(2) that by (auto simp: closed_sends_def set_mail_for)
  ultimately show ?thesis
    using assms unfolding known_def j by auto
qed

text \<open>Sockets, mails and the inbox matter only as far as the calls in it.\<close>

lemma known_same:
  assumes "known n" "n_pids n' = n_pids n" "n_socks n' = n_socks n" "n_mail n' = n_mail n" "n_out n' = n_out n"
    "n_sess n' = n_sess n" "calls (n_inbox n') = calls (n_inbox n)"
  shows "known n'"
proof -
  have "joined n' = joined n" using assms by (auto simp: joined_def fun_eq_iff)
  with assms show ?thesis unfolding known_def by simp
qed

lemma known_die: "known n \<Longrightarrow> known (die p n)"
proof -
  assume "known n"
  moreover have "joined (die p n) = joined n" by (auto simp: joined_def fun_eq_iff)
  ultimately show ?thesis unfolding known_def by auto
qed

text \<open>The call at the head of the inbox is answered: its socket has joined.\<close>

lemma known_pop:
  assumes "known n" "n_inbox n = m # rest"
  shows "known (n\<lparr>n_inbox := rest\<rparr>)" "\<And>p. p \<in> set (call_of m) \<Longrightarrow> joined (n\<lparr>n_inbox := rest\<rparr>) p"
    "\<And>p. joined n p \<Longrightarrow> joined (n\<lparr>n_inbox := rest\<rparr>) p"
proof -
  let ?n = "n\<lparr>n_inbox := rest\<rparr>"
  show mono: "joined ?n p" if "joined n p" for p using that assms(2) by (auto simp: joined_def)
  show "joined ?n p" if "p \<in> set (call_of m)" for p
    using that assms by (auto simp: joined_def known_def)
  show "known ?n"
    using assms mono unfolding known_def by auto
qed

lemma known_serve_runner:
  assumes "known n" "n_sess n = Some s" "joined n p"
  shows "known (serve_runner w now p s n)"
proof -
  obtain snap sends s' where j: "join_runner (w_jenc w) now p (n_refs n) s = (snap, sends, s')"
    by (cases "join_runner (w_jenc w) now p (n_refs n) s") auto
  have at: "attached s q \<Longrightarrow> joined n q" for q using assms(1,2) by (simp add: known_def)
  let ?m = "monitor_pid p (demonitor_flush (ss_runner_ref s) n)"
  let ?n = "(post sends ?m)\<lparr>n_sess := Some s'\<rparr>"
  have jm: "joined ?m = joined n" "joined ?n = joined n" by (auto simp: joined_def fun_eq_iff)
  have "known ?m" by (rule known_same [OF assms(1)]) auto
  then have k: "known ?n"
    using join_runner_attached [where J = "joined n", OF j at assms(3)] at assms(3) by (intro known_post) (auto simp: jm)
  moreover have "known (sock_apply p (init_runner (w_jenc w) (w_maxq w) snap) ?n)"
    by (rule known_sock_apply [OF k])
      (use assms(3) jm in \<open>auto simp: init_runner_def sock_pids_def base_state_def\<close>)
  ultimately show ?thesis by (simp add: serve_runner_def Let_def j)
qed

lemma known_serve_viewer:
  assumes "known n" "n_sess n = Some s" "joined n p"
  shows "known (serve_viewer w p s n)"
proof -
  obtain reply sends s' where j: "join_viewer (w_jenc w) p (n_refs n) (w_rnd w p) s = (reply, sends, s')"
    by (cases "join_viewer (w_jenc w) p (n_refs n) (w_rnd w p) s") auto
  have at: "attached s q \<Longrightarrow> joined n q" for q using assms(1,2) by (simp add: known_def)
  let ?n = "(post sends (monitor_pid p n))\<lparr>n_sess := Some s'\<rparr>"
  have jm: "joined (monitor_pid p n) = joined n" "joined ?n = joined n" by (auto simp: joined_def fun_eq_iff)
  have "known (monitor_pid p n)" by (rule known_same [OF assms(1)]) auto
  then have k: "known ?n"
    using join_viewer_attached [where J = "joined n", OF j at assms(3)] at assms(3) by (intro known_post) (auto simp: jm)
  have "known (sock_apply p (init_viewer (w_jenc w) (w_maxq w) reply) n')" if "known n'" "joined n' = joined n" for n'
    by (rule known_sock_apply [OF that(1)])
      (use assms(3) that(2) in \<open>auto simp: init_viewer_def sock_pids_def base_state_def split: join_reply.splits\<close>)
  with k assms(1) jm(2) show ?thesis by (simp add: serve_viewer_def Let_def j)
qed

lemma known_session_handle:
  assumes "known n" "n_sess n = Some s" "\<And>p. p \<in> set (call_of m) \<Longrightarrow> joined n p"
  shows "known (session_handle w now m s n)"
proof -
  have at: "attached s q \<Longrightarrow> joined n q" for q using assms(1,2) by (simp add: known_def)
  have app: "known (session_apply r n)"
    if "closed_sends (joined n) (fst r)" "\<And>s' p. snd r = Some s' \<Longrightarrow> attached s' p \<Longrightarrow> attached s p" for r
    using that known_post [OF assms(1), of "fst r" "snd r"] at by (simp add: session_apply_def case_prod_beta')
  note cl = closed_session [where J = "joined n", OF at] closed_session_down [where J = "joined n", OF at]
  show ?thesis
  proof (cases m)
    case (CallRunner p)
    then show ?thesis using assms by (simp add: session_handle_def known_serve_runner)
  next
    case (CallViewer p)
    then show ?thesis using assms by (simp add: session_handle_def known_serve_viewer)
  qed (auto simp: session_handle_def attached_session(5,6) intro!: app cl dest: attached_session(1-4))
qed

lemma known_step: "relay_step w n n' \<Longrightarrow> known n \<Longrightarrow> known n'"
proof (induction rule: relay_step.induct)
  case (arrives n)
  let ?n = "accept w n"
  have "joined ?n q" if "joined n q" for q
    using that by (auto simp: joined_def accept_def Let_def split: role.split)
  moreover have "n_pids n \<notin> set (calls (n_inbox n))" using arrives(2) unfolding known_def by blast
  ultimately show ?case
    using arrives(2) unfolding known_def
    by (auto simp: accept_def Let_def split: role.splits if_splits)
next
  case (receives n p k f)
  let ?n = "n\<lparr>n_in := (n_in n)(p := n_in n p @ [f])\<rparr>"
  have kn: "known ?n" using receives(2) by (rule known_same) auto
  have "joined ?n = joined n" by (auto simp: joined_def fun_eq_iff)
  moreover have "joined n p" "\<forall>q\<in>sock_pids k. joined n q" using receives unfolding known_def by auto
  ultimately show ?case
    unfolding receive_def
    by (intro known_sock_apply [OF kn]) (auto intro: handle_in_closed dest: handle_in_next)
next
  case (takes n p k m rest)
  let ?n = "n\<lparr>n_mail := (n_mail n)(p := rest)\<rparr>"
  have j: "joined ?n = joined n" by (auto simp: joined_def fun_eq_iff)
  have "\<forall>x\<in>mail_pids y. joined n x" if "y \<in> set rest" for y
    using takes that unfolding known_def by (metis list.set_intros(2))
  then have kn: "known ?n" using takes unfolding known_def j by auto
  have "joined n p" "\<forall>q\<in>sock_pids k. joined n q" using takes unfolding known_def by auto
  moreover have "\<forall>q\<in>mail_pids m. joined n q" using takes unfolding known_def by (metis list.set_intros(1))
  ultimately show ?case
    unfolding take_mail_def
    by (intro known_sock_apply [OF kn]) (auto simp: j handle_info_send dest: handle_info_pids)
next
  case (leaves n p)
  then show ?case by (simp add: known_die)
next
  case (serves n s m rest now)
  show ?case
    by (rule known_session_handle) (use known_pop [OF serves(3,2)] serves(1) in auto)
next
  case (ticks n s m)
  then show ?case by (intro known_same [OF ticks(3)]) (auto simp: timer_armed_def)
qed

end
