(* ===== verification/RelayGuard.thy ===== *)
theory RelayGuard
  imports RelayTrack
begin

text \<open>
  The session's view of its sockets. Every attached socket has one monitor, which is armed while the
  socket lives and becomes one \<^verbatim>\<open>:DOWN\<close> message when it is gone; the viewers have distinct
  processes and never exceed the cap; the reap timer is armed exactly while there is no runner. Every
  live socket is attached to the session or has a close message in its mailbox, so a replaced runner
  and the sockets of a closed session all end.
\<close>

definition alarm :: "Net \<Rightarrow> monitor \<Rightarrow> pid \<Rightarrow> bool" where
  "alarm n ref p \<longleftrightarrow> (ref, p) \<in> set (n_mons n) \<or> DownMsg ref p \<in> set (n_inbox n)"

definition watched :: "Net \<Rightarrow> monitor \<Rightarrow> pid \<Rightarrow> bool" where
  "watched n ref p \<longleftrightarrow> (\<forall>q. alarm n ref q \<longleftrightarrow> q = p)"

definition sess_monitored :: "Net \<Rightarrow> PSession \<Rightarrow> bool" where
  "sess_monitored n s \<longleftrightarrow>
     (ss_runner s = None \<longleftrightarrow> ss_runner_ref s = None)
     \<and> (\<forall>r ref. ss_runner s = Some r \<longrightarrow> ss_runner_ref s = Some ref \<longrightarrow> watched n ref r)
     \<and> (ss_unconnected_timer s = None \<longleftrightarrow> ss_runner s \<noteq> None)
     \<and> distinct (map fst (ss_viewers s))
     \<and> (\<forall>v i. (v, i) \<in> set (ss_viewers s) \<longrightarrow> watched n (vi_ref i) v \<and> ss_runner_ref s \<noteq> Some (vi_ref i))
     \<and> length (ss_viewers s) \<le> viewer_cap s"

definition monitors_ok :: "Net \<Rightarrow> bool" where
  "monitors_ok n \<longleftrightarrow>
     (\<forall>ref p. alarm n ref p \<longrightarrow> ref < n_refs n \<and> p < n_pids n)
     \<and> (\<forall>ref p. (ref, p) \<in> set (n_mons n) \<longrightarrow> n_socks n p \<noteq> None)
     \<and> (\<forall>ref p. DownMsg ref p \<in> set (n_inbox n) \<longrightarrow> n_socks n p = None)"

definition closing :: "Net \<Rightarrow> pid \<Rightarrow> bool" where
  "closing n p \<longleftrightarrow> (\<exists>c r. CloseMsg c r \<in> set (n_mail n p))"

definition guarded :: "Net \<Rightarrow> bool" where
  "guarded n \<longleftrightarrow>
     (\<forall>p k. n_socks n p = Some (Live k) \<longrightarrow>
        (\<exists>s. n_sess n = Some s \<and> attached s p) \<or> closing n p)"

definition kept :: "Net \<Rightarrow> bool" where
  "kept n \<longleftrightarrow> monitors_ok n \<and> guarded n \<and> (\<forall>s. n_sess n = Some s \<longrightarrow> sess_monitored n s)"

subsection \<open>Monitors\<close>

lemma alarm_simps [simp]:
  "alarm (post ms n) = alarm n" "alarm (die p n) = alarm n" "alarm (sock_apply p ef n) = alarm n"
  "alarm (session_apply r n) = alarm n" "alarm (n\<lparr>n_sess := so\<rparr>) = alarm n"
  "alarm (n\<lparr>n_mail := ml\<rparr>) = alarm n" "alarm (n\<lparr>n_in := hs\<rparr>) = alarm n"
  "alarm (monitor_pid p n) ref q \<longleftrightarrow> alarm n ref q \<or> ref = n_refs n \<and> q = p"
  "alarm (demonitor_flush ro n) ref q \<longleftrightarrow> alarm n ref q \<and> ro \<noteq> Some ref"
proof -
  show die: "alarm (die p n) = alarm n" for n by (auto simp: alarm_def die_def fun_eq_iff)
  have "alarm (n\<lparr>n_inbox := n_inbox n @ map CastMsg cs\<rparr>) = alarm n" for cs by (auto simp: alarm_def fun_eq_iff)
  then show "alarm (sock_apply p ef n) = alarm n"
    by (cases "se_next ef") (auto simp: sock_apply_def Let_def die alarm_def fun_eq_iff)
  show "alarm (demonitor_flush ro n) ref q \<longleftrightarrow> alarm n ref q \<and> ro \<noteq> Some ref"
    by (auto simp: alarm_def demonitor_flush_def down_of_def split: option.split)
qed (auto simp: alarm_def monitor_pid_def session_apply_def fun_eq_iff split: prod.split)

lemma watched_cong: "(\<And>q. alarm n' ref q = alarm n ref q) \<Longrightarrow> watched n' ref p = watched n ref p"
  by (simp add: watched_def)

lemma watched_bound: "monitors_ok n \<Longrightarrow> watched n ref p \<Longrightarrow> ref < n_refs n"
  by (auto simp: monitors_ok_def watched_def)

lemma sess_monitored_cong:
  assumes "sess_monitored n s" "alarm n' = alarm n" "ss_runner s' = ss_runner s" "ss_runner_ref s' = ss_runner_ref s"
    "ss_unconnected_timer s' = ss_unconnected_timer s" "ss_viewers s' = ss_viewers s" "viewer_cap s' = viewer_cap s"
  shows "sess_monitored n' s'"
  using assms(1) unfolding sess_monitored_def watched_def assms(2-7) .

lemma watched_unique: "watched n ref p \<Longrightarrow> alarm n ref q \<Longrightarrow> q = p"
  by (simp add: watched_def)

lemma sess_monitored_runner:
  "sess_monitored n s \<Longrightarrow> ss_runner s = Some r \<Longrightarrow> ss_runner_ref s = Some ref \<Longrightarrow> watched n ref r"
  by (simp add: sess_monitored_def)

lemma sess_monitored_viewer:
  "sess_monitored n s \<Longrightarrow> (v, i) \<in> set (ss_viewers s) \<Longrightarrow> watched n (vi_ref i) v \<and> ss_runner_ref s \<noteq> Some (vi_ref i)"
  by (simp add: sess_monitored_def)

lemma monitors_ok_die: "monitors_ok n \<Longrightarrow> monitors_ok (die p n)"
  unfolding monitors_ok_def by (auto simp: die_def alarm_def)

lemma monitors_ok_same:
  assumes "monitors_ok n" "n_mons n' = n_mons n" "n_socks n' = n_socks n" "n_refs n' = n_refs n" "n_pids n' = n_pids n"
    "\<And>ref p. DownMsg ref p \<in> set (n_inbox n') \<longleftrightarrow> DownMsg ref p \<in> set (n_inbox n)"
  shows "monitors_ok n'"
  using assms unfolding monitors_ok_def alarm_def by simp

lemma monitors_ok_sock_apply:
  assumes "monitors_ok n" "n_socks n p \<noteq> None"
  shows "monitors_ok (sock_apply p ef n)"
proof -
  let ?n = "post (se_send ef) (n\<lparr>n_out := (n_out n)(p := n_out n p @ se_push ef), n_inbox := n_inbox n @ map CastMsg (se_cast ef)\<rparr>)"
  have ok: "monitors_ok ?n" by (rule monitors_ok_same [OF assms(1)]) auto
  then have "monitors_ok (?n\<lparr>n_socks := (n_socks ?n)(p \<mapsto> Live k)\<rparr>)" for k
    using assms(2) unfolding monitors_ok_def alarm_def by auto
  with ok show ?thesis
    unfolding sock_apply_def Let_def by (cases "se_next ef") (auto intro: monitors_ok_die)
qed

lemma monitors_ok_monitor:
  "monitors_ok n \<Longrightarrow> p < n_pids n \<Longrightarrow> monitors_ok (monitor_pid p n)"
  unfolding monitors_ok_def by (auto simp: less_Suc_eq) (auto simp: monitor_pid_def split: if_splits)

lemma monitors_ok_demonitor: "monitors_ok n \<Longrightarrow> monitors_ok (demonitor_flush ro n)"
  unfolding monitors_ok_def by (simp, cases ro) (auto simp: demonitor_flush_def)

subsection \<open>Attached or closing\<close>

lemma closing_post [simp]: "closing (post ms n) p \<longleftrightarrow> closing n p \<or> (\<exists>c r. (p, CloseMsg c r) \<in> set ms)"
  by (auto simp: closing_def set_mail_for)

lemma guarded_sock_apply:
  assumes "guarded n" "(\<exists>s. n_sess n = Some s \<and> attached s p) \<or> closing n p \<or> (\<exists>c r. se_next ef = Stops c r)"
  shows "guarded (sock_apply p ef n)"
  using assms unfolding guarded_def closing_def by (auto split: sock_next.splits)

lemma guarded_same:
  assumes "guarded n" "n_socks n' = n_socks n" "n_sess n' = n_sess n" "\<And>p. closing n p \<Longrightarrow> closing n' p"
  shows "guarded n'"
  using assms unfolding guarded_def by metis

text \<open>The session lets go only of sockets that are gone or told to close.\<close>

lemma guarded_session:
  assumes "guarded n" "n_sess n = Some s"
    and "\<And>p. attached s p \<Longrightarrow> (\<exists>s'. so = Some s' \<and> attached s' p) \<or> n_socks n p = None \<or> (\<exists>c r. (p, CloseMsg c r) \<in> set ms)"
  shows "guarded ((post ms n)\<lparr>n_sess := so\<rparr>)"
proof -
  have "closing ((post ms n)\<lparr>n_sess := so\<rparr>) = closing (post ms n)" by (simp add: closing_def fun_eq_iff)
  with assms show ?thesis
    unfolding guarded_def by (auto; metis option.distinct(1))
qed

lemma close_all_attached: "attached s p \<Longrightarrow> (p, CloseMsg c r) \<in> set (close_all c r s)"
  by (force simp: attached_def close_all_def to_runner_def to_viewers_def)

subsection \<open>The session's handlers\<close>

text \<open>A handler that leaves runner, viewers and timers alone keeps the bookkeeping.\<close>

lemma kept_apply:
  assumes "kept n" "n_sess n = Some s" "snd r = None \<or> (\<exists>s'. snd r = Some s' \<and> sess_monitored n s')"
    and "\<And>p. attached s p \<Longrightarrow> (\<exists>s'. snd r = Some s' \<and> attached s' p) \<or> n_socks n p = None
        \<or> (\<exists>c e. (p, CloseMsg c e) \<in> set (fst r))"
  shows "kept (session_apply r n)"
proof -
  have "monitors_ok (session_apply r n)"
    by (rule monitors_ok_same [of n]) (use assms(1) in \<open>auto simp: kept_def\<close>)
  moreover have "guarded (session_apply r n)"
    using guarded_session [of n s "snd r" "fst r"] assms by (simp add: kept_def session_apply_def case_prod_beta')
  moreover have "sess_monitored (session_apply r n) s'" if "snd r = Some s'" for s'
    using assms(3) that by (auto intro: sess_monitored_cong)
  ultimately show ?thesis by (simp add: kept_def)
qed

lemma kept_cast:
  assumes "kept n" "n_sess n = Some s"
  shows "kept (session_apply (serve_cast now c s) n)"
proof (rule kept_apply [OF assms])
  have "sess_monitored n s" using assms by (simp add: kept_def)
  then show "snd (serve_cast now c s) = None \<or> (\<exists>s'. snd (serve_cast now c s) = Some s' \<and> sess_monitored n s')"
    by (cases c)
      (auto simp: serve_cast_def runner_active_def session_close_def reset_idle_timer_def viewer_cap_def
        elim!: sess_monitored_cong)
qed (cases c; auto simp: serve_cast_def runner_active_def session_close_def reset_idle_timer_def attached_def
      intro: close_all_attached [unfolded attached_def])

lemma kept_timers:
  assumes "kept n" "n_sess n = Some s"
  shows "kept (session_apply (session_drain jenc s) n)" "kept (session_apply (ttl_expired s) n)"
    "kept (session_apply (idle_expired s) n)" "kept (session_apply (reap_unconnected s) n)"
proof -
  have s: "sess_monitored n s" using assms by (simp add: kept_def)
  show "kept (session_apply (session_drain jenc s) n)"
    by (rule kept_apply [OF assms]) (use s in \<open>auto simp: session_drain_def\<close>)
  show "kept (session_apply (ttl_expired s) n)"
    by (rule kept_apply [OF assms]) (auto simp: ttl_expired_def intro: close_all_attached)
  show "kept (session_apply (idle_expired s) n)"
    by (rule kept_apply [OF assms]) (auto simp: idle_expired_def intro: close_all_attached)
  show "kept (session_apply (reap_unconnected s) n)"
    by (rule kept_apply [OF assms]) (use s in \<open>auto simp: reap_unconnected_def intro: close_all_attached\<close>)
qed

text \<open>The head of the inbox is taken out.\<close>

lemma watched_pop:
  assumes "n_inbox n = m # rest" "\<And>q. m \<noteq> DownMsg ref q" "watched n ref p"
  shows "watched (n\<lparr>n_inbox := rest\<rparr>) ref p"
proof -
  have "alarm (n\<lparr>n_inbox := rest\<rparr>) ref q = alarm n ref q" for q
    using assms(1) assms(2) [of q] by (auto simp: alarm_def)
  then show ?thesis using assms(3) by (simp add: watched_def)
qed

lemma monitors_ok_pop:
  assumes "monitors_ok n" "n_inbox n = m # rest"
  shows "monitors_ok (n\<lparr>n_inbox := rest\<rparr>)"
  using assms unfolding monitors_ok_def alarm_def by auto

lemma kept_pop:
  assumes "kept n" "n_inbox n = m # rest" "\<And>ref q. m \<noteq> DownMsg ref q"
  shows "kept (n\<lparr>n_inbox := rest\<rparr>)"
proof -
  have "alarm (n\<lparr>n_inbox := rest\<rparr>) = alarm n" using assms(2,3) by (auto simp: alarm_def fun_eq_iff)
  then have "sess_monitored (n\<lparr>n_inbox := rest\<rparr>) s" if "sess_monitored n s" for s
    using that by (auto intro: sess_monitored_cong)
  moreover have "guarded (n\<lparr>n_inbox := rest\<rparr>)"
    by (rule guarded_same [of n]) (use assms(1) in \<open>auto simp: kept_def closing_def\<close>)
  ultimately show ?thesis
    using assms(1) monitors_ok_pop [OF _ assms(2)] by (simp add: kept_def)
qed

text \<open>A \<^verbatim>\<open>:DOWN\<close> message is handled: its monitor belongs to the runner, to one viewer or to nobody.\<close>

lemma sess_monitored_down:
  assumes s: "sess_monitored n s" and hd: "n_inbox n = DownMsg ref p # rest"
    and down: "snd (session_down jenc now ref p s) = Some s'"
  shows "sess_monitored (n\<lparr>n_inbox := rest\<rparr>) s'"
    and "attached s q \<Longrightarrow> attached s' q \<or> q = p"
proof -
  have al: "alarm n ref p" using hd by (simp add: alarm_def)
  have pop: "watched (n\<lparr>n_inbox := rest\<rparr>) ref' q" if "watched n ref' q" "ref' \<noteq> ref" for ref' q
    by (rule watched_pop [OF hd _ that(1)]) (use that(2) in simp)
  have own: "v = p" if "(v, i) \<in> set (ss_viewers s)" "vi_ref i = ref" for v i
    using watched_unique [of n ref v p] sess_monitored_viewer [OF s that(1)] that(2) al by blast
  have mine: "map_of (ss_viewers s) p = Some i" if "(v, i) \<in> set (ss_viewers s)" "vi_ref i = ref" for v i
    using s that own [OF that] unfolding sess_monitored_def by simp
  have d: "s' = s\<lparr>ss_viewers := AList.delete p (ss_viewers s)\<rparr> \<and> (\<exists>i. map_of (ss_viewers s) p = Some i \<and> vi_ref i = ref)
      \<or> s' = s \<and> (\<forall>i. map_of (ss_viewers s) p = Some i \<longrightarrow> vi_ref i \<noteq> ref)"
    if "ss_runner_ref s \<noteq> Some ref"
    using down that by (auto simp: session_down_def viewer_down_def Let_def split: option.splits if_splits)
  have r: "ss_runner s = Some p \<and> s' = s\<lparr>ss_runner := None, ss_runner_ref := None, ss_unconnected_timer := Some (now + ss_unconnected_ms s)\<rparr>"
    if rr: "ss_runner_ref s = Some ref"
  proof -
    have "ss_runner s \<noteq> None" using s rr unfolding sess_monitored_def by simp
    then obtain r where "ss_runner s = Some r" by blast
    moreover from this have "p = r" using watched_unique [OF sess_monitored_runner [OF s _ rr] al] by blast
    ultimately show ?thesis using down rr by (simp add: session_down_def runner_down_def)
  qed
  show "attached s' q \<or> q = p" if "attached s q"
    using that r d by (cases "ss_runner_ref s = Some ref") (auto simp: attached_def AList.delete_eq)
  show "sess_monitored (n\<lparr>n_inbox := rest\<rparr>) s'"
  proof (cases "ss_runner_ref s = Some ref")
    case True
    then have "vi_ref i \<noteq> ref" if "(v, i) \<in> set (ss_viewers s)" for v i
      using s that unfolding sess_monitored_def by blast
    with s r [OF True] pop show ?thesis
      unfolding sess_monitored_def by (simp add: viewer_cap_def split: if_splits)
  next
    case False
    have sub: "set (ss_viewers s') \<subseteq> set (ss_viewers s)" "length (ss_viewers s') \<le> length (ss_viewers s)"
      "distinct (map fst (ss_viewers s'))"
      using d [OF False] s unfolding sess_monitored_def
      by (auto simp: AList.delete_eq distinct_map_filter)
    have other: "vi_ref i \<noteq> ref" if "(v, i) \<in> set (ss_viewers s')" for v i
    proof
      assume i: "vi_ref i = ref"
      have vi: "(v, i) \<in> set (ss_viewers s)" using sub(1) that by blast
      from d [OF False] mine [OF vi i] i own [OF vi i] that show False by (auto simp: AList.delete_eq)
    qed
    have same: "ss_runner s' = ss_runner s" "ss_runner_ref s' = ss_runner_ref s"
      "ss_unconnected_timer s' = ss_unconnected_timer s" "viewer_cap s' = viewer_cap s"
      using d [OF False] by (auto simp: viewer_cap_def)
    show ?thesis
      unfolding sess_monitored_def same
      using s sub other pop False unfolding sess_monitored_def by fastforce
  qed
qed

lemma kept_down:
  assumes "kept n" "n_sess n = Some s" "n_inbox n = DownMsg ref p # rest"
  shows "kept (session_apply (session_down jenc now ref p s) (n\<lparr>n_inbox := rest\<rparr>))"
proof -
  let ?n = "n\<lparr>n_inbox := rest\<rparr>" and ?r = "session_down jenc now ref p s"
  have "snd ?r \<noteq> None"
    by (simp add: session_down_def runner_down_def viewer_down_def Let_def split: option.split)
  then obtain s' where s': "snd ?r = Some s'" by blast
  have s: "sess_monitored n s" using assms(1,2) by (simp add: kept_def)
  have dead: "n_socks ?n p = None" using assms(1,3) by (simp add: kept_def monitors_ok_def)
  have g: "guarded ?n"
    by (rule guarded_same [of n]) (use assms(1) in \<open>auto simp: kept_def closing_def\<close>)
  have "monitors_ok (session_apply ?r ?n)"
    by (rule monitors_ok_same [of ?n]) (use assms(1) monitors_ok_pop [OF _ assms(3)] in \<open>auto simp: kept_def\<close>)
  moreover have "guarded (session_apply ?r ?n)"
    using guarded_session [OF g, of s "Some s'" "fst ?r"] sess_monitored_down(2) [OF s assms(3) s'] dead assms(2) s'
    by (simp add: session_apply_def case_prod_beta') blast
  moreover have "sess_monitored (session_apply ?r ?n) s'"
    using sess_monitored_down(1) [OF s assms(3) s'] by (rule sess_monitored_cong) simp_all
  ultimately show ?thesis using s' by (simp add: kept_def)
qed

subsection \<open>Joins\<close>

lemma kept_serve_runner:
  assumes "kept n" "n_sess n = Some s" "p < n_pids n"
  shows "kept (serve_runner w now p s n)"
proof -
  obtain snap sends s' where j: "join_runner (w_jenc w) now p (n_refs n) s = (snap, sends, s')"
    by (cases "join_runner (w_jenc w) now p (n_refs n) s") auto
  let ?m = "monitor_pid p (demonitor_flush (ss_runner_ref s) n)"
  let ?n = "(post sends ?m)\<lparr>n_sess := Some s'\<rparr>"
  have mo: "monitors_ok n" and s: "sess_monitored n s" and g: "guarded n" using assms by (simp_all add: kept_def)
  have s': "s' = s\<lparr>ss_runner := Some p, ss_runner_ref := Some (n_refs n), ss_unconnected_timer := None,
      ss_idle_timer := Some (now + ss_idle_ms s)\<rparr>"
    using j by (auto simp: join_runner_def Let_def reset_idle_timer_def)
  have fresh: "\<not> alarm n (n_refs n) q" for q using mo by (auto simp: monitors_ok_def)
  have al: "alarm ?n ref q \<longleftrightarrow> alarm n ref q \<and> ss_runner_ref s \<noteq> Some ref \<or> ref = n_refs n \<and> q = p" for ref q
    by simp
  have old: "watched ?n ref q" if "watched n ref q" "ss_runner_ref s \<noteq> Some ref" for ref q
    using that fresh unfolding watched_def al by metis
  have new: "watched ?n (n_refs n) p" using fresh unfolding watched_def al by blast
  have vs: "watched ?n (vi_ref i) v \<and> n_refs n \<noteq> vi_ref i" if "(v, i) \<in> set (ss_viewers s)" for v i
    using sess_monitored_viewer [OF s that] old watched_bound [OF mo] by fastforce
  have m: "sess_monitored ?n s'"
    unfolding sess_monitored_def using s new vs by (simp add: s' sess_monitored_def viewer_cap_def split: if_splits)
  have mm: "monitors_ok ?m" using mo assms(3) by (simp add: monitors_ok_monitor monitors_ok_demonitor)
  have mn: "monitors_ok ?n" by (rule monitors_ok_same [OF mm]) simp_all
  have gm: "guarded ?m" by (rule guarded_same [OF g]) (simp_all add: closing_def)
  have "attached s' q \<or> (q, CloseMsg close_bye ''replaced'') \<in> set sends" if "attached s q" for q
    using that j by (auto simp: attached_def join_runner_def Let_def reset_idle_timer_def)
  then have gn: "guarded ?n" by (intro guarded_session [OF gm, of s]) (auto simp: assms(2))
  let ?ef = "init_runner (w_jenc w) (w_maxq w) snap"
  have at: "attached s' p" by (simp add: attached_def s')
  have "kept ?n" using mn gn m by (simp add: kept_def)
  moreover have "kept (sock_apply p ?ef ?n)" if "n_socks n p \<noteq> None"
    using monitors_ok_sock_apply [OF mn] guarded_sock_apply [OF gn] sess_monitored_cong [OF m, of _ s'] that at
    by (simp add: kept_def)
  ultimately show ?thesis by (simp add: serve_runner_def Let_def j)
qed

lemma alist_update_set: "(a, b) \<in> set (AList.update k v xs) \<Longrightarrow> (a, b) = (k, v) \<or> (a, b) \<in> set xs"
  by (induction xs) (auto split: if_splits)

lemma alist_update_length: "length (AList.update k v xs) \<le> Suc (length xs)"
  by (induction xs) auto

lemma kept_serve_viewer:
  assumes "kept n" "n_sess n = Some s" "p < n_pids n"
  shows "kept (serve_viewer w p s n)"
proof (cases "viewer_cap s \<le> length (ss_viewers s)")
  case True
  have "kept (sock_apply p (init_viewer (w_jenc w) (w_maxq w) Busy) n)" if "n_socks n p \<noteq> None"
    using monitors_ok_sock_apply guarded_sock_apply assms sess_monitored_cong that
    by (auto simp: kept_def init_viewer_def)
  with True show ?thesis using assms(1) by (simp add: serve_viewer_def join_viewer_def)
next
  case False
  let ?i = "\<lparr>vi_ref = n_refs n, vi_id = viewer_id_of (w_rnd w p)\<rparr>"
  let ?s = "s\<lparr>ss_viewers := AList.update p ?i (ss_viewers s)\<rparr>"
  obtain reply sends where j: "join_viewer (w_jenc w) p (n_refs n) (w_rnd w p) s = (reply, sends, ?s)" "reply \<noteq> Busy"
    using False by (auto simp: join_viewer_def Let_def)
  let ?m = "monitor_pid p n"
  let ?n = "(post sends ?m)\<lparr>n_sess := Some ?s\<rparr>"
  have mo: "monitors_ok n" and s: "sess_monitored n s" and g: "guarded n" using assms by (simp_all add: kept_def)
  have fresh: "\<not> alarm n (n_refs n) q" for q using mo by (auto simp: monitors_ok_def)
  have al: "alarm ?n ref q \<longleftrightarrow> alarm n ref q \<or> ref = n_refs n \<and> q = p" for ref q by simp
  have old: "watched ?n ref q" if "watched n ref q" for ref q
    using that fresh unfolding watched_def al by metis
  have new: "watched ?n (n_refs n) p" using fresh unfolding watched_def al by blast
  have rr: "ss_runner_ref s \<noteq> Some (n_refs n)"
    using s watched_bound [OF mo] unfolding sess_monitored_def by (metis less_irrefl not_None_eq)
  have vs: "watched ?n (vi_ref i) v \<and> ss_runner_ref s \<noteq> Some (vi_ref i)" if "(v, i) \<in> set (ss_viewers ?s)" for v i
    using alist_update_set [of v i p ?i "ss_viewers s"] that s old new rr unfolding sess_monitored_def by auto
  have cap: "viewer_cap ?s = viewer_cap s" by (simp add: viewer_cap_def)
  have "length (ss_viewers ?s) \<le> viewer_cap ?s"
    using False alist_update_length [of p ?i "ss_viewers s"] by (simp add: cap)
  moreover have "distinct (map fst (ss_viewers ?s))"
    using s AList.distinct_update [of "ss_viewers s" p ?i] unfolding sess_monitored_def by simp
  ultimately have m: "sess_monitored ?n ?s"
    using s old vs unfolding sess_monitored_def by auto
  have mm: "monitors_ok ?m" using mo assms(3) by (rule monitors_ok_monitor)
  have mn: "monitors_ok ?n" by (rule monitors_ok_same [OF mm]) simp_all
  have gm: "guarded ?m" by (rule guarded_same [OF g]) (simp_all add: closing_def)
  have at: "attached ?s q \<longleftrightarrow> attached s q \<or> q = p" for q
    by (simp add: attached_def AList.dom_update) blast
  have gn: "guarded ?n" by (intro guarded_session [OF gm, of s]) (auto simp: assms(2) at)
  let ?ef = "init_viewer (w_jenc w) (w_maxq w) reply"
  have "kept ?n" using mn gn m by (simp add: kept_def)
  moreover have "kept (sock_apply p ?ef ?n)" if "n_socks n p \<noteq> None"
    using monitors_ok_sock_apply [OF mn] guarded_sock_apply [OF gn] sess_monitored_cong [OF m, of _ ?s] that at
    by (simp add: kept_def)
  ultimately show ?thesis using j by (simp add: serve_viewer_def Let_def)
qed

subsection \<open>The invariant\<close>

lemma kept_session_handle:
  assumes "kept n" "n_sess n = Some s" "n_inbox n = m # rest" "\<forall>p\<in>set (call_of m). p < n_pids n"
  shows "kept (session_handle w now m s (n\<lparr>n_inbox := rest\<rparr>))"
proof (cases m)
  case (DownMsg ref p)
  then show ?thesis using kept_down [OF assms(1,2)] assms(3) by (simp add: session_handle_def)
qed (use assms kept_pop [OF assms(1,3)] in \<open>auto simp: session_handle_def
      intro: kept_serve_runner kept_serve_viewer kept_cast kept_timers\<close>)

lemma kept_sock:
  assumes "kept n" "n_socks n p = Some (Live k)" "alarm n' = alarm n" "monitors_ok n'" "guarded n'"
    "n_sess n' = n_sess n"
  shows "kept n'"
  using assms by (auto simp: kept_def intro: sess_monitored_cong)

lemma kept_step: "relay_step w n n' \<Longrightarrow> known n \<Longrightarrow> kept n \<Longrightarrow> kept n'"
proof (induction rule: relay_step.induct)
  case (arrives n)
  have al: "alarm (accept w n) = alarm n" by (auto simp: alarm_def accept_def Let_def fun_eq_iff split: role.split)
  have fresh: "\<not> alarm n ref (n_pids n)" for ref using arrives(3) by (auto simp: kept_def monitors_ok_def)
  have "monitors_ok (accept w n)"
    using arrives(3) fresh unfolding kept_def monitors_ok_def al
    by (auto simp: accept_def Let_def alarm_def less_Suc_eq split: role.splits if_splits)
  moreover have "guarded (accept w n)"
    using arrives(3) by (auto simp: kept_def guarded_def accept_def Let_def closing_def)
  moreover have "n_sess (accept w n) = n_sess n" by (simp add: accept_def Let_def)
  ultimately show ?case using arrives(3) al by (auto simp: kept_def intro: sess_monitored_cong)
next
  case (receives n p k f)
  let ?n = "n\<lparr>n_in := (n_in n)(p := n_in n p @ [f])\<rparr>"
  have "monitors_ok ?n" by (rule monitors_ok_same [of n]) (use receives(3) in \<open>auto simp: kept_def\<close>)
  moreover have g: "guarded ?n" by (rule guarded_same [of n]) (use receives(3) in \<open>auto simp: kept_def closing_def\<close>)
  moreover have "(\<exists>s. n_sess ?n = Some s \<and> attached s p) \<or> closing ?n p"
    using g receives(1) by (simp add: guarded_def)
  ultimately show ?case
    using kept_sock [OF receives(3,1), of "receive w p f k n"] receives(1)
      monitors_ok_sock_apply [of ?n p] guarded_sock_apply [of ?n p]
    by (auto simp: receive_def)
next
  case (takes n p k m rest)
  let ?n = "n\<lparr>n_mail := (n_mail n)(p := rest)\<rparr>" and ?ef = "handle_info (w_jenc w) (length rest) m k"
  have mo: "monitors_ok ?n" by (rule monitors_ok_same [of n]) (use takes(4) in \<open>auto simp: kept_def\<close>)
  have here: "(\<exists>s. n_sess n = Some s \<and> attached s q) \<or> closing n q" if "n_socks n q = Some (Live k')" for q k'
    using that takes(4) by (simp add: kept_def guarded_def)
  have stop: "(\<exists>c r. se_next ?ef = Stops c r) \<or> (\<forall>c r. m \<noteq> CloseMsg c r)"
    by (cases m) (auto simp: handle_info_def)
  have clos: "closing (take_mail w p m rest k n) q" if "closing n q" "q \<noteq> p \<or> (\<forall>c r. m \<noteq> CloseMsg c r)" for q
    using that takes(2) unfolding closing_def take_mail_def by (cases "q = p") auto
  have "guarded (take_mail w p m rest k n)"
    unfolding guarded_def
  proof (intro allI impI)
    fix q k' assume q: "n_socks (take_mail w p m rest k n) q = Some (Live k')"
    have "q = p \<Longrightarrow> \<forall>c r. m \<noteq> CloseMsg c r" using q stop by (auto simp: take_mail_def)
    moreover have "\<exists>k. n_socks n q = Some (Live k)" using q takes(1) by (auto simp: take_mail_def split: if_splits)
    moreover have "n_sess (take_mail w p m rest k n) = n_sess n" by (simp add: take_mail_def)
    ultimately show "(\<exists>s. n_sess (take_mail w p m rest k n) = Some s \<and> attached s q) \<or> closing (take_mail w p m rest k n) q"
      using here [of q] clos [of q] by metis
  qed
  then show ?case
    using kept_sock [OF takes(4,1), of "take_mail w p m rest k n"] takes(1) monitors_ok_sock_apply [OF mo, of p]
    by (simp add: take_mail_def)
next
  case (leaves n p)
  have "guarded (die p n)" using leaves(3) by (auto simp: kept_def guarded_def closing_def)
  with leaves(3) show ?case by (auto simp: kept_def monitors_ok_die intro: sess_monitored_cong)
next
  case (serves n s m rest now)
  then show ?case by (intro kept_session_handle) (auto simp: known_def)
next
  case (ticks n s m)
  let ?n = "n\<lparr>n_inbox := n_inbox n @ [m]\<rparr>"
  have "alarm ?n = alarm n" using ticks(2) by (auto simp: alarm_def timer_armed_def fun_eq_iff)
  moreover have "monitors_ok ?n"
    by (rule monitors_ok_same [of n]) (use ticks in \<open>auto simp: kept_def timer_armed_def\<close>)
  moreover have "guarded ?n" by (rule guarded_same [of n]) (use ticks in \<open>auto simp: kept_def closing_def\<close>)
  ultimately show ?case using ticks(4) by (auto simp: kept_def intro: sess_monitored_cong)
qed

text \<open>A session as \<^verbatim>\<open>init\<close> makes it: nobody is attached and the reap timer runs.\<close>

definition empty_session :: "PSession \<Rightarrow> bool" where
  "empty_session s \<longleftrightarrow>
     ss_runner s = None \<and> ss_runner_ref s = None \<and> ss_viewers s = [] \<and> ss_unconnected_timer s \<noteq> None"

lemma empty_session_init: "empty_session (session_init now sid tok ttl idle maxv lock)"
  by (simp add: empty_session_def session_init_def Let_def)

lemma reach_ok:
  assumes "relay_reach w s n" "empty_session s"
  shows "known n \<and> kept n \<and> routed w n"
  using assms
proof (induction rule: relay_reach.induct)
  case start
  then show ?case
    by (simp add: empty_session_def known_def kept_def routed_def net_init_def attached_def monitors_ok_def alarm_def
        guarded_def sess_monitored_def ok_sess_def)
next
  case (step n n')
  then show ?case using known_step kept_step routed_step by blast
qed

end
