(* ===== verification/RelayText.thy ===== *)
theory RelayText
  imports PortalSocket "HOL-Library.Multiset"
begin

text \<open>
  The relay's JSON texts and the runner's reading of them. \<^verbatim>\<open>Jason.encode!\<close> writes an object's
  members in an order of its own; \<open>jason_law\<close> says that the text of a plain object parses to the
  same members. Because the members have different names the order does not matter to Go's
  \<^verbatim>\<open>json.Unmarshal\<close>.
\<close>

subsection \<open>What the encoder promises\<close>

definition ascii :: "string \<Rightarrow> bool" where
  "ascii s \<longleftrightarrow> list_all (\<lambda>c. of_char c < (0x80 :: byte)) s"

fun plain_value :: "json \<Rightarrow> bool" where
  "plain_value (JStr s) = ascii s"
| "plain_value (JNum s) = (\<exists>i. s = show_int i)"
| "plain_value (JBool b) = True"
| "plain_value _ = False"

definition plain :: "(string \<times> json) list \<Rightarrow> bool" where
  "plain ms \<longleftrightarrow> ms \<noteq> [] \<and> distinct (map fst ms) \<and> (\<forall>(k, v)\<in>set ms. ascii k \<and> plain_value v)"

definition jason_law :: "encoder \<Rightarrow> bool" where
  "jason_law jenc \<longleftrightarrow> (\<forall>ms. plain ms \<longrightarrow> (\<exists>ms'. mset ms' = mset ms \<and> parse_json (jenc ms) = Some (JObj ms')))"

text \<open>Go's encoder keeps the promise, in the order given.\<close>

fun value_str :: "json \<Rightarrow> string" where
  "value_str (JStr s) = marshal_string s"
| "value_str (JNum s) = s"
| "value_str (JBool b) = (if b then ''true'' else ''false'')"
| "value_str _ = ''null''"

definition marshal_obj :: encoder where
  "marshal_obj ms = marshal_raw (map (\<lambda>(k, v). (k, value_str v)) ms)"

lemma value_text_false: "value_text ''false'' (JBool False)"
  by (auto simp: value_text_def str_bytes_simps skip_ws_solid is_ws_def strip_prefix_def)

lemma value_text_plain: "plain_value v \<Longrightarrow> value_text (value_str v) v"
proof (cases v)
  case (JStr s)
  moreover assume "plain_value v"
  ultimately show ?thesis using value_text_string [of s] by (simp add: ascii_def fixed_ascii)
qed (auto simp: value_text_int value_text_true value_text_false)

lemma jason_law_marshal: "jason_law marshal_obj"
  unfolding jason_law_def
proof (intro allI impI)
  fix ms assume p: "plain ms"
  let ?es = "map (\<lambda>(k, v). (k, value_str v, v)) ms"
  have "list_all (\<lambda>(k, t, v). value_text t v) ?es"
    using p value_text_plain by (auto simp: list_all_iff plain_def)
  moreover have "?es \<noteq> []" using p by (simp add: plain_def)
  ultimately have "parse_json (marshal_obj ms) = Some (JObj (map (\<lambda>(k, t, v). (fixed k, v)) ?es))"
    using parse_marshal_raw [of ?es] by (simp add: marshal_obj_def o_def case_prod_beta')
  moreover have "map (\<lambda>(k, t, v). (fixed k, v)) ?es = ms"
    using p by (auto simp: plain_def ascii_def fixed_ascii intro!: map_idI)
  ultimately show "\<exists>ms'. mset ms' = mset ms \<and> parse_json (marshal_obj ms) = Some (JObj ms')" by metis
qed

subsection \<open>Numbers read back\<close>

lemma dec_val_append: "dec_val (ds @ [d]) = 10 * dec_val ds + (unat d - 48)"
  by (simp add: dec_val_def)

lemma dec_val_show_nat: "dec_val (str_bytes (show_nat n)) = n"
proof (induction n rule: show_nat.induct)
  case (1 n)
  show ?case
  proof (cases "n < 10")
    case True
    then show ?thesis using dec_digit_byte [OF True] by (simp add: show_nat.simps [of n] str_bytes_def dec_val_def)
  next
    case False
    with 1 have "dec_val (str_bytes (show_nat (n div 10))) = n div 10" by simp
    with False show ?thesis
      using dec_digit_byte [of "n mod 10"]
      by (simp add: show_nat.simps [of n] str_bytes_def dec_val_append)
  qed
qed

lemma parse_int64_show_nat:
  assumes "int n < 2 ^ 63"
  shows "parse_int64 (show_nat n) = Some (int n)"
proof -
  obtain d ds where d: "str_bytes (show_nat n) = d # ds"
    using show_nat_bytes [of n] by (cases "str_bytes (show_nat n)") (auto simp: str_bytes_def)
  have "list_all is_digit (d # ds)" "is_digit d" using show_nat_bytes [of n] by (simp_all add: d)
  moreover from this(2) have "d \<noteq> ch CHR ''-''" by (auto simp: is_digit_def)
  ultimately show ?thesis using dec_val_show_nat [of n] assms by (simp add: parse_int64_def d Let_def)
qed

subsection \<open>The order of the members does not matter\<close>

lemma assign_field_commute:
  assumes "fold_name (str_bytes (fst x)) \<noteq> fold_name (str_bytes (fst y))"
  shows "assign_field x \<circ> assign_field y = assign_field y \<circ> assign_field x"
proof
  fix acc
  obtain k v l u where "x = (k, v)" "y = (l, u)" by (cases x; cases y)
  with assms show "(assign_field x \<circ> assign_field y) acc = (assign_field y \<circ> assign_field x) acc"
    by (cases acc; cases v; cases u)
      (auto simp: assign_field_def field_matches_def map_option_case split: option.splits)
qed

lemma fold_name_ascii:
  "a < 0x80 \<Longrightarrow> fold_name (a # r) = (if ch CHR ''a'' \<le> a \<and> a \<le> ch CHR ''z'' then a - 32 else a) # fold_name r"
  by (cases r; cases "tl r") auto

lemma folded_names:
  "fold_name (str_bytes ''t'') = [84]"
  "fold_name (str_bytes ''viewer_id'') = [86, 73, 69, 87, 69, 82, 95, 73, 68]"
  "fold_name (str_bytes ''viewers'') = [86, 73, 69, 87, 69, 82, 83]"
  "fold_name (str_bytes ''role'') = [82, 79, 76, 69]"
  "fold_name (str_bytes ''locked'') = [76, 79, 67, 75, 69, 68]"
  "fold_name (str_bytes ''id'') = [73, 68]"
  "fold_name (str_bytes ''runner_token'') = [82, 85, 78, 78, 69, 82, 95, 84, 79, 75, 69, 78]"
  "fold_name (str_bytes ''expires_at'') = [69, 88, 80, 73, 82, 69, 83, 95, 65, 84]"
  by (simp_all add: str_bytes_def fold_name_ascii del: fold_name.simps(2))

definition field_names :: "(string \<times> json) list \<Rightarrow> bytes list" where
  "field_names ms = map (\<lambda>x. fold_name (str_bytes (fst x))) ms"

lemma fold_fields_perm:
  assumes "\<And>x y. fold_name (str_bytes (fst x)) \<noteq> fold_name (str_bytes (fst y)) \<Longrightarrow> f x \<circ> f y = f y \<circ> f x"
    and "distinct (field_names ms)" "mset ms' = mset ms"
  shows "fold f ms' acc = fold f ms acc"
proof -
  have "f x \<circ> f y = f y \<circ> f x" if "x \<in> set ms'" "y \<in> set ms'" for x y
  proof (cases "x = y")
    case False
    have "inj_on (\<lambda>x. fold_name (str_bytes (fst x))) (set ms)"
      using assms(2) by (simp add: field_names_def distinct_map)
    moreover have "x \<in> set ms" "y \<in> set ms" using that assms(3) by (metis set_mset_mset)+
    ultimately show ?thesis using False by (intro assms(1)) (auto dest: inj_onD)
  qed simp
  then have "fold f ms' = fold f ms"
    using assms(3) by (intro fold_multiset_equiv) auto
  then show ?thesis by simp
qed

lemma fold_assign_perm:
  "distinct (field_names ms) \<Longrightarrow> mset ms' = mset ms \<Longrightarrow> fold assign_field ms' acc = fold assign_field ms acc"
  by (rule fold_fields_perm) (rule assign_field_commute)

subsection \<open>The runner reads the relay's messages\<close>

locale control_text =
  fixes jenc :: encoder
  assumes law: "jason_law jenc"
begin

lemma read_obj:
  assumes "plain ms" "distinct (field_names ms)"
  shows "unmarshal_relay (jenc ms) = fold assign_field ms (Some \<lparr>mT = [], mViewers = 0, mViewerID = []\<rparr>)"
proof -
  obtain ms' where ms': "mset ms' = mset ms" "parse_json (jenc ms) = Some (JObj ms')"
    using law assms(1) unfolding jason_law_def by blast
  show ?thesis
    unfolding unmarshal_relay_def ms'(2) by (simp only: option.case json.case fold_assign_perm [OF assms(2) ms'(1)])
qed

lemma read_peer:
  assumes "ascii t" "ascii v" "int c < 2 ^ 63"
  shows "unmarshal_relay (control_peer jenc t v c) = Some \<lparr>mT = t, mViewers = int c, mViewerID = v\<rparr>"
proof -
  let ?ms = "[(''t'', JStr t), (''viewer_id'', JStr v), (''viewers'', jnum c)]"
  have "show_nat c = show_int (int c)" by (simp add: show_int_def)
  then have "plain ?ms" using assms(1,2) by (auto simp: plain_def jnum_def ascii_def)
  moreover have "distinct (field_names ?ms)" by (simp add: field_names_def folded_names)
  ultimately show ?thesis
    using read_obj [of ?ms] parse_int64_show_nat [OF assms(3)]
    by (simp add: control_peer_def assign_field_def field_matches_def folded_names jnum_def)
qed

lemma read_hello:
  assumes "int (hs_viewers snap) < 2 ^ 63"
  shows "unmarshal_relay (hello_text jenc Runner snap None) =
    Some \<lparr>mT = ''hello'', mViewers = int (hs_viewers snap), mViewerID = []\<rparr>"
proof -
  let ?ms = "[(''t'', JStr ''hello''), (''role'', JStr (role_name Runner)), (''viewers'', jnum (hs_viewers snap)),
    (''locked'', JBool (hs_locked snap)), (''expires_at'', JNum (show_int (hs_expires_at snap)))]"
  have "show_nat (hs_viewers snap) = show_int (int (hs_viewers snap))" by (simp add: show_int_def)
  then have "plain ?ms" by (auto simp: plain_def jnum_def ascii_def role_name_def)
  moreover have "distinct (field_names ?ms)" by (simp add: field_names_def folded_names)
  ultimately show ?thesis
    using read_obj [of ?ms] parse_int64_show_nat [OF assms]
    by (simp add: hello_text_def assign_field_def field_matches_def folded_names jnum_def role_name_def)
qed

lemma read_going_away:
  "unmarshal_relay (control_going_away jenc) = Some \<lparr>mT = ''going_away'', mViewers = 0, mViewerID = []\<rparr>"
proof -
  have "plain [(''t'', JStr ''going_away'')]" by (simp add: plain_def ascii_def)
  moreover have "distinct (field_names [(''t'', JStr ''going_away'')])" by (simp add: field_names_def)
  ultimately show ?thesis
    using read_obj [of "[(''t'', JStr ''going_away'')]"] by (simp add: control_going_away_def assign_field_def field_matches_def)
qed

end

interpretation go_text: control_text marshal_obj
  by unfold_locales (rule jason_law_marshal)

subsection \<open>The ids the relay hands out\<close>

lemma viewer_id_ascii: "ascii (viewer_id_of rnd)"
proof -
  have "list_all (\<lambda>c. of_char c < (0x80 :: byte)) base64url_alphabet" by (simp add: base64url_alphabet_def)
  moreover have "set (viewer_id_of rnd) \<subseteq> set base64url_alphabet"
    using base64_rawurl_encode_shape by (simp add: viewer_id_of_def)
  ultimately show ?thesis by (auto simp: ascii_def list_all_iff)
qed

end
