(* ===== verification/Invariants.thy ===== *)
theory Invariants
  imports Examples
begin

text \<open>
  Invariants of the orchestrator over all interleavings: what ownership, routes and floors say
  about each other, what a connection's queues and flags are, that the resume ring holds what the
  host's terminal was shown, and how the child's exit is recorded.
\<close>

subsection \<open>Connections shrink or stay while the sender works\<close>

definition conn_le :: "connState option \<Rightarrow> connState option \<Rightarrow> bool" where
  "conn_le a b \<longleftrightarrow>
     (case (a, b) of
        (None, None) \<Rightarrow> True
      | (Some c, Some c') \<Rightarrow>
          length (send_q c') \<le> length (send_q c) \<and> length (join_q c') \<le> length (join_q c)
          \<and> reader_up c' = reader_up c \<and> (c_done c \<longrightarrow> c_done c')
      | _ \<Rightarrow> False)"

lemma conn_le_refl: "conn_le a a"
  by (simp add: conn_le_def split: option.split)

lemma conn_le_trans: "conn_le a b \<Longrightarrow> conn_le b c \<Longrightarrow> conn_le a c"
  by (auto simp: conn_le_def split: option.splits)

lemma conn_le_ws: "conn_le (conn_obj st) (conn_obj (fst (ws_write w st)))"
  by (auto simp: conn_le_def ws_write_def split: option.split)

lemma conn_le_msg: "conn_le (conn_obj st) (conn_obj (fst (writeMsg e t k p st)))"
  using conn_le_ws [of "st\<lparr>outSeq := outSeq st + 1\<rparr>"]
  by (simp add: writeMsg_def writeTargetFrame_def writeText_def Let_def conn_le_refl split: sum.split)

lemma conn_le_frames: "conn_le (conn_obj st) (conn_obj (fst (write_frames e ms st)))"
proof (induction ms arbitrary: st)
  case (Cons m ms)
  obtain st1 ok where w: "writeMsg e (m_target m) (m_kind m) (m_payload m) st = (st1, ok)"
    by fastforce
  then have "conn_le (conn_obj st) (conn_obj st1)"
    using conn_le_msg [of st e "m_target m" "m_kind m" "m_payload m"] by simp
  with w Cons.IH [of st1] show ?case by (auto intro: conn_le_trans)
qed (simp add: conn_le_refl)

lemma conn_le_repaint: "conn_le (conn_obj st) (conn_obj (fst (sendRepaint e v st)))"
  by (simp add: sendRepaint_def conn_le_frames)

lemma conn_le_after:
  "conn_le a (conn_obj (fst r)) \<Longrightarrow> conn_le a (conn_obj (sender_after r))"
  by (cases r; cases "snd r")
    (auto simp: sender_after_def upd_conn_def conn_fail_def conn_le_def split: option.splits)

lemma conn_le_join: "conn_le (conn_obj st) (conn_obj (sender_join e st))"
proof (cases "\<exists>c v rest. conn_obj st = Some c \<and> join_q c = v # rest")
  case True
  then obtain c v rest where c: "conn_obj st = Some c" "join_q c = v # rest" by blast
  let ?st = "upd_conn (\<lambda>c. c\<lparr>join_q := rest\<rparr>) st"
  have "conn_le (conn_obj st) (conn_obj ?st)" using c by (simp add: upd_conn_def conn_le_def)
  with c conn_le_repaint [of ?st e v] show ?thesis
    by (auto simp: sender_join_def intro!: conn_le_after intro: conn_le_trans)
qed (auto simp: sender_join_def conn_le_refl split: option.split list.split)

lemma conn_le_send: "conn_le (conn_obj st) (conn_obj (sender_send e st))"
proof (cases "\<exists>c m rest. conn_obj st = Some c \<and> send_q c = m # rest")
  case True
  then obtain c m rest where c: "conn_obj st = Some c" "send_q c = m # rest" by blast
  let ?st1 = "upd_conn (\<lambda>c. c\<lparr>send_q := rest\<rparr>) st"
  let ?st2 = "upd_conn (\<lambda>c. c\<lparr>dropped := False\<rparr>) ?st1"
  obtain st3 ok where r: "sendRepaint e [] ?st2 = (st3, ok)" by fastforce
  have 1: "conn_le (conn_obj st) (conn_obj ?st1)" "conn_le (conn_obj st) (conn_obj ?st2)"
    using c by (simp_all add: upd_conn_def conn_le_def)
  have 2: "conn_le (conn_obj st) (conn_obj st3)"
    using conn_le_trans [OF 1(2)] conn_le_repaint [of ?st2 e "[]"] r by simp
  show ?thesis using c r 1 2
    by (auto simp: sender_send_def writeText_def Let_def
        intro!: conn_le_after intro: conn_le_trans conn_le_ws conn_le_msg)
qed (auto simp: sender_send_def conn_le_refl split: option.split list.split)

subsection \<open>Connections\<close>

text \<open>
  The queues stay within their capacity; a connection whose reader runs is published; one whose
  reader returned is failed; and without a connection there are no viewers, routes or owner.
\<close>

definition conn_inv :: "Orch \<Rightarrow> bool" where
  "conn_inv st \<longleftrightarrow>
     (case conn_obj st of
        None \<Rightarrow> \<not> published st \<and> viewers st = 0 \<and> controlOwner st = [] \<and> ownerRoute st = []
          \<and> selfByRoute st = Map.empty
      | Some c \<Rightarrow> length (send_q c) \<le> sendQueue \<and> length (join_q c) \<le> sendQueue
          \<and> (reader_up c \<longrightarrow> published st) \<and> (\<not> reader_up c \<longrightarrow> c_done c))"

lemma conn_offer_fields [simp]:
  "join_q (conn_offer e m c) = join_q c" "reader_up (conn_offer e m c) = reader_up c"
  "c_done (conn_offer e m c) = c_done c"
  "length (send_q c) \<le> sendQueue \<Longrightarrow> length (send_q (conn_offer e m c)) \<le> sendQueue"
  by (simp_all add: conn_offer_def)

lemma conn_inv_None: "conn_inv st \<Longrightarrow> conn_obj st = None \<Longrightarrow>
    \<not> published st \<and> viewers st = 0 \<and> controlOwner st = [] \<and> ownerRoute st = [] \<and> selfByRoute st = Map.empty"
  by (simp add: conn_inv_def)

text \<open>Handlers only queue messages, so with a connection they keep the invariant.\<close>

definition queued :: "Orch \<Rightarrow> Orch \<Rightarrow> bool" where
  "queued st st' \<longleftrightarrow> published st' = published st \<and> (conn_obj st = None \<longrightarrow> conn_obj st' = None) \<and>
     (\<forall>c. conn_obj st = Some c \<longrightarrow> length (send_q c) \<le> sendQueue \<longrightarrow> length (join_q c) \<le> sendQueue
        \<longrightarrow> (\<exists>c'. conn_obj st' = Some c' \<and> length (send_q c') \<le> sendQueue \<and> length (join_q c') \<le> sendQueue
          \<and> reader_up c' = reader_up c \<and> c_done c' = c_done c))"

lemma queued_conn_inv: "queued st st' \<Longrightarrow> conn_obj st = Some c \<Longrightarrow> conn_inv st \<Longrightarrow> conn_inv st'"
  unfolding queued_def conn_inv_def by fastforce

lemma queued_refl: "queued st st"
  by (simp add: queued_def)

lemma queued_trans: "queued a b \<Longrightarrow> queued b c \<Longrightarrow> queued a c"
  unfolding queued_def by (metis (no_types, lifting))

lemma queued_enqueue: "queued st (enqueue e m st)"
  by (auto simp: enqueue_shape offered_def queued_def)

lemma queued_cong:
  "queued st st1 \<Longrightarrow> published st2 = published st1 \<Longrightarrow> conn_obj st2 = conn_obj st1 \<Longrightarrow> queued st st2"
  by (simp add: queued_def)

lemma queued_fields: "published st' = published st \<Longrightarrow> conn_obj st' = conn_obj st \<Longrightarrow> queued st st'"
  by (simp add: queued_def)

lemma queued_handlers:
  "queued st (Resize e cols rows st)"
  "queued st (pump_chunk e chunk st)"
  "queued st (keepalive_tick e st)"
  "queued st (signalExit e st)"
  "queued st (handleControlRequest e v r st)"
  "queued st (handleControlRelease e v r st)"
  "queued st (Revoke e st)"
  by (auto simp: queued_def Resize_def pump_chunk_def keepalive_tick_def signalExit_def
      handleControlRequest_def handleControlRelease_def Revoke_def emit_shapes offered_def Let_def
      split: prod.split)

lemma queued_dispatch: "queued st (dispatch e r v k p st)"
  by (simp add: dispatch_def queued_handlers queued_refl queued_fields split: sum.split)

lemma queued_handleBinary: "queued st (handleBinary e fr st)"
proof (cases rule: handleBinary_cases [of e fr st])
  case (taken r v seq kind p)
  have "queued st (accepted r v seq st)" by (simp add: queued_fields accepted_def)
  with taken(5) show ?thesis using queued_dispatch queued_trans by metis
qed (simp add: queued_refl)

lemma queued_handleControl: "queued st (handleControl e d st)"
proof -
  have "queued st (handleControlMsg e m st)" for m
    by (auto simp: queued_def handleControlMsg_def emit_shapes Let_def signal_join_def
        forgetViewer_frame(5) forgetViewer_def split: option.split)
  then show ?thesis by (simp add: handleControl_def queued_refl split: option.split)
qed

lemma conn_inv_local:
  assumes "queued st st'" "local_step st st'" "viewers st' = viewers st" "conn_inv st"
  shows "conn_inv st'"
proof (cases "conn_obj st")
  case None
  with assms(1) have "conn_obj st' = None" "published st' = published st" by (auto simp: queued_def)
  with assms None show ?thesis by (simp add: conn_inv_def local_step_def)
qed (use assms queued_conn_inv in blast)

lemma viewers_local [simp]:
  "viewers (Resize e cols rows st) = viewers st"
  "viewers (pump_chunk e chunk st) = viewers st"
  "viewers (keepalive_tick e st) = viewers st"
  "viewers (signalExit e st) = viewers st"
  by (simp_all add: Resize_def pump_chunk_def keepalive_tick_def signalExit_def emit_shapes Let_def
      split: prod.split)

lemma conn_inv_emitting:
  "conn_inv st \<Longrightarrow> conn_inv (Resize e cols rows st)"
  "conn_inv st \<Longrightarrow> conn_inv (pump_chunk e chunk st)"
  "conn_inv st \<Longrightarrow> conn_inv (keepalive_tick e st)"
  "conn_inv st \<Longrightarrow> conn_inv (signalExit e st)"
  by (erule conn_inv_local [rotated 3]; simp add: queued_handlers local_intros)+

lemma conn_inv_sender:
  assumes "only_conn st st'" "conn_le (conn_obj st) (conn_obj st')" "conn_inv st"
  shows "conn_inv st'"
  using assms by (elim only_connE) (auto simp: conn_inv_def conn_le_def split: option.splits)

lemma conn_inv_Revoke: "conn_inv st \<Longrightarrow> conn_inv (Revoke e st)"
proof (cases "conn_obj st")
  case None
  moreover assume "conn_inv st"
  ultimately show ?thesis using conn_inv_None [of st] by (simp add: Revoke_def)
qed (use queued_conn_inv queued_handlers(7) in blast)

lemma conn_inv_step:
  assumes "orch_step st st'" "conn_inv st"
  shows "conn_inv st'"
  using assms(1)
proof cases
  case (read c e w)
  have "queued st (reader_message e w st)"
    by (cases w) (simp_all add: reader_message_def queued_handleBinary queued_handleControl)
  with read assms(2) show ?thesis by (blast intro: queued_conn_inv)
next
  case (revoke e)
  then show ?thesis using assms(2) conn_inv_Revoke by simp
next
  case (type_in chunk)
  then show ?thesis using assms(2)
    by (simp add: host_input_def pumpInput_def conn_inv_def split: option.splits)
next
  case (join c e)
  then show ?thesis using assms(2) conn_inv_sender only_conn_sender_join conn_le_join by blast
next
  case (send c e)
  then show ?thesis using assms(2) conn_inv_sender only_conn_sender_send conn_le_send by blast
qed (use assms(2) in \<open>simp_all add: conn_inv_emitting\<close>, use assms(2) in \<open>auto simp: conn_inv_def child_exit_def shutdown_def sender_stop_def upd_conn_def
  serve_start_def serve_reader_end_def conn_fail_def serve_unpublish_def serve_finish_def
  clearControlOwner_def note_host_shape Let_def split: option.splits\<close>)

subsection \<open>Ownership, routes and floors\<close>

text \<open>
  There is a recorded route for the owner and only for an owner; the owner, and every viewer a
  route is bound to, has sent an accepted frame.
\<close>

definition own_inv :: "Orch \<Rightarrow> bool" where
  "own_inv st \<longleftrightarrow>
     (controlOwner st = [] \<longleftrightarrow> ownerRoute st = [])
     \<and> (controlOwner st \<noteq> [] \<longrightarrow> 0 < floor_of st (controlOwner st))
     \<and> (\<forall>r v. selfByRoute st r = Some v \<longrightarrow> r \<noteq> [] \<and> v \<noteq> [] \<and> 0 < floor_of st v)"

lemma own_inv_cong:
  "inSeqByViewer st' = inSeqByViewer st \<Longrightarrow> selfByRoute st' = selfByRoute st
   \<Longrightarrow> controlOwner st' = controlOwner st \<Longrightarrow> ownerRoute st' = ownerRoute st
   \<Longrightarrow> own_inv st' = own_inv st"
  by (simp add: own_inv_def floor_of_def)

lemma own_inv_accepted:
  "own_inv st \<Longrightarrow> r \<noteq> [] \<Longrightarrow> v \<noteq> [] \<Longrightarrow> 0 < seq \<Longrightarrow> own_inv (accepted r v seq st)"
  by (auto simp: own_inv_def floor_of_accepted) (auto simp: accepted_def split: if_splits)

lemma own_inv_dispatch:
  assumes "own_inv st" "r \<noteq> []" "v \<noteq> []" "0 < floor_of st v"
  shows "own_inv (dispatch e r v k p st)"
proof -
  have "own_inv (handleControlRequest e v r st)" "own_inv (handleControlRelease e v r st)"
    using assms by (auto simp: own_inv_def floor_of_def handleControlRequest_def
        handleControlRelease_def emit_shapes Let_def)
  moreover have "own_inv (st\<lparr>sess := s\<rparr>)" for s
    using assms(1) own_inv_cong [of "st\<lparr>sess := s\<rparr>" st] by simp
  ultimately show ?thesis using assms(1) by (simp add: dispatch_def split: sum.split)
qed

lemma own_inv_handleBinary:
  assumes "own_inv st"
  shows "own_inv (handleBinary e fr st)"
proof (cases rule: handleBinary_cases [of e fr st])
  case (taken r v seq kind p)
  from taken(2) have "0 < seq" by (metis word_gt_0 word_not_simps(1))
  with taken own_inv_accepted [OF assms] show ?thesis
    by (simp add: own_inv_dispatch floor_of_accepted)
qed (simp add: assms)

lemma own_inv_forgetViewer: "own_inv st \<Longrightarrow> own_inv (forgetViewer r st)"
  by (auto simp: own_inv_def forgetViewer_def floor_of_def Let_def split: option.splits if_splits)

lemma own_inv_handleControl:
  assumes "own_inv st"
  shows "own_inv (handleControl e d st)"
proof -
  have "own_inv (handleControlMsg e m st)" for m
  proof (cases "mT m = ''peer_left''")
    case True
    let ?st = "st\<lparr>viewers := word_of_int (if mViewers m < 0 then 0 else mViewers m)\<rparr>"
    have "own_inv ?st" using assms own_inv_cong [of ?st st] by simp
    then have "own_inv (forgetViewer (mViewerID m) ?st)" by (rule own_inv_forgetViewer)
    then show ?thesis using True own_inv_cong [of "handleControlMsg e m st" "forgetViewer (mViewerID m) ?st"]
      by (simp add: handleControlMsg_def Let_def emit_shapes)
  next
    case False
    then have "own_inv (handleControlMsg e m st) = own_inv st"
      by (intro own_inv_cong) (simp_all add: handleControlMsg_def Let_def emit_shapes signal_join_def
          split: option.split)
    with assms show ?thesis by simp
  qed
  then show ?thesis using assms by (simp add: handleControl_def split: option.split)
qed

lemma own_inv_step:
  assumes "orch_step st st'" "own_inv st"
  shows "own_inv st'"
  using assms(1)
proof (cases rule: orch_step_cases)
  case loc
  with assms(2) own_inv_cong [of st' st] show ?thesis by (simp add: local_step_def)
next
  case (revoke e)
  with assms(2) show ?thesis
    by (auto simp: own_inv_def floor_of_def Revoke_def emit_shapes Let_def)
qed (use assms(2) in \<open>simp_all add: own_inv_handleBinary own_inv_handleControl,
  simp add: own_inv_def serve_finish_def clearControlOwner_def\<close>)

subsection \<open>The resume ring and the host's terminal\<close>

definition tap :: "Orch \<Rightarrow> Ring \<times> bytes list \<times> bool" where
  "tap st = (o_ring st, local_out st, has_localOut st)"

lemma tap_handleBinary: "tap (handleBinary e fr st) = tap st"
proof (cases rule: handleBinary_cases [of e fr st])
  case (taken r v seq kind p)
  have "tap (dispatch e r v kind p st') = tap st'" for st'
    by (simp add: tap_def dispatch_def handleControlRequest_def handleControlRelease_def
        emit_shapes Let_def split: sum.split)
  with taken(5) show ?thesis by (simp add: tap_def accepted_def)
qed simp

lemma tap_handleControl: "tap (handleControl e d st) = tap st"
proof -
  have "tap (handleControlMsg e m st) = tap st" for m
    by (simp add: tap_def handleControlMsg_def emit_shapes Let_def signal_join_def forgetViewer_def
        split: option.split)
  then show ?thesis by (simp add: handleControl_def split: option.split)
qed

lemma tap_only_conn: "only_conn st st' \<Longrightarrow> tap st' = tap st"
  by (elim only_connE) (simp add: tap_def)

lemma tap_step:
  assumes "orch_step st st'"
  obtains "tap st' = tap st" | e chunk where "st' = pump_chunk e chunk st"
  using assms
proof cases
  case (read c e w)
  have "tap (reader_message e w st) = tap st"
    by (cases w) (simp_all add: reader_message_def tap_handleBinary tap_handleControl)
  with read show thesis using that(1) by blast
next
  case (pump chunk e)
  then show thesis using that(2) by blast
next
  case (join c e)
  then show thesis using that(1) tap_only_conn only_conn_sender_join by blast
next
  case (send c e)
  then show thesis using that(1) tap_only_conn only_conn_sender_send by blast
qed (use that(1) in \<open>simp_all add: tap_def Revoke_def Resize_def host_input_def pumpInput_def
  keepalive_tick_def child_exit_def signalExit_def shutdown_def sender_stop_def upd_conn_def
  serve_start_def serve_reader_end_def serve_unpublish_def serve_finish_def clearControlOwner_def
  emit_shapes Let_def split: prod.splits\<close>)

definition ring_inv :: "Orch \<Rightarrow> bool" where
  "ring_inv st \<longleftrightarrow> rmax (o_ring st) = nat ringBytes \<and>
     (has_localOut st \<longrightarrow> rbuf (o_ring st) = last_n (nat ringBytes) (concat (local_out st)))"

lemma ring_inv_step:
  assumes "orch_step st st'" "ring_inv st"
  shows "ring_inv st'"
  using assms(1)
proof (cases rule: tap_step)
  case 1
  with assms(2) show ?thesis by (simp add: tap_def ring_inv_def)
next
  case (2 e chunk)
  with assms(2) rr.held_wr [of "o_ring st" chunk] rr.cap_wr [of "o_ring st" chunk] show ?thesis
    by (simp add: ring_inv_def pump_chunk_def emit_shapes Let_def ring_write_def last_n_append)
qed

subsection \<open>The command's exit\<close>

definition proc_inv :: "Orch \<Rightarrow> bool" where
  "proc_inv st \<longleftrightarrow>
     exitCode st = word_of_int (ExitCode (sess st))
     \<and> ptmx_open (sess st) = (\<not> shutdownOnce st)
     \<and> sent_signals (sess st) = (if shutdownOnce st \<and> has_process (sess st) then [SIGTERM] else [])
     \<and> size_inv (sess st)"

text \<open>Typing and resizing leave the process alone.\<close>

definition io_step :: "Orch \<Rightarrow> Orch \<Rightarrow> bool" where
  "io_step st st' \<longleftrightarrow>
     process_state (sess st') = process_state (sess st) \<and> has_process (sess st') = has_process (sess st)
     \<and> ptmx_open (sess st') = ptmx_open (sess st) \<and> sent_signals (sess st') = sent_signals (sess st)
     \<and> (size_inv (sess st) \<longrightarrow> size_inv (sess st'))
     \<and> exitCode st' = exitCode st \<and> shutdownOnce st' = shutdownOnce st"

lemma io_step_inv: "io_step st st' \<Longrightarrow> proc_inv st \<Longrightarrow> proc_inv st'"
  by (simp add: io_step_def proc_inv_def ExitCode_def)

lemma io_step_sess:
  "sess st' = sess st \<Longrightarrow> exitCode st' = exitCode st \<Longrightarrow> shutdownOnce st' = shutdownOnce st \<Longrightarrow> io_step st st'"
  by (simp add: io_step_def)

lemma io_step_write:
  "sess st' = fst (SessionWrite (sess st) p) \<Longrightarrow> exitCode st' = exitCode st
   \<Longrightarrow> shutdownOnce st' = shutdownOnce st \<Longrightarrow> io_step st st'"
  by (simp add: io_step_def SessionWrite_def size_inv_def Size_def)

lemma io_step_size:
  "sess st' = fst (SetSize (sess st) c r os) \<Longrightarrow> exitCode st' = exitCode st
   \<Longrightarrow> shutdownOnce st' = shutdownOnce st \<Longrightarrow> io_step st st'"
  using size_inv_SetSize [of "sess st" c r os] by (auto simp: io_step_def SetSize_def)

lemma io_handleBinary: "io_step st (handleBinary e fr st)"
proof (cases rule: handleBinary_cases [of e fr st])
  case (taken r v seq kind p)
  have "io_step st' (handleControlRequest e v r st')" "io_step st' (handleControlRelease e v r st')" for st'
    by (rule io_step_sess; simp add: handleControlRequest_def handleControlRelease_def emit_shapes Let_def)+
  then have "io_step st' (dispatch e r v kind p st')" for st'
    by (auto simp: dispatch_def intro: io_step_sess io_step_write io_step_size split: sum.split)
  from this [of "accepted r v seq st"] taken(5) show ?thesis by (simp add: io_step_def accepted_def)
qed (simp add: io_step_sess)

lemma io_handleControl: "io_step st (handleControl e d st)"
proof -
  have "io_step st (handleControlMsg e m st)" for m
    by (rule io_step_sess; simp add: handleControlMsg_def emit_shapes Let_def signal_join_def
        forgetViewer_def split: option.split)
  then show ?thesis by (simp add: handleControl_def io_step_sess split: option.split)
qed

lemma io_only_conn: "only_conn st st' \<Longrightarrow> io_step st st'"
  by (elim only_connE) (simp add: io_step_sess)

lemma proc_inv_step:
  assumes "orch_step st st'" "proc_inv st"
  shows "proc_inv st'"
  using assms(1)
proof cases
  case (read c e w)
  have "io_step st (reader_message e w st)"
    by (cases w) (simp_all add: reader_message_def io_handleBinary io_handleControl)
  with read assms(2) show ?thesis by (blast intro: io_step_inv)
next
  case (resize e cols rows)
  have "io_step st st'"
    unfolding resize by (rule io_step_size) (simp_all add: Resize_def emit_shapes Let_def split: prod.split)
  with assms(2) show ?thesis by (rule io_step_inv [rotated])
next
  case (type_in chunk)
  have "io_step st st'"
    unfolding type_in host_input_def pumpInput_def
    by (cases "chunk = []") (auto intro: io_step_sess io_step_write)
  with assms(2) show ?thesis by (rule io_step_inv [rotated])
next
  case (exit code)
  with assms(2) show ?thesis
    by (auto simp: proc_inv_def child_exit_def Let_def Wait_def size_inv_def Size_def split: if_splits)
next
  case shut
  with assms(2) show ?thesis
    by (auto simp: proc_inv_def shutdown_def Terminate_def Close_def ExitCode_def size_inv_def Size_def
        split: if_splits)
next
  case (join c e)
  then show ?thesis using assms(2) io_step_inv io_only_conn only_conn_sender_join by blast
next
  case (send c e)
  then show ?thesis using assms(2) io_step_inv io_only_conn only_conn_sender_send by blast
qed (use assms(2) in \<open>simp_all add: proc_inv_def Revoke_def pump_chunk_def
  keepalive_tick_def signalExit_def sender_stop_def upd_conn_def
  serve_start_def serve_reader_end_def serve_unpublish_def serve_finish_def clearControlOwner_def
  emit_shapes Let_def split: prod.splits\<close>)

subsection \<open>All states of a session\<close>

text \<open>A session as the command line hands it to \<^verbatim>\<open>New\<close>: started, not yet waited for.\<close>

definition fresh_session :: "Session \<Rightarrow> bool" where
  "fresh_session s \<longleftrightarrow> process_state s = None \<and> ptmx_open s \<and> sent_signals s = [] \<and> size_inv s"

lemma run_invariants:
  assumes "New cfg = Inr st0" "orch_step\<^sup>*\<^sup>* st0 st"
  shows "conn_inv st" "own_inv st" "ring_inv st" "fresh_session (cfg_Session cfg) \<Longrightarrow> proc_inv st"
proof -
  have init: "conn_inv st0" "own_inv st0" "ring_inv st0" "local_out st0 = [] \<and> \<not> shutdownOnce st0"
    using New_fields [OF assms(1)] assms(1)
    by (auto simp: conn_inv_def own_inv_def ring_inv_def New_def ringBytes_def last_n_def split: sum.splits)
  show "conn_inv st" using assms(2) init(1) by (induction) (auto intro: conn_inv_step)
  show "own_inv st" using assms(2) init(2) by (induction) (auto intro: own_inv_step)
  show "ring_inv st" using assms(2) init(3) by (induction) (auto intro: ring_inv_step)
  assume "fresh_session (cfg_Session cfg)"
  then have "proc_inv st0"
    using New_fields [OF assms(1)] init(4) by (simp add: proc_inv_def fresh_session_def ExitCode_def)
  with assms(2) show "proc_inv st" by (induction) (auto intro: proc_inv_step)
qed

lemma ex_run: "orch_step\<^sup>*\<^sup>* (ex_orch mode) (ex_up mode)"
  using ex_up_step by blast

text \<open>A connection over which viewer \<open>v\<close> has taken control.\<close>

definition ex_owned :: Orch where
  "ex_owned = handleBinary ex_env (ex_frame ''r'' ''v'' 1 KindCtrlReq []) (ex_up ControlAuto)"

lemma ex_owned_eq:
  "ex_owned = dispatch ex_env ''r'' ''v'' KindCtrlReq [] (accepted ''r'' ''v'' 1 (ex_up ControlAuto))"
  unfolding ex_owned_def by (subst handle_viewer_frame [symmetric]) (simp_all add: ex_simps floor_of_def)

lemma ex_owned_facts:
  "controlOwner ex_owned = ''v''" "ownerRoute ex_owned = ''r''" "floor_of ex_owned ''v'' = 1"
  "conn_obj ex_owned \<noteq> None"
  unfolding ex_owned_eq
  by (simp_all add: dispatch_def kind_defs handleControlRequest_def emit_shapes offered_def accepted_def
      floor_of_def ex_simps Let_def)

lemma ex_owned_up: "conn_obj ex_owned = Some c \<Longrightarrow> reader_up c \<and> sender_up c \<and> published ex_owned"
  unfolding ex_owned_eq
  by (auto simp: dispatch_def kind_defs handleControlRequest_def emit_shapes offered_def accepted_def
      conn_offer_def ex_simps Let_def)

lemma ex_owned_run: "orch_step\<^sup>*\<^sup>* (ex_orch ControlAuto) ex_owned"
proof -
  have "orch_step (ex_up ControlAuto) (reader_message ex_env (WsBinary (ex_frame ''r'' ''v'' 1 KindCtrlReq [])) (ex_up ControlAuto))"
    by (rule orch_step.read) (simp add: ex_simps, simp)
  with ex_run [of ControlAuto] show ?thesis
    by (simp add: reader_message_def ex_owned_def rtranclp.rtrancl_into_rtrancl)
qed

text \<open>
  C22: Control needs a connection and a proof of the key. In every state a session can reach, an owner
  has a recorded route and has sent an accepted frame, and \<^verbatim>\<open>serveConn\<close> still holds a
  connection for it - up, or failed and being taken down, since the owner is cleared at the very
  end. Without a connection there is no owner, no bound route, no counted viewer and nothing that
  messages could be queued on.
\<close>

theorem control_needs_connection:
  assumes "New cfg = Inr st0" "orch_step\<^sup>*\<^sup>* st0 st"
  shows "(controlOwner st = []) = (ownerRoute st = [])
    \<and> (controlOwner st \<noteq> [] \<longrightarrow> 0 < floor_of st (controlOwner st) \<and> conn_obj st \<noteq> None)
    \<and> (\<forall>r v. selfByRoute st r = Some v \<longrightarrow> 0 < floor_of st v)
    \<and> (conn_obj st = None \<longrightarrow> controlOwner st = [] \<and> selfByRoute st = Map.empty \<and> viewers st = 0 \<and> \<not> published st)"
proof -
  note i = run_invariants(1,2) [OF assms]
  have n: "conn_obj st = None \<longrightarrow> controlOwner st = [] \<and> selfByRoute st = Map.empty \<and> viewers st = 0 \<and> \<not> published st"
    using conn_inv_None [OF i(1)] by blast
  moreover have "(controlOwner st = []) = (ownerRoute st = [])" "\<forall>r v. selfByRoute st r = Some v \<longrightarrow> 0 < floor_of st v"
    "controlOwner st \<noteq> [] \<longrightarrow> 0 < floor_of st (controlOwner st)"
    using i(2) unfolding own_inv_def by blast+
  ultimately show ?thesis by blast
qed

theorem control_needs_connection_witness:
  "controlOwner ex_owned = ''v'' \<and> 0 < floor_of ex_owned ''v'' \<and> ownerRoute ex_owned \<noteq> [] \<and> conn_obj ex_owned \<noteq> None"
  using control_needs_connection [OF New_ex_config ex_owned_run] ex_owned_facts(1) by simp

text \<open>
  The runner's memory for a slow relay is bounded: whatever the interleaving, the send queue and
  the join queue of a connection never hold more than 256 entries.
\<close>

theorem queues_bounded:
  assumes "New cfg = Inr st0" "orch_step\<^sup>*\<^sup>* st0 st" "conn_obj st = Some c"
  shows "length (send_q c) \<le> 256 \<and> length (join_q c) \<le> 256"
  using run_invariants(1) [OF assms(1,2)] assms(3) by (simp add: conn_inv_def sendQueue_def)

theorem queues_bounded_witness:
  "length (send_q (the (conn_obj (ex_up ControlAuto)))) \<le> 256
   \<and> length (join_q (the (conn_obj (ex_up ControlAuto)))) \<le> 256"
  by (rule queues_bounded [OF New_ex_config ex_run]) (simp add: ex_simps)

text \<open>
  C28: A repaint shows what the host sees: in every reachable state the OUTPUT frame of a repaint is
  a terminal reset followed by the last 256 KiB of everything that was written to the host's own
  terminal, from the first byte that does not continue a character. This holds however often the
  relay was disconnected and however many frames were dropped meanwhile.
\<close>

theorem repaint_shows_terminal:
  assumes "New cfg = Inr st0" "orch_step\<^sup>*\<^sup>* st0 st" "has_localOut st"
  shows "map m_payload (filter (\<lambda>m. m_kind m = KindOutput) (repaintFrames st v)) =
    [[0x1B, of_char CHR ''c''] @ dropWhile is_cont (last_n 262144 (concat (local_out st)))]"
proof -
  have "Snapshot (o_ring st) = dropWhile is_cont (last_n 262144 (concat (local_out st)))"
    using run_invariants(3) [OF assms(1,2)] assms(3)
    by (simp add: ring_inv_def ringBytes_def rr.snap_held)
  then show ?thesis by (simp add: repaintFrames_def kind_defs split: prod.split)
qed

theorem repaint_shows_terminal_witness:
  "map m_payload (filter (\<lambda>m. m_kind m = KindOutput) (repaintFrames (pump_chunk ex_env [0x68, 0x69] (ex_up ControlAuto)) ''v'')) =
    [[0x1B, 0x63, 0x68, 0x69]]"
proof -
  let ?st = "pump_chunk ex_env [0x68, 0x69] (ex_up ControlAuto)"
  have "orch_step\<^sup>*\<^sup>* (ex_orch ControlAuto) ?st"
    using ex_run [of ControlAuto] orch_step.pump [of "[0x68, 0x69]" "ex_up ControlAuto" ex_env]
    by (auto intro: rtranclp.rtrancl_into_rtrancl)
  from repaint_shows_terminal [OF New_ex_config this, of "''v''"] show ?thesis
    by (simp add: pump_chunk_def emit_shapes Let_def ex_simps last_n_def is_cont_def)
qed

text \<open>
  The command's end. For a session that starts with a running command: the recorded exit code is
  always the one the operating system reported, or -1 before that; the PTY is torn down exactly
  when the teardown ran, and the command is sent SIGTERM at most once; the size the runner tells
  viewers is the last size set on the PTY.
\<close>

theorem exit_and_teardown:
  assumes "New cfg = Inr st0" "orch_step\<^sup>*\<^sup>* st0 st" "fresh_session (cfg_Session cfg)"
  shows "exitCode st = (case process_state (sess st) of None \<Rightarrow> -1 | Some code \<Rightarrow> word_of_int code)
    \<and> ptmx_open (sess st) = (\<not> shutdownOnce st)
    \<and> sent_signals (sess st) = (if shutdownOnce st \<and> has_process (sess st) then [SIGTERM] else [])
    \<and> Size (sess st) = (if winsizes (sess st) = [] then (0, 0) else last (winsizes (sess st)))"
  using run_invariants(4) [OF assms] by (simp add: proc_inv_def ExitCode_def size_inv_def split: option.split)

theorem exit_and_teardown_witness:
  "sent_signals (sess (shutdown (shutdown (ex_up ControlAuto)))) = [SIGTERM]"
proof -
  have "orch_step\<^sup>*\<^sup>* (ex_orch ControlAuto) (shutdown (shutdown (ex_up ControlAuto)))"
    by (meson ex_run orch_step.shut rtranclp.rtrancl_into_rtrancl)
  from exit_and_teardown [OF New_ex_config this] show ?thesis
    by (simp add: fresh_session_def ex_config_def ex_session_def size_inv_def Size_def shutdown_def
        ex_simps Terminate_def Close_def)
qed

end
