(* ===== verification/RelayView.thy ===== *)
theory RelayView
  imports RelayGuard RelayText Invariants
begin

text \<open>
  The relay and the runner together. The runner pumps terminal output only while its count of
  viewers is positive, and the count is whatever the relay told it last. Of the texts pushed to the
  attached runner and those still in its mailbox, the last one that carries a count carries the
  number of viewers attached; when the mailbox is drained, the runner's own state has that number.
\<close>

subsection \<open>What a runner takes from a text\<close>

definition told_msg :: "relay_msg \<Rightarrow> int option" where
  "told_msg m =
     (if mT m = ''hello'' then Some (mViewers m)
      else if mT m = ''peer_join'' then Some (if mViewers m \<le> 0 then 1 else mViewers m)
      else if mT m = ''peer_left'' then Some (if mViewers m < 0 then 0 else mViewers m)
      else None)"

definition told :: "wsmsg \<Rightarrow> int option" where
  "told f = (case f of WsBinary _ \<Rightarrow> None | WsText t \<Rightarrow> Option.bind (unmarshal_relay t) told_msg)"

definition last_told :: "wsmsg list \<Rightarrow> int option \<Rightarrow> int option" where
  "last_told fs acc = fold (\<lambda>f a. case told f of None \<Rightarrow> a | Some c \<Rightarrow> Some c) fs acc"

lemma viewers_frames [simp]:
  "viewers (signal_join v st) = viewers st" "viewers (note_host e s st) = viewers st"
  "viewers (forgetViewer v st) = viewers st"
  by (simp_all add: signal_join_def note_host_def forgetViewer_def Let_def split: option.split)

lemma viewers_handleControlMsg:
  "viewers (handleControlMsg e m st) = (case told_msg m of None \<Rightarrow> viewers st | Some c \<Rightarrow> word_of_int c)"
  by (simp add: handleControlMsg_def told_msg_def Let_def)

lemma viewers_handleBinary: "viewers (handleBinary e fr st) = viewers st"
proof -
  have "viewers (dispatch e r v k p st) = viewers st" for r v k p st
    by (simp add: dispatch_def handleControlRequest_def handleControlRelease_def emit_shapes Let_def split: sum.split)
  then show ?thesis
    by (cases rule: handleBinary_cases [of e fr st]) (simp_all add: accepted_def)
qed

lemma viewers_reader:
  "viewers (reader_message e f st) = (case told f of None \<Rightarrow> viewers st | Some c \<Rightarrow> word_of_int c)"
proof (cases f)
  case (WsText t)
  then show ?thesis
    by (cases "unmarshal_relay t")
      (simp_all add: reader_message_def told_def handleControl_def viewers_handleControlMsg)
qed (simp add: reader_message_def told_def viewers_handleBinary)

lemma viewers_read_all:
  "viewers (fold (reader_message e) fs st) =
     (case last_told fs None of None \<Rightarrow> viewers st | Some c \<Rightarrow> word_of_int c)"
proof -
  have "viewers (fold (reader_message e) fs st) = (case last_told fs acc of None \<Rightarrow> viewers s0 | Some c \<Rightarrow> word_of_int c)"
    if "viewers st = (case acc of None \<Rightarrow> viewers s0 | Some c \<Rightarrow> word_of_int c)" for s0 acc
    using that
  proof (induction fs arbitrary: st acc)
    case (Cons f fs)
    from Cons.IH [of "reader_message e f st" "case told f of None \<Rightarrow> acc | Some c \<Rightarrow> Some c"] Cons.prems
    show ?case by (simp add: last_told_def viewers_reader split: option.split)
  qed (simp add: last_told_def)
  from this [of st None] show ?thesis by simp
qed

lemma last_told_append: "last_told (xs @ ys) acc = last_told ys (last_told xs acc)"
  by (simp add: last_told_def)

lemma last_told_none: "(\<And>f. f \<in> set fs \<Longrightarrow> told f = None) \<Longrightarrow> last_told fs acc = acc"
  by (induction fs arbitrary: acc) (simp_all add: last_told_def)

lemma last_told_one: "told f = Some c \<Longrightarrow> last_told [f] acc = Some c"
  by (simp add: last_told_def)

subsection \<open>The texts on their way\<close>

primrec mail_texts :: "mail \<Rightarrow> wsmsg list" where
  "mail_texts (OnlyttyControl js) = [WsText js]"
| "mail_texts (AddPeer p) = []"
| "mail_texts (AddViewerPeer p v) = []"
| "mail_texts (DelPeer p) = []"
| "mail_texts (CloseMsg c r) = []"
| "mail_texts (OnlyttyBinary d) = []"
| "mail_texts (OnlyttyViewerBinary v d) = []"

definition coming :: "Net \<Rightarrow> pid \<Rightarrow> wsmsg list" where
  "coming n p = n_out n p @ concat (map mail_texts (n_mail n p))"

definition informed :: "Net \<Rightarrow> bool" where
  "informed n \<longleftrightarrow>
     (\<forall>s. n_sess n = Some s \<longrightarrow> int (ss_max_viewers s) < 2 ^ 63
        \<and> (\<forall>r k. ss_runner s = Some r \<longrightarrow> n_socks n r = Some (Live k) \<longrightarrow>
             last_told (coming n r) None = Some (int (length (ss_viewers s)))))"

lemma handle_in_texts: "concat (map mail_texts (mail_for q (se_send (handle_in jdec f k)))) = []"
proof -
  have "mail_texts m = []" if "(q, m) \<in> set (se_send (handle_in jdec f k))" for m
    using that
    by (auto simp: handle_in_def handle_in_binary_def handle_in_text_def send_to_viewer_def sock_crash_def Let_def
        split: wsmsg.splits role.splits option.splits json.splits if_splits)
  then show ?thesis by (auto simp: set_mail_for)
qed

lemma handle_in_push: "se_push (handle_in jdec f k) = []"
  by (auto simp: handle_in_def handle_in_binary_def handle_in_text_def sock_crash_def Let_def
      split: wsmsg.splits role.splits option.splits json.splits)

lemma handle_info_told:
  assumes "se_next (handle_info jenc c m k) = Goes k'"
  shows "last_told (se_push (handle_info jenc c m k)) acc = last_told (mail_texts m) acc"
  using assms
  by (cases m) (auto simp: handle_info_def sock_crash_def last_told_def told_def split: option.splits if_splits)

text \<open>The runner's texts are extended, and the count with them.\<close>

lemma informed_extend:
  assumes "informed n" "n_sess n = Some s" "n_sess n' = Some s'"
    "ss_max_viewers s' = ss_max_viewers s"
    "\<And>r. ss_runner s' = Some r \<Longrightarrow> ss_runner s = Some r \<and> n_socks n' r = n_socks n r \<and>
       (\<exists>ts. coming n' r = coming n r @ ts \<and>
          (length (ss_viewers s') = length (ss_viewers s) \<and> (\<forall>f\<in>set ts. told f = None)
           \<or> last_told ts (last_told (coming n r) None) = Some (int (length (ss_viewers s')))))"
  shows "informed n'"
  unfolding informed_def
proof (intro allI impI conjI)
  fix t assume t: "n_sess n' = Some t"
  then have [simp]: "t = s'" using assms(3) by simp
  show "int (ss_max_viewers t) < 2 ^ 63" using assms(1,2,4) by (simp add: informed_def)
  fix r k assume r: "ss_runner t = Some r" "n_socks n' r = Some (Live k)"
  obtain ts where ts: "ss_runner s = Some r" "n_socks n' r = n_socks n r" "coming n' r = coming n r @ ts"
    "length (ss_viewers s') = length (ss_viewers s) \<and> (\<forall>f\<in>set ts. told f = None)
     \<or> last_told ts (last_told (coming n r) None) = Some (int (length (ss_viewers s')))"
    using assms(5) r(1) by auto
  have "n_socks n r = Some (Live k)" using ts(2) r(2) by simp
  then have "last_told (coming n r) None = Some (int (length (ss_viewers s)))"
    using assms(1,2) ts(1) by (simp add: informed_def)
  then show "last_told (coming n' r) None = Some (int (length (ss_viewers t)))"
    using ts(3,4) last_told_none [of ts] by (auto simp: last_told_append)
qed

lemma informed_sock:
  assumes "informed n" "n_sess n' = n_sess n"
    "\<And>r k. n_socks n' r = Some (Live k) \<Longrightarrow> (\<exists>k. n_socks n r = Some (Live k)) \<and> last_told (coming n' r) None = last_told (coming n r) None"
  shows "informed n'"
  using assms unfolding informed_def by metis

subsection \<open>The session's counts\<close>

lemma coming_post [simp]: "coming (post ms n) p = coming n p @ concat (map mail_texts (mail_for p ms))"
  by (simp add: coming_def)

lemma coming_same [simp]:
  "coming (monitor_pid q n) = coming n" "coming (demonitor_flush ro n) = coming n"
  "coming (n\<lparr>n_sess := so\<rparr>) = coming n" "coming (n\<lparr>n_inbox := ib\<rparr>) = coming n"
  "coming (session_apply r n) p = coming n p @ concat (map mail_texts (mail_for p (fst r)))"
  by (simp_all add: coming_def fun_eq_iff)

lemma informed_apply:
  assumes "informed n" "n_sess n = Some s"
    "\<And>s'. snd res = Some s' \<Longrightarrow> ss_max_viewers s' = ss_max_viewers s
      \<and> (\<forall>r. ss_runner s' = Some r \<longrightarrow> ss_runner s = Some r \<and>
          (let ts = concat (map mail_texts (mail_for r (fst res))) in
             length (ss_viewers s') = length (ss_viewers s) \<and> (\<forall>f\<in>set ts. told f = None)
             \<or> (\<forall>acc. last_told ts acc = Some (int (length (ss_viewers s'))))))"
  shows "informed (session_apply res n)"
proof (cases "snd res")
  case None
  then show ?thesis by (simp add: informed_def)
next
  case (Some s')
  show ?thesis
    by (rule informed_extend [OF assms(1,2), of _ s']) (use assms(3) [OF Some] Some in \<open>auto simp: Let_def\<close>)
qed

lemma told_texts:
  assumes "jason_law jenc"
  shows "told (WsText (control_going_away jenc)) = None"
    "int c < 2 ^ 63 \<Longrightarrow> 0 < c \<Longrightarrow> told (WsText (control_peer jenc ''peer_join'' (viewer_id_of rnd) c)) = Some (int c)"
    "int c < 2 ^ 63 \<Longrightarrow> told (WsText (control_peer jenc ''peer_left'' (viewer_id_of rnd) c)) = Some (int c)"
    "int (hs_viewers snap) < 2 ^ 63 \<Longrightarrow> told (WsText (hello_text jenc Runner snap None)) = Some (int (hs_viewers snap))"
  using control_text.read_going_away control_text.read_peer control_text.read_hello assms
  by (simp_all add: told_def told_msg_def control_text.intro ascii_def [of "''peer_join''"] ascii_def [of "''peer_left''"]
      viewer_id_ascii)

lemma informed_idle:
  assumes "informed n" "n_sess n = Some s" "jason_law jenc"
  shows "informed (session_apply (serve_cast now c s) n)" "informed (session_apply (session_drain jenc s) n)"
    "informed (session_apply (ttl_expired s) n)" "informed (session_apply (idle_expired s) n)"
    "informed (session_apply (reap_unconnected s) n)"
proof -
  have "\<forall>f\<in>set (concat (map mail_texts (mail_for r (fst (session_drain jenc s))))). told f = None" for r
    using told_texts(1) [OF assms(3)]
    by (auto simp: session_drain_def to_runner_def to_viewers_def set_mail_for split: option.splits)
  then show "informed (session_apply (session_drain jenc s) n)"
    by (intro informed_apply [OF assms(1,2)]) (auto simp: session_drain_def Let_def)
  show "informed (session_apply (serve_cast now c s) n)"
    by (rule informed_apply [OF assms(1,2)])
      (auto simp: serve_cast_def runner_active_def session_close_def reset_idle_timer_def split: cast.splits)
  show "informed (session_apply (reap_unconnected s) n)"
    by (rule informed_apply [OF assms(1,2)]) (auto simp: reap_unconnected_def split: if_splits)
qed (simp_all add: informed_def ttl_expired_def idle_expired_def)

lemma informed_down:
  assumes "informed n" "n_sess n = Some s" "jason_law (w_jenc w)" "ok_sess w s" "length (ss_viewers s) \<le> viewer_cap s"
  shows "informed (session_apply (session_down (w_jenc w) now ref p s) n)"
proof (rule informed_apply [OF assms(1,2)])
  fix s' assume s': "snd (session_down (w_jenc w) now ref p s) = Some s'"
  have mx: "int (ss_max_viewers s) < 2 ^ 63" using assms(1,2) by (simp add: informed_def)
  let ?ts = "\<lambda>r. concat (map mail_texts (mail_for r (fst (session_down (w_jenc w) now ref p s))))"
  show "ss_max_viewers s' = ss_max_viewers s \<and> (\<forall>r. ss_runner s' = Some r \<longrightarrow> ss_runner s = Some r \<and>
      (let ts = ?ts r in length (ss_viewers s') = length (ss_viewers s) \<and> (\<forall>f\<in>set ts. told f = None)
        \<or> (\<forall>acc. last_told ts acc = Some (int (length (ss_viewers s'))))))"
  proof (cases "ss_runner_ref s \<noteq> Some ref \<and> (\<exists>i. map_of (ss_viewers s) p = Some i \<and> vi_ref i = ref)")
    case True
    then obtain i where i: "map_of (ss_viewers s) p = Some i" "vi_ref i = ref" by blast
    let ?vs = "AList.delete p (ss_viewers s)"
    have vi: "vi_id i = viewer_id_of (w_rnd w p)"
      using assms(4) map_of_SomeD [OF i(1)] by (auto simp: ok_sess_def vid_def)
    have "length ?vs \<le> length (ss_viewers s)" by (simp add: AList.delete_eq)
    then have "int (length ?vs) < 2 ^ 63" using assms(5) mx by (auto simp: viewer_cap_def split: if_splits)
    then have "told (WsText (control_peer (w_jenc w) ''peer_left'' (vi_id i) (length ?vs))) = Some (int (length ?vs))"
      unfolding vi by (rule told_texts(3) [OF assms(3)])
    then show ?thesis
      using s' True i by (auto simp: session_down_def viewer_down_def Let_def to_runner_def last_told_one)
  next
    case False
    then show ?thesis
      using s' by (auto simp: session_down_def runner_down_def viewer_down_def Let_def split: option.splits if_splits)
  qed
qed

text \<open>A socket whose join is being answered: nothing was sent to it before.\<close>

definition newcomer :: "Net \<Rightarrow> PSession \<Rightarrow> pid \<Rightarrow> bool" where
  "newcomer n s p \<longleftrightarrow> \<not> attached s p \<and> n_mail n p = [] \<and> n_out n p = []"

lemma newcomer_pop:
  assumes "known n" "n_sess n = Some s" "n_inbox n = m # rest" "p \<in> set (call_of m)"
  shows "newcomer (n\<lparr>n_inbox := rest\<rparr>) s p"
proof -
  have "\<not> joined n p" using assms(3,4) by (auto simp: joined_def)
  then show ?thesis using assms(1,2) unfolding newcomer_def known_def by auto
qed

lemma wiring_texts:
  assumes "(p, m) \<in> set (join_runner_wiring jenc p old s)" "p \<notin> fst ` set (ss_viewers s)"
  shows "mail_texts m = []"
proof -
  obtain v i where "(v, i) \<in> set (ss_viewers s)"
    "(p, m) \<in> set ((case old of Some o' \<Rightarrow> if o' \<noteq> p then [(v, DelPeer o')] else [] | None \<Rightarrow> [])
      @ [(v, AddPeer p), (p, AddViewerPeer v (vi_id i)),
         (v, OnlyttyControl (control_peer jenc ''peer_join'' (vi_id i) (length (ss_viewers s))))])"
    using assms(1) by (auto simp: join_runner_wiring_def)
  moreover from this(1) have "v \<noteq> p" using assms(2) by force
  ultimately show ?thesis by (auto split: option.splits if_splits)
qed

lemma informed_serve_runner:
  assumes "informed n" "n_sess n = Some s" "jason_law (w_jenc w)" "newcomer n s p" "length (ss_viewers s) \<le> viewer_cap s"
  shows "informed (serve_runner w now p s n)"
proof -
  obtain snap sends s' where j: "join_runner (w_jenc w) now p (n_refs n) s = (snap, sends, s')"
    by (cases "join_runner (w_jenc w) now p (n_refs n) s") auto
  have s': "ss_runner s' = Some p" "ss_viewers s' = ss_viewers s" "ss_max_viewers s' = ss_max_viewers s"
    "hs_viewers snap = length (ss_viewers s)"
    using j by (auto simp: join_runner_def Let_def reset_idle_timer_def hello_snapshot_of_def)
  have mx: "int (ss_max_viewers s) < 2 ^ 63" using assms(1,2) by (simp add: informed_def)
  then have c: "int (length (ss_viewers s)) < 2 ^ 63" using assms(5) by (auto simp: viewer_cap_def split: if_splits)
  have hello: "told (WsText (hello_text (w_jenc w) Runner snap None)) = Some (int (length (ss_viewers s)))"
    using told_texts(4) [OF assms(3), of snap] c by (simp add: s'(4))
  have "mail_texts m = []" if "(p, m) \<in> set sends" for m
    using that j assms(4) wiring_texts [of p m]
    by (auto simp: join_runner_def Let_def reset_idle_timer_def newcomer_def attached_def
        split: option.splits if_splits)
  then have quiet: "concat (map mail_texts (mail_for p sends)) = []" by (auto simp: set_mail_for)
  let ?ef = "init_runner (w_jenc w) (w_maxq w) snap"
  let ?n = "(post sends (monitor_pid p (demonitor_flush (ss_runner_ref s) n)))\<lparr>n_sess := Some s'\<rparr>"
  have "coming (sock_apply p ?ef ?n) p = [WsText (hello_text (w_jenc w) Runner snap None)]"
    using assms(4) quiet by (simp add: coming_def newcomer_def init_runner_def)
  then have "informed (sock_apply p ?ef ?n)"
    using hello mx by (simp add: informed_def s' last_told_one)
  moreover have "informed ?n" if "n_socks n p = None" using mx that by (simp add: informed_def s')
  ultimately show ?thesis by (simp add: serve_runner_def Let_def j)
qed

lemma coming_sock_apply:
  "r \<noteq> p \<Longrightarrow> coming (sock_apply p ef n) r = coming n r @ concat (map mail_texts (mail_for r (se_send ef)))"
  by (simp add: coming_def)

lemma init_viewer_send: "se_send (init_viewer jenc q reply) = []"
  by (simp add: init_viewer_def split: join_reply.split)

lemma informed_serve_viewer:
  assumes "informed n" "n_sess n = Some s" "jason_law (w_jenc w)" "newcomer n s p"
  shows "informed (serve_viewer w p s n)"
proof -
  obtain reply sends s' where j: "join_viewer (w_jenc w) p (n_refs n) (w_rnd w p) s = (reply, sends, s')"
    by (cases "join_viewer (w_jenc w) p (n_refs n) (w_rnd w p) s") auto
  have other: "r \<noteq> p" if "ss_runner s = Some r" for r using that assms(4) by (auto simp: newcomer_def attached_def)
  have mx: "int (ss_max_viewers s) < 2 ^ 63" using assms(1,2) by (simp add: informed_def)
  let ?ef = "init_viewer (w_jenc w) (w_maxq w) reply"
  let ?n1 = "if reply = Busy then n else (post sends (monitor_pid p n))\<lparr>n_sess := Some s'\<rparr>"
  have run: "ss_runner s' = ss_runner s" "ss_max_viewers s' = ss_max_viewers s" "reply = Busy \<Longrightarrow> s' = s"
    using j by (auto simp: join_viewer_def Let_def split: if_splits)
  have ts: "concat (map mail_texts (mail_for r sends)) = [WsText (control_peer (w_jenc w) ''peer_join'' (viewer_id_of (w_rnd w p)) (length (ss_viewers s')))]"
      "0 < length (ss_viewers s')" "length (ss_viewers s') \<le> viewer_cap s"
    if "reply \<noteq> Busy" "ss_runner s = Some r" for r
  proof -
    let ?vs = "AList.update p \<lparr>vi_ref = n_refs n, vi_id = viewer_id_of (w_rnd w p)\<rparr> (ss_viewers s)"
    have e: "s' = s\<lparr>ss_viewers := ?vs\<rparr>" "length (ss_viewers s) < viewer_cap s"
      "sends = [(r, AddViewerPeer p (viewer_id_of (w_rnd w p))), (p, AddPeer r),
         (r, OnlyttyControl (control_peer (w_jenc w) ''peer_join'' (viewer_id_of (w_rnd w p)) (length ?vs)))]"
      using that j by (auto simp: join_viewer_def Let_def split: if_splits)
    show "concat (map mail_texts (mail_for r sends)) = [WsText (control_peer (w_jenc w) ''peer_join'' (viewer_id_of (w_rnd w p)) (length (ss_viewers s')))]"
      using other [OF that(2)] by (simp add: e(1,3))
    show "length (ss_viewers s') \<le> viewer_cap s"
      using alist_update_length [of p "\<lparr>vi_ref = n_refs n, vi_id = viewer_id_of (w_rnd w p)\<rparr>" "ss_viewers s"] e(1,2)
      by simp
    have "?vs \<noteq> []" by (cases "ss_viewers s") auto
    then show "0 < length (ss_viewers s')" by (simp add: e(1))
  qed
  have told: "told (WsText (control_peer (w_jenc w) ''peer_join'' (viewer_id_of (w_rnd w p)) (length (ss_viewers s')))) = Some (int (length (ss_viewers s')))"
    if "reply \<noteq> Busy" "ss_runner s = Some r" for r
    using ts(2,3) [OF that] mx by (intro told_texts(2) [OF assms(3)]) (auto simp: viewer_cap_def split: if_splits)
  have "informed ?n1"
    by (rule informed_extend [OF assms(1,2), of _ s'])
      (use run assms(2) ts told in \<open>auto simp: last_told_one\<close>)
  moreover have "informed (sock_apply p ?ef ?n1)"
    by (rule informed_extend [OF assms(1,2), of _ s'])
      (use run assms(2) ts told other in \<open>auto simp: last_told_one coming_sock_apply init_viewer_send\<close>)
  ultimately show ?thesis by (simp add: serve_viewer_def Let_def j del: if_split)
qed

subsection \<open>The invariant\<close>

lemma informed_session_handle:
  assumes "informed n" "n_sess n = Some s" "n_inbox n = m # rest" "known n" "kept n" "routed w n" "jason_law (w_jenc w)"
  shows "informed (session_handle w now m s (n\<lparr>n_inbox := rest\<rparr>))"
proof -
  let ?n = "n\<lparr>n_inbox := rest\<rparr>"
  have i: "informed ?n" using assms(1) by (simp add: informed_def)
  have s: "n_sess ?n = Some s" "ok_sess w s" "length (ss_viewers s) \<le> viewer_cap s"
    using assms(2,5,6) by (simp_all add: kept_def routed_def sess_monitored_def)
  have new: "newcomer ?n s p" if "p \<in> set (call_of m)" for p
    using newcomer_pop [OF assms(4,2,3) that] .
  show ?thesis
  proof (cases m)
    case (CallRunner p)
    then show ?thesis
      using informed_serve_runner [OF i s(1) assms(7) new s(3)] by (simp add: session_handle_def)
  next
    case (CallViewer p)
    then show ?thesis
      using informed_serve_viewer [OF i s(1) assms(7) new] by (simp add: session_handle_def)
  next
    case (DownMsg ref p)
    then show ?thesis
      using informed_down [OF i s(1) assms(7) s(2,3)] by (simp add: session_handle_def)
  qed (use informed_idle [OF i s(1) assms(7)] in \<open>simp_all add: session_handle_def\<close>)
qed

lemma informed_step:
  "relay_step w n n' \<Longrightarrow> known n \<Longrightarrow> kept n \<Longrightarrow> routed w n \<Longrightarrow> jason_law (w_jenc w) \<Longrightarrow> informed n \<Longrightarrow> informed n'"
proof (induction rule: relay_step.induct)
  case (arrives n)
  show ?case by (rule informed_sock [OF arrives(6)]) (auto simp: accept_def Let_def coming_def split: if_splits)
next
  case (receives n p k f)
  have same: "coming (receive w p f k n) q = coming n q" for q
    by (simp add: receive_def coming_def handle_in_texts handle_in_push)
  have live: "n_socks (receive w p f k n) r = Some (Live k') \<Longrightarrow> \<exists>k. n_socks n r = Some (Live k)" for r k'
    using receives(1) by (auto simp: receive_def split: if_splits)
  show ?case
    by (rule informed_sock [OF receives(6)]) (use same live in \<open>auto simp: receive_def\<close>)
next
  case (takes n p k m rest)
  let ?ef = "handle_info (w_jenc w) (length rest) m k"
  have "last_told (coming (take_mail w p m rest k n) p) None = last_told (coming n p) None"
    if "se_next ?ef = Goes k'" for k'
    using handle_info_told [OF that] takes(2)
    by (simp add: take_mail_def coming_def last_told_append handle_info_send)
  moreover have "coming (take_mail w p m rest k n) q = coming n q" if "q \<noteq> p" for q
    using that by (simp add: take_mail_def coming_def handle_info_send)
  ultimately show ?case
    by (intro informed_sock [OF takes(7)])
      (use takes(1) in \<open>auto simp: take_mail_def split: sock_next.splits if_splits\<close>)
next
  case (leaves n p)
  show ?case by (rule informed_sock [OF leaves(6)]) (auto simp: coming_def split: if_splits)
next
  case (serves n s m rest now)
  then show ?case by (intro informed_session_handle)
next
  case (ticks n s m)
  then show ?case by (simp add: informed_def)
qed

lemma informed_reach:
  assumes "relay_reach w s n" "empty_session s" "int (ss_max_viewers s) < 2 ^ 63" "jason_law (w_jenc w)"
  shows "informed n"
  using assms
proof (induction rule: relay_reach.induct)
  case start
  then show ?case by (simp add: informed_def net_init_def empty_session_def)
next
  case (step n n')
  then show ?case using reach_ok [OF step.hyps(1)] informed_step by blast
qed

end
