(* ===== verification/Relay.thy ===== *)
theory Relay
  imports RelayView
begin

text \<open>
  The relay's properties: who is attached, what is delivered to whom, and what the runner knows. The
  schedules at the end run the system on concrete inputs.
\<close>

subsection \<open>Schedules\<close>

datatype act = Arrive | Serve int | Take pid | Recv pid wsmsg | Leave pid

definition relay_act :: "relay_env \<Rightarrow> act \<Rightarrow> Net \<Rightarrow> Net" where
  "relay_act w a n =
     (case a of
        Arrive \<Rightarrow> if n_sess n = None then n else accept w n
      | Serve now \<Rightarrow>
          (case (n_sess n, n_inbox n) of
             (Some s, m # rest) \<Rightarrow> session_handle w now m s (n\<lparr>n_inbox := rest\<rparr>)
           | _ \<Rightarrow> n)
      | Take p \<Rightarrow>
          (case (n_socks n p, n_mail n p) of
             (Some (Live k), m # rest) \<Rightarrow> take_mail w p m rest k n
           | _ \<Rightarrow> n)
      | Recv p f \<Rightarrow> (case n_socks n p of Some (Live k) \<Rightarrow> receive w p f k n | _ \<Rightarrow> n)
      | Leave p \<Rightarrow> if n_socks n p = None then n else die p n)"

definition relay_run :: "relay_env \<Rightarrow> PSession \<Rightarrow> act list \<Rightarrow> Net" where
  "relay_run w s acts = fold (relay_act w) acts (net_init s)"

lemma relay_act_step: "relay_act w a n = n \<or> relay_step w n (relay_act w a n)"
  by (auto simp: relay_act_def split: act.splits option.splits list.splits sock.splits intro: relay_step.intros)

lemma relay_run_reach: "relay_reach w s (relay_run w s acts)"
proof -
  have "relay_reach w s n \<Longrightarrow> relay_reach w s (fold (relay_act w) acts n)" for n
  proof (induction acts arbitrary: n)
    case (Cons a acts)
    have "relay_reach w s (relay_act w a n)"
      using relay_act_step [of w a n] Cons.prems by (auto intro: relay_reach.step)
    then show ?case using Cons.IH by simp
  qed simp
  then show ?thesis by (simp add: relay_run_def relay_reach.start)
qed

definition is_live :: "Net \<Rightarrow> pid \<Rightarrow> bool" where
  "is_live n p = (case n_socks n p of Some (Live k) \<Rightarrow> True | _ \<Rightarrow> False)"

lemma is_liveD: "is_live n p \<Longrightarrow> \<exists>k. n_socks n p = Some (Live k)"
  by (simp add: is_live_def split: option.splits sock.splits)

definition ex_relay_env :: "encoder \<Rightarrow> relay_env" where
  "ex_relay_env jenc = \<lparr>w_jenc = jenc, w_jdec = parse_json, w_maxq = 512, w_rnd = (\<lambda>p. replicate 9 (of_nat p)),
     w_role = (\<lambda>p. if p = 0 then Runner else Viewer)\<rparr>"

definition ex_sess :: PSession where
  "ex_sess = session_init 0 ''s'' ''t'' 0 600000 16 False"

lemma ex_sess_empty: "empty_session ex_sess" "int (ss_max_viewers ex_sess) < 2 ^ 63"
  by (simp_all add: ex_sess_def empty_session_init) (simp add: session_init_def Let_def)

subsection \<open>A viewer's frames\<close>

lemma viewer_id_nonempty: "9 \<le> length rnd \<Longrightarrow> viewer_id_of rnd \<noteq> []"
proof -
  assume "9 \<le> length rnd"
  then have "length (viewer_id_of rnd) = 12"
    using base64_rawurl_encode_shape by (simp add: viewer_id_of_def)
  then show ?thesis by auto
qed

text \<open>
  C12: A viewer cannot speak under another's id. Every binary frame the relay pushes to a runner is
  read by the runner's envelope decoder as the id the relay gave to some viewer's socket, with
  exactly the bytes that this viewer's client sent.
\<close>

theorem relay_labels_viewers:
  assumes "relay_reach w s n" "empty_session s" "\<And>q. 9 \<le> length (w_rnd w q)"
    and "w_role w p = Runner" "WsBinary b \<in> set (n_out n p)"
  shows "\<exists>q d. w_role w q = Viewer \<and> WsBinary d \<in> set (n_in n q)
    \<and> DecodeRelayViewerFrame b = Inr (viewer_id_of (w_rnd w q), d)"
proof -
  have "routed w n" using reach_ok [OF assms(1,2)] by simp
  then have "ok_out w (n_in n) p (WsBinary b)" using assms(5) by (auto simp: routed_def)
  then obtain v d where v: "from_viewer w (n_in n) v d" "b = relay_viewer_frame v d"
    using assms(4) by (auto simp: ok_out_def)
  then obtain q where q: "w_role w q = Viewer" "v = viewer_id_of (w_rnd w q)" "WsBinary d \<in> set (n_in n q)"
    by (auto simp: from_viewer_def vid_def)
  have l: "length v \<le> 255" using viewer_id_length [of "w_rnd w q"] by (simp add: q(2))
  have "v \<noteq> []" unfolding q(2) by (rule viewer_id_nonempty) (rule assms(3))
  with l have "DecodeRelayViewerFrame b = Inr (v, d)"
    using otv.dec_enc_short by (simp add: v(2) relay_viewer_frame_encode)
  then show ?thesis using q by blast
qed

definition ex_typing :: Net where
  "ex_typing = relay_run (ex_relay_env (\<lambda>_. [])) ex_sess
     [Arrive, Serve 0, Arrive, Serve 0, Take 1, Recv 1 (WsBinary [7]), Take 0, Take 0, Take 0]"

lemma ex_typing_out: "WsBinary (relay_viewer_frame (viewer_id_of (replicate 9 1)) [7]) \<in> set (n_out ex_typing 0)"
  by code_simp

theorem relay_labels_viewers_witness:
  "\<exists>q d. WsBinary d \<in> set (n_in ex_typing q)
    \<and> DecodeRelayViewerFrame (relay_viewer_frame (viewer_id_of (replicate 9 1)) [7])
      = Inr (viewer_id_of (replicate 9 (of_nat q)), d)"
proof -
  have "relay_reach (ex_relay_env (\<lambda>_. [])) ex_sess ex_typing"
    unfolding ex_typing_def by (rule relay_run_reach)
  from relay_labels_viewers [OF this ex_sess_empty(1) _ _ ex_typing_out] show ?thesis
    by (fastforce simp: ex_relay_env_def)
qed

subsection \<open>The runner's frames\<close>

text \<open>
  C13: Terminal output reaches only the viewers it is for. Every binary frame the relay pushes to a
  viewer came from a socket that was admitted as a runner, and either was sent to all viewers or was
  addressed to the id of this viewer.
\<close>

theorem relay_routes_output:
  assumes "relay_reach w s n" "empty_session s" "w_role w p = Viewer" "WsBinary b \<in> set (n_out n p)"
  shows "\<exists>r. w_role w r = Runner
    \<and> (WsBinary b \<in> set (n_in n r) \<or> (\<exists>t. WsText t \<in> set (n_in n r) \<and> addressed w t (viewer_id_of (w_rnd w p)) b))"
proof -
  have "routed w n" using reach_ok [OF assms(1,2)] by simp
  then have "ok_out w (n_in n) p (WsBinary b)" using assms(4) by (auto simp: routed_def)
  then show ?thesis using assms(3) by (auto simp: ok_out_def from_runner_def vid_def)
qed

definition ex_output :: Net where
  "ex_output = relay_run (ex_relay_env (\<lambda>_. [])) ex_sess
     [Arrive, Serve 0, Arrive, Serve 0, Take 0, Recv 0 (WsBinary [9]), Take 1, Take 1]"

lemma ex_output_out: "WsBinary [9] \<in> set (n_out ex_output 1)"
  by code_simp

theorem relay_routes_output_witness:
  "\<exists>r t. WsBinary [9] \<in> set (n_in ex_output r)
    \<or> WsText t \<in> set (n_in ex_output r) \<and> addressed (ex_relay_env (\<lambda>_. [])) t (viewer_id_of (replicate 9 1)) [9]"
proof -
  have "relay_reach (ex_relay_env (\<lambda>_. [])) ex_sess ex_output"
    unfolding ex_output_def by (rule relay_run_reach)
  from relay_routes_output [OF this ex_sess_empty(1) _ ex_output_out] show ?thesis
    by (fastforce simp: ex_relay_env_def)
qed

lemma parse_to_viewer:
  assumes "utf8_ok (str_bytes v)"
  shows "parse_json (to_viewer_body v fr) =
    Some (JObj [(''frame'', JStr (base64_std_encode fr)), (''t'', JStr ''to_viewer''), (''viewer_id'', JStr v)])"
proof -
  have "list_all (\<lambda>c. of_char c < (0x80 :: byte)) (CHR ''='' # base64_alphabet)" by (simp add: base64_alphabet_def)
  moreover have "set (base64_std_encode fr) \<subseteq> set (CHR ''='' # base64_alphabet)"
    using bit_groups_less [of _ 6 "bits_of fr"] base64_alphabet_facts(2) by (auto simp: base64_std_encode_def)
  ultimately have "fixed (base64_std_encode fr) = base64_std_encode fr"
    by (intro fixed_ascii) (auto simp: list_all_iff)
  then show ?thesis
    using assms by (simp add: to_viewer_body_def parse_marshal_entries fixed_ok fixed_ascii)
qed

text \<open>
  A frame the runner addresses to one viewer arrives as it was sealed. If the relay's JSON
  decoder reads the runner's \<^verbatim>\<open>to_viewer\<close> text as RFC 8259 has it, the relay hands the very bytes
  the runner sealed to the socket registered under that id and to nobody else, and to nobody at all
  if no socket has the id; the session and the runner's socket go on as before.
\<close>

theorem to_viewer_delivers:
  assumes "jdec (to_viewer_body v fr) = parse_json (to_viewer_body v fr)" "utf8_ok (str_bytes v)" "so_role k = Runner"
  shows "handle_in jdec (WsText (to_viewer_body v fr)) k =
    \<lparr>se_next = Goes k, se_push = [],
     se_send = (case so_viewer_peers k v of None \<Rightarrow> [] | Some p \<Rightarrow> [(p, OnlyttyBinary fr)]), se_cast = []\<rparr>"
  using assms(3)
  by (simp add: handle_in_def handle_in_text_def decode_control_def assms(1) parse_to_viewer [OF assms(2)]
      obj_get_def send_to_viewer_def base64_roundtrip sock_goes_def Let_def split: option.split)

theorem to_viewer_delivers_witness:
  "se_send (handle_in parse_json (WsText (to_viewer_body ''v1'' [1, 2, 3]))
     ((base_state Runner 512)\<lparr>so_viewer_peers := [''v1'' \<mapsto> 7]\<rparr>)) = [(7, OnlyttyBinary [1, 2, 3])]"
proof -
  have "utf8_ok (str_bytes ''v1'')" by (rule utf8_ok_ascii) (simp add: str_bytes_def)
  from to_viewer_delivers [of parse_json _ _ "(base_state Runner 512)\<lparr>so_viewer_peers := [''v1'' \<mapsto> 7]\<rparr>", OF refl this]
  show ?thesis by (simp add: base_state_def)
qed

subsection \<open>Who is attached\<close>

definition same_limits :: "PSession \<Rightarrow> PSession \<Rightarrow> bool" where
  "same_limits s s' \<longleftrightarrow>
     ss_id s' = ss_id s \<and> ss_runner_token s' = ss_runner_token s \<and> ss_expires_at s' = ss_expires_at s
     \<and> ss_locked s' = ss_locked s \<and> ss_max_viewers s' = ss_max_viewers s"

lemma same_limits_handle:
  assumes "same_limits s0 s" "n_sess n = Some s" "n_sess (session_handle w now m s n) = Some s'"
  shows "same_limits s0 s'"
  using assms
  by (cases m)
    (auto simp: session_handle_def serve_runner_def serve_viewer_def join_runner_def join_viewer_def serve_cast_def
      runner_active_def session_close_def session_drain_def ttl_expired_def idle_expired_def reap_unconnected_def
      session_down_def runner_down_def viewer_down_def reset_idle_timer_def same_limits_def Let_def
      split: if_splits option.splits cast.splits)

lemma same_limits_reach:
  assumes "relay_reach w s0 n" "n_sess n = Some s"
  shows "same_limits s0 s"
  using assms
proof (induction arbitrary: s rule: relay_reach.induct)
  case start
  then show ?case by (simp add: net_init_def same_limits_def)
next
  case (step n n')
  from step.hyps(2) step.IH step.prems show ?case
  proof cases
    case (serves t m rest now)
    then show ?thesis using same_limits_handle [of s0 t "n\<lparr>n_inbox := rest\<rparr>"] step.IH step.prems by simp
  qed (simp_all add: accept_def receive_def take_mail_def Let_def)
qed

text \<open>
  C24: The relay's viewer lock holds, and no slot is lost. At every moment the viewers attached to a
  session are different sockets, one at most in a locked session and no more than the configured
  number otherwise, whatever joins, drops and races happened before; and every attached socket is
  alive, or the notice of its death is waiting in the session's mailbox. While no runner is attached,
  and only then, the timer that reaps the session is armed.
\<close>

theorem viewers_capped:
  assumes "relay_reach w s0 n" "empty_session s0" "n_sess n = Some s"
  shows "length (ss_viewers s) \<le> (if ss_locked s0 then 1 else ss_max_viewers s0)
    \<and> distinct (map fst (ss_viewers s))
    \<and> (\<forall>v i. (v, i) \<in> set (ss_viewers s) \<longrightarrow> n_socks n v \<noteq> None \<or> DownMsg (vi_ref i) v \<in> set (n_inbox n))
    \<and> (\<forall>r. ss_runner s = Some r \<longrightarrow>
         (\<exists>ref. ss_runner_ref s = Some ref \<and> (n_socks n r \<noteq> None \<or> DownMsg ref r \<in> set (n_inbox n))))
    \<and> (ss_unconnected_timer s \<noteq> None \<longleftrightarrow> ss_runner s = None)"
proof (intro conjI allI impI)
  have k: "monitors_ok n" and m: "sess_monitored n s"
    using reach_ok [OF assms(1,2)] assms(3) by (simp_all add: kept_def)
  have gone: "n_socks n p \<noteq> None \<or> DownMsg ref p \<in> set (n_inbox n)" if "watched n ref p" for ref p
  proof -
    have "alarm n ref p" using that by (simp add: watched_def)
    then show ?thesis using k by (auto simp: alarm_def monitors_ok_def)
  qed
  have "viewer_cap s = (if ss_locked s0 then 1 else ss_max_viewers s0)"
    using same_limits_reach [OF assms(1,3)] by (simp add: same_limits_def viewer_cap_def)
  then show "length (ss_viewers s) \<le> (if ss_locked s0 then 1 else ss_max_viewers s0)"
    using m by (simp add: sess_monitored_def)
  show "distinct (map fst (ss_viewers s))" "ss_unconnected_timer s \<noteq> None \<longleftrightarrow> ss_runner s = None"
    using m by (simp_all add: sess_monitored_def)
  show "n_socks n v \<noteq> None \<or> DownMsg (vi_ref i) v \<in> set (n_inbox n)" if "(v, i) \<in> set (ss_viewers s)" for v i
    using gone sess_monitored_viewer [OF m that] by blast
  fix r assume r: "ss_runner s = Some r"
  then obtain ref where ref: "ss_runner_ref s = Some ref" using m unfolding sess_monitored_def by fastforce
  from gone [OF sess_monitored_runner [OF m r ref]] ref
  show "\<exists>ref. ss_runner_ref s = Some ref \<and> (n_socks n r \<noteq> None \<or> DownMsg ref r \<in> set (n_inbox n))" by blast
qed

theorem viewers_capped_witness:
  "\<exists>s. n_sess ex_output = Some s \<and> length (ss_viewers s) \<le> 16 \<and> distinct (map fst (ss_viewers s))"
proof -
  have r: "relay_reach (ex_relay_env (\<lambda>_. [])) ex_sess ex_output"
    unfolding ex_output_def by (rule relay_run_reach)
  have "n_sess ex_output \<noteq> None" by code_simp
  then obtain s where s: "n_sess ex_output = Some s" by blast
  from viewers_capped [OF r ex_sess_empty(1) s] s show ?thesis
    by (simp add: ex_sess_def session_init_def Let_def)
qed

text \<open>
  C23: A replaced runner and the sockets of an ended session are closed. Every live socket that has
  joined is the session's runner or one of its viewers, or has the order to close in its mailbox. So
  of all live runner sockets at most one is without that order, however many times runners replaced
  one another, and after the session has ended there is none.
\<close>

theorem sockets_attached_or_closing:
  assumes "relay_reach w s0 n" "empty_session s0" "n_socks n p = Some (Live k)" "\<And>c r. CloseMsg c r \<notin> set (n_mail n p)"
  shows "\<exists>s. n_sess n = Some s \<and> (if w_role w p = Runner then ss_runner s = Some p else p \<in> fst ` set (ss_viewers s))"
proof -
  have ok: "kept n" "routed w n" using reach_ok [OF assms(1,2)] by simp_all
  then obtain s where s: "n_sess n = Some s" "attached s p"
    using assms(3,4) by (auto simp: kept_def guarded_def closing_def)
  have "ok_sess w s" using ok(2) s(1) by (simp add: routed_def)
  with s(2) have "if w_role w p = Runner then ss_runner s = Some p else p \<in> fst ` set (ss_viewers s)"
    by (cases "w_role w p") (auto simp: attached_def ok_sess_def)
  with s(1) show ?thesis by blast
qed

definition ex_replaced :: Net where
  "ex_replaced = relay_run ((ex_relay_env (\<lambda>_. []))\<lparr>w_role := (\<lambda>_. Runner)\<rparr>) ex_sess [Arrive, Serve 0, Arrive, Serve 0]"

theorem sockets_attached_or_closing_witness:
  "n_mail ex_replaced 0 = [CloseMsg 4000 ''replaced''] \<and> n_mail ex_replaced 1 = []
   \<and> (\<exists>s. n_sess ex_replaced = Some s \<and> ss_runner s = Some 1)"
proof -
  have r: "relay_reach ((ex_relay_env (\<lambda>_. []))\<lparr>w_role := (\<lambda>_. Runner)\<rparr>) ex_sess ex_replaced"
    unfolding ex_replaced_def by (rule relay_run_reach)
  have m: "n_mail ex_replaced 0 = [CloseMsg 4000 ''replaced'']" "n_mail ex_replaced 1 = []"
    by code_simp+
  have "is_live ex_replaced 1" by code_simp
  then obtain k where "n_socks ex_replaced 1 = Some (Live k)" using is_liveD by blast
  from sockets_attached_or_closing [OF r ex_sess_empty(1) this] m show ?thesis
    by (simp add: ex_relay_env_def)
qed

subsection \<open>What the runner knows\<close>

text \<open>
  C25: The runner's viewer count is the relay's. When the runner attached to a session has everything
  that was sent to it - no control text waits in its socket's mailbox - then the runner's reader,
  fed with exactly the frames the relay pushed over this connection, from any state, ends with a
  viewer count equal to the number of viewers attached at the relay.
\<close>

theorem runner_counts_viewers:
  assumes "relay_reach w s0 n" "empty_session s0" "int (ss_max_viewers s0) < 2 ^ 63" "jason_law (w_jenc w)"
    and "n_sess n = Some s" "ss_runner s = Some r" "n_socks n r = Some (Live k)"
    and "\<And>js. OnlyttyControl js \<notin> set (n_mail n r)"
  shows "viewers (fold (reader_message e) (n_out n r) st) = of_nat (length (ss_viewers s))"
proof -
  have "mail_texts m = []" if "m \<in> set (n_mail n r)" for m
  proof -
    have "m \<noteq> OnlyttyControl js" for js using that assms(8) by metis
    then show ?thesis by (cases m) auto
  qed
  then have "coming n r = n_out n r" by (simp add: coming_def)
  moreover have "informed n" by (rule informed_reach [OF assms(1-4)])
  ultimately have "last_told (n_out n r) None = Some (int (length (ss_viewers s)))"
    using assms(5-7) by (simp add: informed_def)
  then show ?thesis by (simp add: viewers_read_all)
qed

definition ex_counted :: Net where
  "ex_counted = relay_run (ex_relay_env marshal_obj) ex_sess [Arrive, Serve 0, Arrive, Serve 0, Take 0, Take 0]"

lemmas relay_run_defs =
  relay_run_def relay_act_def net_init_def ex_relay_env_def ex_sess_def accept_def session_handle_def serve_runner_def
  serve_viewer_def join_runner_def join_viewer_def session_init_def init_runner_def init_viewer_def base_state_def
  hello_snapshot_of_def reset_idle_timer_def join_runner_wiring_def sock_apply_def sock_goes_def post_def mail_for_def
  monitor_pid_def demonitor_flush_def take_mail_def handle_info_def viewer_cap_def is_live_def Let_def

lemma ex_counted_facts:
  "is_live ex_counted 0" "n_mail ex_counted 0 = []"
  "map_option (\<lambda>s. (ss_runner s, length (ss_viewers s))) (n_sess ex_counted) = Some (Some 0, 1)"
  by (simp_all add: ex_counted_def relay_run_defs)

theorem runner_counts_viewers_witness:
  "\<forall>e st. viewers (fold (reader_message e) (n_out ex_counted 0) st) = 1"
proof (intro allI)
  fix e st
  have r: "relay_reach (ex_relay_env marshal_obj) ex_sess ex_counted"
    unfolding ex_counted_def by (rule relay_run_reach)
  obtain k where k: "n_socks ex_counted 0 = Some (Live k)" using is_liveD [OF ex_counted_facts(1)] by blast
  obtain s where s: "n_sess ex_counted = Some s" "ss_runner s = Some 0" "length (ss_viewers s) = 1"
    using ex_counted_facts(3) by (cases "n_sess ex_counted") auto
  have "jason_law (w_jenc (ex_relay_env marshal_obj))" by (simp add: ex_relay_env_def jason_law_marshal)
  from runner_counts_viewers [OF r ex_sess_empty this s(1,2) k, of e st] ex_counted_facts(2) s(3)
  show "viewers (fold (reader_message e) (n_out ex_counted 0) st) = 1" by simp
qed

end
