(* ===== verification/Viewing.thy ===== *)
theory Viewing
  imports Delivery Relay
begin

text \<open>
  What a viewer is shown: the OUTPUT payloads of the frames that the relay hands to it, in the order
  the runner wrote them. A viewer that joins is shown the terminal reset, the ring's snapshot and
  then every output message that waited in the queue - although the ring has the bytes of those
  messages already.
\<close>

text \<open>The frames of a WebSocket message that the relay delivers to the viewer with id \<open>v\<close>.\<close>

definition delivered :: "string \<Rightarrow> wsmsg \<Rightarrow> bytes list" where
  "delivered v f =
     (case f of
        WsBinary fr \<Rightarrow> [fr]
      | WsText t \<Rightarrow>
          map (\<lambda>(p, m). case m of OnlyttyBinary fr \<Rightarrow> fr | _ \<Rightarrow> [])
            (se_send (handle_in parse_json (WsText t) ((base_state Runner 512)\<lparr>so_viewer_peers := [v \<mapsto> 0]\<rparr>))))"

definition output_of :: "Cipher \<Rightarrow> bytes \<Rightarrow> bytes" where
  "output_of k fr = (case Open k fr of Inl _ \<Rightarrow> [] | Inr (seq, kind, p) \<Rightarrow> if kind = KindOutput then p else [])"

definition viewer_shown :: "Cipher \<Rightarrow> string \<Rightarrow> wsmsg list \<Rightarrow> bytes" where
  "viewer_shown k v fs = concat (map (output_of k) (concat (map (delivered v) fs)))"

definition output_for :: "string \<Rightarrow> outMsg \<Rightarrow> bytes" where
  "output_for v m = (if m_kind m = KindOutput \<and> (m_target m = [] \<or> m_target m = v) then m_payload m else [])"

lemma shown_append: "viewer_shown k v (xs @ ys) = viewer_shown k v xs @ viewer_shown k v ys"
  by (simp add: viewer_shown_def)

lemma delivered_target:
  "utf8_ok (str_bytes u) \<Longrightarrow> delivered v (WsText (to_viewer_body u fr)) = (if u = v then [fr] else [])"
  using to_viewer_delivers [of parse_json u fr "(base_state Runner 512)\<lparr>so_viewer_peers := [v \<mapsto> 0]\<rparr>"]
  by (simp add: delivered_def base_state_def)

lemma shown_framed:
  assumes "healthy e c" "cipher_ok k" "utf8_ok (str_bytes (m_target m))"
  shows "viewer_shown k v [framed e k seq m] = output_for v m"
proof (cases "m_target m = []")
  case True
  then obtain fr where "framed e k seq m = WsBinary fr" "Open k fr = Inr (seq, m_kind m, m_payload m)"
    using Open_framed [OF assms(1,2)] by blast
  with True show ?thesis by (simp add: viewer_shown_def delivered_def output_of_def output_for_def)
next
  case False
  then obtain fr where "framed e k seq m = WsText (to_viewer_body (m_target m) fr)"
    "Open k fr = Inr (seq, m_kind m, m_payload m)" using Open_framed_target [OF assms(1,2)] by blast
  with False assms(3) show ?thesis
    by (simp add: viewer_shown_def delivered_target output_of_def output_for_def)
qed

lemma shown_framed_run:
  assumes "healthy e c" "cipher_ok k" "\<forall>m\<in>set ms. utf8_ok (str_bytes (m_target m))"
  shows "viewer_shown k v (framed_run e k seq ms) = concat (map (output_for v) ms)"
  using assms(3)
proof (induction ms arbitrary: seq)
  case (Cons m ms)
  then show ?case
    using shown_framed [OF assms(1,2), of m v "seq + 1"] shown_append [of k v "[framed e k (seq + 1) m]"] by simp
qed (simp add: viewer_shown_def)

text \<open>The sender drains its queue.\<close>

lemma sender_drains:
  assumes "healthy e c" "conn_obj st = Some c" "\<not> dropped c" "send_q c = ms @ rest" "\<forall>m\<in>set ms. \<not> m_text m"
  shows "(sender_send e ^^ length ms) st =
    st\<lparr>outSeq := outSeq st + of_nat (length ms),
       conn_obj := Some (c\<lparr>send_q := rest, ws_out := ws_out c @ framed_run e (r2v st) (outSeq st) ms\<rparr>)\<rparr>"
  using assms
proof (induction ms arbitrary: st c)
  case (Cons m ms)
  let ?c = "c\<lparr>send_q := ms @ rest, ws_out := ws_out c @ [framed e (r2v st) (outSeq st + 1) m]\<rparr>"
  let ?st = "st\<lparr>outSeq := outSeq st + 1, conn_obj := Some ?c\<rparr>"
  have "sender_send e st = ?st"
    using Cons.prems writeMsg_healthy [of e "c\<lparr>send_q := ms @ rest\<rparr>" "st\<lparr>conn_obj := Some (c\<lparr>send_q := ms @ rest\<rparr>)\<rparr>" m]
    by (simp add: sender_send_def sender_after_def upd_conn_def Let_def)
  moreover have "(sender_send e ^^ length ms) ?st =
      ?st\<lparr>outSeq := outSeq ?st + of_nat (length ms),
         conn_obj := Some (?c\<lparr>send_q := rest, ws_out := ws_out ?c @ framed_run e (r2v ?st) (outSeq ?st) ms\<rparr>)\<rparr>"
    by (rule Cons.IH) (use Cons.prems in \<open>simp_all add: healthy_def\<close>)
  ultimately show ?case by (simp add: funpow_Suc_right add.assoc del: funpow.simps)
qed simp

lemma sender_join_healthy:
  assumes "conn_obj st = Some c" "join_q c = v # rest" "v \<noteq> []" "healthy e c"
  shows "\<exists>ms. map m_target ms = [v, v, v] \<and> concat (map (output_for v) ms) = [0x1B, 0x63] @ Snapshot (o_ring st)
    \<and> sender_join e st = st\<lparr>outSeq := outSeq st + 3,
        conn_obj := Some (c\<lparr>join_q := rest, ws_out := ws_out c @ framed_run e (r2v st) (outSeq st) ms\<rparr>)\<rparr>"
proof -
  let ?st = "upd_conn (\<lambda>c. c\<lparr>join_q := rest\<rparr>) st"
  have c: "conn_obj ?st = Some (c\<lparr>join_q := rest\<rparr>)" "healthy e (c\<lparr>join_q := rest\<rparr>)"
    using assms(1,4) by (simp_all add: upd_conn_def)
  have "sender_join e st = st\<lparr>outSeq := outSeq st + 3,
      conn_obj := Some (c\<lparr>join_q := rest, ws_out := ws_out c @ framed_run e (r2v st) (outSeq st) (repaintFrames ?st v)\<rparr>)\<rparr>"
    using write_frames_healthy [OF c(2,1), of "repaintFrames ?st v"] assms
    by (simp add: sender_join_def sender_after_def sendRepaint_def upd_conn_def repaintFrames_def split: prod.split)
  moreover have "map m_target (repaintFrames ?st v) = [v, v, v]"
    "concat (map (output_for v) (repaintFrames ?st v)) = [0x1B, 0x63] @ Snapshot (o_ring st)"
    using assms(1,3) by (simp_all add: repaintFrames_def output_for_def kind_defs upd_conn_def split: prod.split)
  ultimately show ?thesis by (intro exI [where x = "repaintFrames ?st v"] conjI)
qed

lemma join_then_drain_run:
  assumes "conn_obj st = Some c" "join_q c = v # rest" "v \<noteq> []" "healthy e c"
    and "\<not> dropped c" "\<forall>m\<in>set (send_q c). \<not> m_text m"
  shows "\<exists>c' ms. conn_obj ((sender_send e ^^ length (send_q c)) (sender_join e st)) = Some c' \<and> send_q c' = []
    \<and> map m_target ms = [v, v, v] \<and> concat (map (output_for v) ms) = [0x1B, 0x63] @ Snapshot (o_ring st)
    \<and> ws_out c' = ws_out c @ framed_run e (r2v st) (outSeq st) (ms @ send_q c)"
proof -
  obtain ms where ms: "map m_target ms = [v, v, v]" "concat (map (output_for v) ms) = [0x1B, 0x63] @ Snapshot (o_ring st)"
    "sender_join e st = st\<lparr>outSeq := outSeq st + 3,
       conn_obj := Some (c\<lparr>join_q := rest, ws_out := ws_out c @ framed_run e (r2v st) (outSeq st) ms\<rparr>)\<rparr>"
    using sender_join_healthy [OF assms(1-4)] by (elim exE conjE)
  let ?c = "c\<lparr>join_q := rest, ws_out := ws_out c @ framed_run e (r2v st) (outSeq st) ms\<rparr>"
  have run: "framed_run e k q (xs @ ys) = framed_run e k q xs @ framed_run e k (q + of_nat (length xs)) ys" for k q xs ys
    by (induction xs arbitrary: q) (simp_all add: add.assoc)
  have "length ms = 3" using ms(1) by (metis length_map length_Cons list.size(3) numeral_3_eq_3)
  moreover have "(sender_send e ^^ length (send_q c)) (sender_join e st) = sender_join e st
      \<lparr>outSeq := outSeq st + 3 + of_nat (length (send_q c)),
       conn_obj := Some (?c\<lparr>send_q := [], ws_out := ws_out ?c @ framed_run e (r2v st) (outSeq st + 3) (send_q c)\<rparr>)\<rparr>"
    using sender_drains [of e ?c "sender_join e st" "send_q c" "[]"] assms by (simp add: ms(3))
  ultimately show ?thesis using ms(1,2) by (intro exI [of _ "?c\<lparr>send_q := [], ws_out := ws_out ?c @ framed_run e (r2v st) (outSeq st + 3) (send_q c)\<rparr>"] exI [of _ ms]) (simp add: run)
qed

lemma join_then_drain:
  assumes "conn_obj st = Some c" "join_q c = v # rest" "v \<noteq> []" "utf8_ok (str_bytes v)" "healthy e c" "cipher_ok (r2v st)"
    and "\<not> dropped c" "\<And>m. m \<in> set (send_q c) \<Longrightarrow> \<not> m_text m \<and> utf8_ok (str_bytes (m_target m))"
  shows "\<exists>c'. conn_obj ((sender_send e ^^ length (send_q c)) (sender_join e st)) = Some c' \<and> send_q c' = []
    \<and> take (length (ws_out c)) (ws_out c') = ws_out c
    \<and> viewer_shown (r2v st) v (drop (length (ws_out c)) (ws_out c'))
      = [0x1B, 0x63] @ Snapshot (o_ring st) @ concat (map (output_for v) (send_q c))"
proof -
  have q: "\<forall>m\<in>set (send_q c). \<not> m_text m" using assms(8) by blast
  obtain c' ms where c': "conn_obj ((sender_send e ^^ length (send_q c)) (sender_join e st)) = Some c'" "send_q c' = []"
    "map m_target ms = [v, v, v]" "concat (map (output_for v) ms) = [0x1B, 0x63] @ Snapshot (o_ring st)"
    "ws_out c' = ws_out c @ framed_run e (r2v st) (outSeq st) (ms @ send_q c)"
    using join_then_drain_run [OF assms(1-3,5,7) q] by (elim exE conjE)
  have "m_target m = v" if "m \<in> set ms" for m using arg_cong [OF c'(3), of set] that by auto
  then have "\<forall>m\<in>set (ms @ send_q c). utf8_ok (str_bytes (m_target m))" using assms(4,8) by auto
  then show ?thesis using shown_framed_run [OF assms(5,6)] c' by simp
qed

text \<open>
  What a joining viewer is shown. When the sender serves a join and then works off what was in
  its queue, the new viewer is shown the terminal reset, the snapshot of the ring at the moment of
  the join, and then the output messages of the queue that are for it, in order, and nothing else.
  It is shown exactly the reset and the snapshot only if no output was waiting.
\<close>

theorem joined_viewer_shown:
  assumes "conn_obj st = Some c" "join_q c = v # rest" "v \<noteq> []" "utf8_ok (str_bytes v)" "healthy e c" "cipher_ok (r2v st)"
    and "\<not> dropped c" "\<And>m. m \<in> set (send_q c) \<Longrightarrow> \<not> m_text m \<and> utf8_ok (str_bytes (m_target m))"
  shows "\<exists>c'. conn_obj ((sender_send e ^^ length (send_q c)) (sender_join e st)) = Some c' \<and> send_q c' = []
    \<and> take (length (ws_out c)) (ws_out c') = ws_out c
    \<and> viewer_shown (r2v st) v (drop (length (ws_out c)) (ws_out c'))
      = [0x1B, 0x63] @ Snapshot (o_ring st) @ concat (map (output_for v) (send_q c))"
  by (rule join_then_drain [OF assms])

lemma ex_conn_up: "\<not> dropped ex_conn" "\<not> c_done ex_conn"
  by (simp_all add: ex_conn_def)

theorem joined_viewer_shown_witness:
  "\<exists>c'. conn_obj (sender_send ex_env (sender_join ex_env ((ex_up ControlAuto)\<lparr>conn_obj := Some (ex_conn\<lparr>join_q := [''r''],
        send_q := [\<lparr>m_kind = KindOutput, m_payload = [7], m_target = [], m_text = False\<rparr>]\<rparr>)\<rparr>))) = Some c'
    \<and> viewer_shown (ex_cipher 1) ''r'' (ws_out c') = [0x1B, 0x63, 7]"
proof -
  have u: "utf8_ok (str_bytes ''r'')" "utf8_ok (str_bytes [])"
    by (rule utf8_ok_ascii; simp add: str_bytes_def)+
  let ?c = "ex_conn\<lparr>join_q := [''r''], send_q := [\<lparr>m_kind = KindOutput, m_payload = [7], m_target = [], m_text = False\<rparr>]\<rparr>"
  from joined_viewer_shown [of "(ex_up ControlAuto)\<lparr>conn_obj := Some ?c\<rparr>" ?c "''r''" "[]" ex_env] u
  show ?thesis using ex_conn_up by (simp add: ex_up_fields ex_healthy output_for_def) blast
qed

lemma whole_snapshot: "valid_utf8 b \<Longrightarrow> Snapshot (r\<lparr>rbuf := b\<rparr>) = b"
  using dropWhile_cont_concat by (auto simp: Snapshot_def drop_snapshot_start valid_utf8_def)

lemma ex_up_more: "rbuf (o_ring (ex_up mode)) = []" "0 < rmax (o_ring (ex_up mode))" "published (ex_up mode)"
  by (simp_all add: ex_simps)

text \<open>
  C26: Output is shown twice. If the pump queues a chunk of output and the sender's \<^verbatim>\<open>select\<close> takes a
  pending join first, the joining viewer is shown the ring's snapshot, which already has the chunk,
  and then the chunk again from the queue.
\<close>

theorem repaint_repeats_output:
  assumes "conn_obj st = Some c" "join_q c = v # rest" "v \<noteq> []" "utf8_ok (str_bytes v)" "healthy e c" "cipher_ok (r2v st)"
    and "\<not> dropped c" "send_q c = []" "\<not> c_done c" "published st" "0 < sint (viewers st)"
    and "valid_utf8 (rbuf (o_ring st) @ chunk)" "length (rbuf (o_ring st) @ chunk) \<le> rmax (o_ring st)"
  shows "\<exists>c'. conn_obj (sender_send e (sender_join e (pump_chunk e chunk st))) = Some c'
    \<and> viewer_shown (r2v st) v (drop (length (ws_out c)) (ws_out c')) = [0x1B, 0x63] @ rbuf (o_ring st) @ chunk @ chunk"
proof -
  let ?m = "\<lparr>m_kind = KindOutput, m_payload = chunk, m_target = [], m_text = False\<rparr>"
  let ?st = "pump_chunk e chunk st"
  have c: "conn_obj ?st = Some (c\<lparr>send_q := [?m]\<rparr>)" "r2v ?st = r2v st"
      "o_ring ?st = fst (Write (o_ring st) chunk)"
    using assms(1,7-11) by (simp_all add: pump_chunk_def emit_def enqueue_def conn_offer_def sendQueue_def Let_def)
  have "Snapshot (o_ring ?st) = rbuf (o_ring st) @ chunk"
    using assms(12,13) whole_snapshot by (simp add: c(3) Write_def Let_def)
  moreover have "utf8_ok (str_bytes [])" by (simp add: str_bytes_def utf8_ok.simps)
  ultimately show ?thesis
    using join_then_drain [OF c(1), of v rest e] assms(2-7) by (simp add: c(2) output_for_def) blast
qed

theorem repaint_repeats_output_witness:
  "\<exists>c'. conn_obj (sender_send ex_env (sender_join ex_env (pump_chunk ex_env [7]
       ((ex_up ControlAuto)\<lparr>viewers := 1, conn_obj := Some (ex_conn\<lparr>join_q := [''r'']\<rparr>)\<rparr>)))) = Some c'
    \<and> viewer_shown (ex_cipher 1) ''r'' (ws_out c') = [0x1B, 0x63, 7, 7]"
proof -
  have u: "utf8_ok (str_bytes ''r'')" by (rule utf8_ok_ascii) (simp add: str_bytes_def)
  have v: "valid_utf8 [7]" by (simp add: valid_utf8_def) (rule exI [of _ "[[7]]"], simp)
  let ?c = "ex_conn\<lparr>join_q := [''r'']\<rparr>"
  from repaint_repeats_output [of "(ex_up ControlAuto)\<lparr>viewers := 1, conn_obj := Some ?c\<rparr>" ?c "''r''" "[]" ex_env "[7]"] u v
  show ?thesis using ex_conn_up by (simp add: ex_up_fields ex_healthy ex_up_more Suc_le_eq)
qed

end
