(* ===== verification/EndToEnd.thy ===== *)
theory EndToEnd
  imports BrowserSafe Cli Viewing
begin

text \<open>
  The runner, the relay and the page together: the page that is opened at the link has the runner's
  keys and fingerprint, its terminal shows the runner's output, what is typed on it reaches the
  command, and what happens when its seals finish out of order.
\<close>

subsection \<open>From the link to the keys\<close>

text \<open>The address of the page, from a parsed link.\<close>

definition page_at :: "URL \<Rightarrow> location" where
  "page_at u = \<lparr>l_pathname = js (u_path u), l_hash = js (''#'' @ u_fragment u)\<rparr>"

lemma unit_chars:
  "(of_char a :: 16 word) = 47 \<longleftrightarrow> a = CHR ''/''" "(of_char a :: 16 word) = 37 \<longleftrightarrow> a = CHR ''%''"
  "(of_char a :: 16 word) = 46 \<longleftrightarrow> a = CHR ''.''"
  using unit_char_inject [of a "CHR ''/''"] unit_char_inject [of a "CHR ''%''"] unit_char_inject [of a "CHR ''.''"] by simp_all

lemma js_split_plain:
  "CHR ''/'' \<notin> set s \<Longrightarrow> js_split (of_char (CHR ''/'')) (js s) = [js s]"
  by (induction s) (auto simp: js_def unit_chars)

lemma decode_uri_plain:
  "CHR ''%'' \<notin> set s \<Longrightarrow> decode_uri (length s) (js s) = Some (js s)"
  by (induction s) (auto simp: js_def unit_chars)

lemma base64url_plain: "set s \<subseteq> set base64url_alphabet \<Longrightarrow> list_all (\<lambda>c. c \<notin> set ''/%.'' \<and> (of_char c :: nat) < 128) s"
proof -
  have "list_all (\<lambda>c. c \<notin> set ''/%.'' \<and> (of_char c :: nat) < 128) base64url_alphabet" by code_simp
  then show "set s \<subseteq> set base64url_alphabet \<Longrightarrow> ?thesis" by (auto simp only: list_all_iff)
qed

lemma page_id_link:
  assumes "set sid \<subseteq> set base64url_alphabet" "sid \<noteq> []"
  shows "page_id (page_at (u\<lparr>u_path := ''/s/'' @ sid, u_fragment := f\<rparr>)) = Some (js sid)"
proof -
  have p: "CHR ''/'' \<notin> set sid" "CHR ''%'' \<notin> set sid"
    using base64url_plain [OF assms(1)] by (auto simp: list_all_iff)
  have "js_split (of_char (CHR ''/'')) (js (''/s/'' @ sid)) = [[], js ''s'', js sid]"
    using js_split_plain [OF p(1)] by (simp add: js_def)
  moreover have "js sid \<noteq> []" "js ''s'' \<noteq> []" using assms(2) by (simp_all add: js_def)
  ultimately show ?thesis
    using decode_uri_plain [OF p(2)] by (simp add: page_id_def page_at_def decodeURIComponent_def del: js_append)
qed

lemma page_frag_link:
  assumes "set f \<subseteq> set base64url_alphabet"
  shows "page_needPass (page_at (u\<lparr>u_fragment := f @ (if p then ''.p'' else [])\<rparr>)) = p"
    "page_frag (page_at (u\<lparr>u_fragment := f @ (if p then ''.p'' else [])\<rparr>)) = js f"
proof -
  have h: "drop 1 (l_hash (page_at (u\<lparr>u_fragment := g\<rparr>))) = js g" for g by (simp add: page_at_def js_def)
  have "last_n 2 (js f) \<noteq> js ''.p''"
  proof
    assume "last_n 2 (js f) = js ''.p''"
    then have "js f = take (length f - 2) (js f) @ js ''.p''"
      by (metis append_take_drop_id last_n_def length_js)
    then have "of_char (CHR ''.'') \<in> set (js f)" by (metis in_set_conv_decomp append.assoc js_append append_Cons append_Nil js_def list.simps(9))
    then have "CHR ''.'' \<in> set f" by (auto simp: js_def unit_chars)
    then show False using base64url_plain [OF assms] by (auto simp: list_all_iff)
  qed
  then show "page_needPass (page_at (u\<lparr>u_fragment := f @ (if p then ''.p'' else [])\<rparr>)) = p"
    by (simp only: page_needPass_def h) (simp add: last_n_def)
  then show "page_frag (page_at (u\<lparr>u_fragment := f @ (if p then ''.p'' else [])\<rparr>)) = js f"
    by (simp only: page_frag_def h Let_def) simp
qed

text \<open>Both programs print the fingerprint in the same groups of four.\<close>

lemma groups_of_dashes:
  assumes "0 < i" "i mod 4 = 0"
  shows "concat (map (\<lambda>x. d # x) (groups_of 4 xs))
    = concat (map (\<lambda>(j, b). (if 0 < j \<and> j mod 4 = 0 then [d] else []) @ [b]) (List.enumerate i xs))"
  using assms
proof (induction xs arbitrary: i rule: length_induct)
  case (1 xs)
  have m: "Suc i mod 4 = 1" "Suc (Suc i) mod 4 = 2" "Suc (Suc (Suc i)) mod 4 = 3" "Suc (Suc (Suc (Suc i))) mod 4 = 0"
    using 1(3) by presburger+
  show ?case
  proof (cases xs)
    case (Cons a as)
    then have "length (drop 4 xs) < length xs" by simp
    then have ih: "concat (map (\<lambda>x. d # x) (groups_of 4 (drop 4 xs)))
        = concat (map (\<lambda>(j, b). (if 0 < j \<and> j mod 4 = 0 then [d] else []) @ [b])
            (List.enumerate (Suc (Suc (Suc (Suc i)))) (drop 4 xs)))"
      by (rule 1(1) [rule_format]) (simp, rule m(4))
    have g: "concat (map (\<lambda>x. d # x) (groups_of 4 xs))
        = d # take 4 xs @ concat (map (\<lambda>x. d # x) (groups_of 4 (drop 4 xs)))"
      using groups_of.simps [of 4 xs] Cons by simp
    consider b c e rest where "as = b # c # e # rest" | b c where "as = [b, c]" | b where "as = [b]" | "as = []"
      by (metis remdups_adj.cases)
    then show ?thesis
      unfolding g ih using Cons 1(2,3) m by cases simp_all
  qed (simp add: groups_of.simps)
qed

lemma group_dashes:
  "(case groups_of 4 xs of [] \<Rightarrow> [] | g # gs \<Rightarrow> g @ concat (map (\<lambda>x. d # x) gs))
   = concat (map (\<lambda>(j, b). (if 0 < j \<and> j mod 4 = 0 then [d] else []) @ [b]) (List.enumerate 0 xs))"
proof -
  have g: "groups_of 4 (a # as) = take 4 (a # as) # groups_of 4 (drop 4 (a # as))" "groups_of 4 [] = []"
    for a and as :: "'a list"
    by (simp_all add: groups_of.simps)
  consider a b c e rest where "xs = a # b # c # e # rest" | a b c where "xs = [a, b, c]" | a b where "xs = [a, b]"
    | a where "xs = [a]" | "xs = []"
    by (metis remdups_adj.cases)
  then show ?thesis
    using groups_of_dashes [of "Suc (Suc (Suc (Suc 0)))" d "drop 4 xs"] by cases (simp_all add: g)
qed

lemma dashes_map:
  "concat (map (\<lambda>(j, b). (if P j then [f d] else []) @ [b]) (List.enumerate i (map f xs)))
   = map f (concat (map (\<lambda>(j, b). (if P j then [d] else []) @ [b]) (List.enumerate i xs)))"
  by (induction xs arbitrary: i) simp_all

lemma groupFingerprint_go:
  assumes "set f \<subseteq> set base32_alphabet"
  shows "groupFingerprint (js f) = js (formatFingerprint f)"
proof -
  let ?g = "concat (map (\<lambda>(j, b). (if 0 < j \<and> j mod 4 = 0 then [CHR ''-''] else []) @ [b]) (List.enumerate 0 f))"
  have "list_all (\<lambda>c. (of_char c :: byte) < 0x80) base32_alphabet" by code_simp
  then have "list_all (\<lambda>b. b < 0x80) (str_bytes f)" using assms by (auto simp: list_all_iff str_bytes_def)
  then have "fingerprint_loop (length f) 0 (str_bytes f) = str_bytes ?g"
    by (subst fingerprint_loop_ascii) (assumption, simp, simp only: str_bytes_def dashes_map [where f = of_char])
  then have "formatFingerprint f = ?g" by (simp only: formatFingerprint_def bytes_str_bytes)
  moreover have "groupFingerprint (js f) = js ?g"
    by (simp only: groupFingerprint_def js_def group_dashes dashes_map [where f = of_char])
  ultimately show ?thesis by simp
qed

text \<open>
  C5: The link is all the page needs. A browser that opens the link of a session takes the session
  id from its path, and asks for a passphrase exactly when the runner was given one. With the same
  passphrase - a text whose UTF-8 is the runner's bytes - it derives the runner's keys: its opening
  cipher is the one the runner seals with, its sealing cipher the one the runner opens with, and it
  shows the fingerprint the runner printed. Then it dials the relay.
\<close>

theorem link_gives_keys:
  assumes "plain_url (base c)" "set sid \<subseteq> set base64url_alphabet" "sid \<noteq> []" "length secret = SecretLen"
    and "TextEncode pw = str_bytes passphrase"
    and "url_parse (ViewerURL c sid (base64_rawurl_encode secret) (passphrase \<noteq> [])) = Some u"
  shows "\<exists>st keys oc sc. page_init (page_at u) = Some st \<and> b_id st = js sid \<and> b_needPass st = (passphrase \<noteq> [])
    \<and> DeriveKeys secret sid passphrase = Inr keys
    \<and> NewCipher (R2V keys) (str_bytes sid) = Inr (go_cipher oc) \<and> NewCipher (V2R keys) (str_bytes sid) = Inr (go_cipher sc)
    \<and> (let st' = (if passphrase = [] then boot e st else enter_passphrase e pw (boot e0 st))
       in b_open st' = Some oc \<and> b_seal st' = Some sc \<and> b_fp st' = js (formatFingerprint (Fingerprint keys))
         \<and> b_ws st' = Some 0 \<and> b_ready st' 0 = Connecting)"
proof -
  let ?f = "base64_rawurl_encode secret" and ?p = "passphrase \<noteq> []"
  have alpha: "set ?f \<subseteq> set base64url_alphabet" using base64_rawurl_encode_shape by simp
  have u: "u = (base c)\<lparr>u_path := ''/s/'' @ sid, u_fragment := ?f @ (if ?p then ''.p'' else [])\<rparr>"
    using assms(6) link_opens_session [OF assms(1)] by simp
  have id: "page_id (page_at u) = Some (js sid)" unfolding u by (rule page_id_link [OF assms(2,3)])
  have fr: "page_needPass (page_at u) = ?p" "page_frag (page_at u) = js ?f"
    unfolding u by (rule page_frag_link [OF alpha])+
  have sid8: "TextEncode (js sid) = str_bytes sid"
    using base64url_plain [OF assms(2)] by (intro TextEncode_ascii) (simp add: list_all_iff)
  obtain keys where k: "DeriveKeys secret sid passphrase = Inr keys"
      "jsDeriveKeys secret (js sid) pw = Some \<lparr>js_r2v = R2V keys, js_v2r = V2R keys, js_fingerprint = js (Fingerprint keys)\<rparr>"
    using jsDeriveKeys_go [OF assms(4) sid8 assms(5)] by blast
  have l: "length (R2V keys) = 32" "length (V2R keys) = 32" "set (Fingerprint keys) \<subseteq> set base32_alphabet"
    using DeriveKeys_ok [OF assms(4), of sid passphrase] k(1) by (metis sum.inject(2))+
  obtain oc where oc: "jsNewCipher (R2V keys) (str_bytes sid) = Some oc" using l by (simp add: jsNewCipher_def aes_NewCipher_def)
  obtain sc where sc: "jsNewCipher (V2R keys) (str_bytes sid) = Some sc" using l by (simp add: jsNewCipher_def aes_NewCipher_def)
  have go: "NewCipher (R2V keys) (str_bytes sid) = Inr (go_cipher oc)" "NewCipher (V2R keys) (str_bytes sid) = Inr (go_cipher sc)"
    using jsNewCipher_go oc sc by blast+
  have e: "pw = [] \<longleftrightarrow> passphrase = []" using TextEncode_eq_Nil [of pw] assms(5) by (simp add: str_bytes_def)
  let ?st = "fresh_page (js sid) (js ?f) ?p"
  let ?key = "\<lambda>st'. b_open st' = Some oc \<and> b_seal st' = Some sc \<and> b_fp st' = js (formatFingerprint (Fingerprint keys))
         \<and> b_ws st' = Some 0 \<and> b_ready st' 0 = Connecting"
  have "js sid \<noteq> []" using assms(3) by (simp add: js_def)
  then have "?key (start e' pw (?st\<lparr>b_overlay := ov\<rparr>))" for e' ov
    using oc sc k(2) assms(4)
    by (simp add: fresh_page_def start_def connect_def b64url_roundtrip SecretLen_def sid8 groupFingerprint_go [OF l(3)] Let_def)
  note key = this
  have np: "b_needPass ?st = ?p" by (simp add: fresh_page_def)
  have "?key (if passphrase = [] then boot e ?st else enter_passphrase e pw (boot e0 ?st))"
  proof (cases "passphrase = []")
    case True
    then have eq: "boot e ?st = start e pw (?st\<lparr>b_overlay := b_overlay ?st\<rparr>)" using e np by (simp add: boot_def)
    show ?thesis unfolding if_P [OF True] eq by (rule key)
  next
    case False
    then have eq: "enter_passphrase e pw (boot e0 ?st) = start e pw (?st\<lparr>b_overlay := None\<rparr>)"
      using e np by (simp add: boot_def enter_passphrase_def)
    show ?thesis unfolding if_not_P [OF False] eq by (rule key)
  qed
  moreover have "page_init (page_at u) = Some ?st" "b_id ?st = js sid" "b_needPass ?st = ?p"
    by (simp_all add: page_init_def id fr) (simp_all add: fresh_page_def)
  ultimately show ?thesis using k(1) go unfolding Let_def by blast
qed

theorem link_gives_keys_witness:
  "\<exists>u st keys oc. url_parse (ViewerURL ex_relay ''id'' (base64_rawurl_encode (replicate 32 7)) True) = Some u
     \<and> page_init (page_at u) = Some st \<and> DeriveKeys (replicate 32 7) ''id'' ''pw'' = Inr keys
     \<and> NewCipher (R2V keys) (str_bytes ''id'') = Inr (go_cipher oc)
     \<and> b_open (enter_passphrase ex_benv (js ''pw'') (boot ex_benv st)) = Some oc"
proof -
  obtain u where u: "url_parse (ViewerURL ex_relay ''id'' (base64_rawurl_encode (replicate 32 7)) True) = Some u"
    using link_opens_session [OF plain_ex_relay] by blast
  have "TextEncode (js ''pw'') = str_bytes ''pw''" by (rule TextEncode_ascii) simp
  with link_gives_keys [OF plain_ex_relay, of "''id''" "replicate 32 7" "js ''pw''" "''pw''" u ex_benv ex_benv] u
  show ?thesis by (simp add: base64url_alphabet_def SecretLen_def Let_def) blast
qed

subsection \<open>The page shows the terminal\<close>

text \<open>Frames arrive on socket \<open>w\<close> one after the other, each handled before the next.\<close>

definition page_reads :: "benv \<Rightarrow> nat \<Rightarrow> bytes list \<Rightarrow> Browser \<Rightarrow> Browser" where
  "page_reads e w frs pg = fold (\<lambda>fr st. process e w (ws_onmessage w (WsBinary fr) st)) frs pg"

text \<open>The bytes of the runner on the page's terminal.\<close>

definition page_shown :: "Browser \<Rightarrow> bytes" where
  "page_shown pg = concat (map (\<lambda>t. case t of TermBytes b \<Rightarrow> b | _ \<Rightarrow> []) (b_term pg))"

lemma queue_kept [simp]:
  "b_queue (js_send e k p st) = b_queue st" "b_queue (applySize e st) = b_queue st"
  "b_queue (clearControlPending st) = b_queue st" "b_queue (fst (b_dispatch e k p st)) = b_queue st"
proof -
  show s: "b_queue (js_send e k p st) = b_queue st" for k p st by (simp add: js_send_def Let_def split: option.split)
  show a: "b_queue (applySize e st) = b_queue st" for st by (simp add: applySize_def sendResize_def s)
  show c: "b_queue (clearControlPending st) = b_queue st" for st by (simp add: clearControlPending_def)
  show "b_queue (fst (b_dispatch e k p st)) = b_queue st" by (simp add: b_dispatch_def a c Let_def split: option.split)
qed

lemma shown_dispatch: "page_shown (fst (b_dispatch e k p st)) = page_shown st @ (if k = KindOutput then p else [])"
  using js_kinds_distinct js_kinds(2) by (auto simp: b_dispatch_def page_shown_def Let_def split: option.split)

lemma page_reads_one:
  assumes "b_open st = Some c" "b_queue st w = []" "Open (go_cipher c) fr = Inr (seq, kind, p)"
    and "b_lastSeq st < uint seq" "uint seq < 2 ^ 53"
  shows "b_open (page_reads e w [fr] st) = Some c" "b_queue (page_reads e w [fr] st) w = []"
    "b_lastSeq (page_reads e w [fr] st) = uint seq"
    "page_shown (page_reads e w [fr] st) = page_shown st @ (if kind = KindOutput then p else [])"
proof -
  have n: "num (uint seq) = uint seq" using assms(5) by (intro num_exact) simp
  have sh: "page_shown (st\<lparr>b_status := x\<rparr>) = page_shown st" for st x by (simp add: page_shown_def)
  let ?m = "st\<lparr>b_everConnected := True, b_failCount := 0, b_queue := (b_queue st)(w := []), b_everDecoded := True,
    b_busyRetries := 0, b_mismatchTimer := None, b_lastSeq := uint seq\<rparr>"
  have "page_reads e w [fr] st \<in> {fst (b_dispatch e kind p ?m), (fst (b_dispatch e kind p ?m))\<lparr>b_status := StFrameFailed\<rparr>}"
    using assms n by (simp add: page_reads_def process_def ws_onmessage_def onMessage_def jsOpen_go b_accept_def
        case_prod_unfold Let_def)
  moreover have "page_shown ?m = page_shown st" by (simp add: page_shown_def)
  ultimately show "b_open (page_reads e w [fr] st) = Some c" "b_queue (page_reads e w [fr] st) w = []"
    "b_lastSeq (page_reads e w [fr] st) = uint seq"
    "page_shown (page_reads e w [fr] st) = page_shown st @ (if kind = KindOutput then p else [])"
    using assms(1) by (auto simp: shown_dispatch sh)
qed

lemma page_reads_append: "page_reads e w (xs @ ys) st = page_reads e w ys (page_reads e w xs st)"
  by (simp add: page_reads_def)

lemma page_reads_run:
  assumes "healthy e c" "\<forall>m\<in>set ms. utf8_ok (str_bytes (m_target m))"
    and "b_open pg = Some k" "b_queue pg w = []" "b_lastSeq pg \<le> uint seq" "uint seq + int (length ms) < 2 ^ 53"
  shows "page_shown (page_reads e' w (concat (map (delivered v) (framed_run e (go_cipher k) seq ms))) pg)
    = page_shown pg @ concat (map (output_for v) ms)"
  using assms(2-)
proof (induction ms arbitrary: pg seq)
  case (Cons m ms)
  let ?pg = "page_reads e' w (delivered v (framed e (go_cipher k) (seq + 1) m)) pg"
  have s: "uint (seq + 1) = uint seq + 1"
    using Cons.prems(5) uint_ge_0 [of seq] by (simp add: uint_word_ariths)
  have "b_open ?pg = Some k \<and> b_queue ?pg w = [] \<and> b_lastSeq ?pg \<le> uint (seq + 1)
      \<and> page_shown ?pg = page_shown pg @ output_for v m"
  proof (cases "m_target m = [] \<or> m_target m = v")
    case True
    then obtain fr where fr: "delivered v (framed e (go_cipher k) (seq + 1) m) = [fr]"
        "Open (go_cipher k) fr = Inr (seq + 1, m_kind m, m_payload m)"
    proof (cases "m_target m = []")
      case True
      with Open_framed [OF assms(1) go_cipher_ok, of m] that show thesis by (force simp: delivered_def)
    next
      case False
      with True Open_framed_target [OF assms(1) go_cipher_ok, of m] Cons.prems(1) that show thesis
        by (force simp: delivered_target)
    qed
    have "b_lastSeq pg < uint (seq + 1)" "uint (seq + 1) < 2 ^ 53" using Cons.prems(4,5) s by simp_all
    with page_reads_one [OF Cons.prems(2,3) fr(2)] True show ?thesis by (simp add: fr(1) output_for_def)
  next
    case False
    then obtain fr where "framed e (go_cipher k) (seq + 1) m = WsText (to_viewer_body (m_target m) fr)"
      using Open_framed_target [OF assms(1) go_cipher_ok, of m] by blast
    then have "delivered v (framed e (go_cipher k) (seq + 1) m) = []"
      using False Cons.prems(1) by (simp add: delivered_target)
    with False Cons.prems s show ?thesis by (auto simp: page_reads_def output_for_def)
  qed
  with Cons.IH [of ?pg "seq + 1"] Cons.prems s show ?case by (simp add: page_reads_append)
qed (simp add: page_reads_def)

text \<open>
  C4: The page shows what the host sees. When the runner serves a viewer's join and then works off
  its queue, and the page of that viewer, which has the runner's keys and is not ahead of its counter,
  handles what the relay delivers to it, the page writes to its terminal the reset, the snapshot of the
  ring at the moment of the join and then the queued output for it, in order, and nothing else. The
  counter has to stay below \<open>2 ^ 53\<close>, up to which a JavaScript number is exact.
\<close>

theorem browser_shows_terminal:
  assumes "conn_obj st = Some c" "join_q c = v # rest" "v \<noteq> []" "utf8_ok (str_bytes v)" "healthy e c" "\<not> dropped c"
    and "\<And>m. m \<in> set (send_q c) \<Longrightarrow> \<not> m_text m \<and> utf8_ok (str_bytes (m_target m))"
    and "b_open pg = Some k" "r2v st = go_cipher k" "b_queue pg w = []" "b_lastSeq pg \<le> uint (outSeq st)"
    and "uint (outSeq st) + 3 + int (length (send_q c)) < 2 ^ 53"
  shows "\<exists>c'. conn_obj ((sender_send e ^^ length (send_q c)) (sender_join e st)) = Some c' \<and> send_q c' = []
    \<and> page_shown (page_reads e' w (concat (map (delivered v) (drop (length (ws_out c)) (ws_out c')))) pg)
      = page_shown pg @ [0x1B, 0x63] @ Snapshot (o_ring st) @ concat (map (output_for v) (send_q c))"
proof -
  have q: "\<forall>m\<in>set (send_q c). \<not> m_text m" using assms(7) by blast
  obtain c' ms where c': "conn_obj ((sender_send e ^^ length (send_q c)) (sender_join e st)) = Some c'" "send_q c' = []"
    "map m_target ms = [v, v, v]" "concat (map (output_for v) ms) = [0x1B, 0x63] @ Snapshot (o_ring st)"
    "ws_out c' = ws_out c @ framed_run e (go_cipher k) (outSeq st) (ms @ send_q c)"
    using join_then_drain_run [OF assms(1-3,5,6) q] unfolding assms(9) by (elim exE conjE) rule
  have "length ms = 3" using c'(3) by (metis length_map length_Cons list.size(3) numeral_3_eq_3)
  moreover have "\<forall>m\<in>set (ms @ send_q c). utf8_ok (str_bytes (m_target m))"
  proof -
    have "m_target ` set ms = {v}" using arg_cong [OF c'(3), of set] by simp
    then have "m_target m = v" if "m \<in> set ms" for m using that by blast
    with assms(4,7) show ?thesis by auto
  qed
  ultimately show ?thesis
    using page_reads_run [OF assms(5) _ assms(8,10,11), of "ms @ send_q c" e' v] c' assms(12) by simp
qed

theorem browser_shows_terminal_witness:
  "\<exists>c'. conn_obj (sender_send ex_env (sender_join ex_env ((ex_up ControlAuto)\<lparr>conn_obj := Some (ex_conn\<lparr>join_q := [''r''],
        send_q := [\<lparr>m_kind = KindOutput, m_payload = [7], m_target = [], m_text = False\<rparr>]\<rparr>)\<rparr>))) = Some c'
    \<and> page_shown (page_reads ex_benv 0 (concat (map (delivered ''r'') (ws_out c'))) ex_page) = [0x1B, 0x63, 7]"
proof -
  have u: "utf8_ok (str_bytes ''r'')" "utf8_ok (str_bytes [])"
    by (rule utf8_ok_ascii; simp add: str_bytes_def)+
  have k: "ex_cipher 1 = go_cipher (ex_js 1)" by (simp add: ex_cipher_def go_cipher_def ex_js_def)
  have p: "b_queue ex_page 0 = []" "page_shown ex_page = []"
    by (simp_all add: ex_page_def fresh_page_def page_shown_def)
  let ?c = "ex_conn\<lparr>join_q := [''r''], send_q := [\<lparr>m_kind = KindOutput, m_payload = [7], m_target = [], m_text = False\<rparr>]\<rparr>"
  from browser_shows_terminal [of "(ex_up ControlAuto)\<lparr>conn_obj := Some ?c\<rparr>" ?c "''r''" "[]" ex_env ex_page "ex_js 1" 0 ex_benv] u k p
  show ?thesis using ex_conn_up by (simp add: ex_up_fields ex_healthy output_for_def) blast
qed

end
