(* ===== verification/Typing.thy ===== *)
theory Typing
  imports EndToEnd
begin

text \<open>What is typed on the page and how it reaches the command.\<close>

subsection \<open>From the keyboard to the command\<close>

definition page_run :: "(benv \<times> b_event) list \<Rightarrow> Browser \<Rightarrow> Browser" where
  "page_run evs pg = fold (\<lambda>(e, ev). b_handle e ev) evs pg"

text \<open>What the page handed to its sockets since \<open>pg\<close>, and the runner reading it from the relay under the label \<open>r\<close>.\<close>

definition page_sent :: "Browser \<Rightarrow> Browser \<Rightarrow> bytes list" where
  "page_sent pg pg' = map snd (drop (length (b_sent pg)) (b_sent pg'))"

definition runner_reads :: "env \<Rightarrow> string \<Rightarrow> bytes list \<Rightarrow> Orch \<Rightarrow> Orch" where
  "runner_reads e r frs st = fold (\<lambda>fr. handleBinary e (EncodeRelayViewerFrame r fr)) frs st"

text \<open>The page's socket \<open>w\<close> is open, it seals with \<open>k\<close> and its viewer id is \<open>v\<close>.\<close>

definition page_live :: "nat \<Rightarrow> JsCipher \<Rightarrow> string \<Rightarrow> Browser \<Rightarrow> bool" where
  "page_live w k v pg \<longleftrightarrow>
     b_ws pg = Some w \<and> b_ready pg w = Opened \<and> b_seal pg = Some k \<and> b_viewerId pg = js v \<and> \<not> b_ended pg
     \<and> v \<noteq> [] \<and> length v \<le> 255 \<and> list_all (\<lambda>c. (of_char c :: nat) < 128) v"

definition page_frame :: "benv \<Rightarrow> JsCipher \<Rightarrow> string \<Rightarrow> int \<Rightarrow> byte \<Rightarrow> bytes \<Rightarrow> bytes" where
  "page_frame e k v s kind p = viewer_sealed (go_cipher k) (be_nonce e) v (word_of_int s) kind p"

lemma js_send_live:
  assumes "page_live w k v pg" "0 \<le> b_outSeq pg" "b_outSeq pg + 1 < 2 ^ 53"
  shows "js_send e kind p pg = pg\<lparr>b_outSeq := b_outSeq pg + 1,
    b_sealing := b_sealing pg @ [(w, page_frame e k v (b_outSeq pg + 1) kind p)]\<rparr>"
proof -
  have "num (b_outSeq pg + 1) = b_outSeq pg + 1" using assms(2,3) by (intro num_exact) simp
  then show ?thesis
    using assms(1) by (simp add: js_send_def page_live_def encodeViewerPayload_go page_frame_def viewer_sealed_def jsSeal_go Let_def)
qed

lemma runner_reads_one:
  assumes "v2r st = go_cipher k" "length (be_nonce e) = 12" "r \<noteq> []" "length r \<le> 255" "v \<noteq> []" "length v \<le> 255"
    and "uint (floor_of st v) < s" "s < 2 ^ 53"
  shows "runner_reads re r [page_frame e k v s kind p] st = dispatch re r v kind p (accepted r v (word_of_int s) st)"
    and "uint (floor_of (runner_reads re r [page_frame e k v s kind p] st) v) = s"
    and "v2r (runner_reads re r [page_frame e k v s kind p] st) = go_cipher k"
proof -
  have "0 \<le> s" using uint_ge_0 [of "floor_of st v"] assms(7) by linarith
  then have u: "uint (word_of_int s :: u64) = s" using assms(8) by (simp add: uint_word_of_int)
  then have "floor_of st v < word_of_int s" using assms(7) by (simp add: word_less_def)
  then show r: "runner_reads re r [page_frame e k v s kind p] st = dispatch re r v kind p (accepted r v (word_of_int s) st)"
    using handle_viewer_frame [of st "be_nonce e" r v "word_of_int s" re kind p] assms
    by (simp add: runner_reads_def page_frame_def viewer_frame_def)
  have "floor_of (dispatch re r v kind p (accepted r v (word_of_int s) st)) v = word_of_int s"
    by (subst floor_of_cong [OF dispatch_frame(1)]) (simp add: floor_of_accepted)
  then show "uint (floor_of (runner_reads re r [page_frame e k v s kind p] st) v) = s" by (simp add: r u)
  show "v2r (runner_reads re r [page_frame e k v s kind p] st) = go_cipher k"
    unfolding r using dispatch_frame(3) [of re r v kind p "accepted r v (word_of_int s) st"] assms(1)
    by (simp add: accepted_def same_setup_def)
qed

lemma runner_reads_append: "runner_reads e r (xs @ ys) st = runner_reads e r ys (runner_reads e r xs st)"
  by (simp add: runner_reads_def)

text \<open>In a controlled session: a size keeps the owner and what was typed, input of the owner is typed.\<close>

lemma dispatch_owner:
  assumes "controlOwner st = v" "ptmx_open (sess st)"
  shows "controlOwner (dispatch e r v KindResize p st) = v \<and> ptmx_open (sess (dispatch e r v KindResize p st))
      \<and> pty_in (sess (dispatch e r v KindResize p st)) = pty_in (sess st)"
    and "controlOwner (dispatch e r v KindInput p st) = v \<and> ptmx_open (sess (dispatch e r v KindInput p st))
      \<and> pty_in (sess (dispatch e r v KindInput p st)) = pty_in (sess st) @ [p]"
  using assms by (simp_all add: dispatch_def kind_defs viewerHasControl_def SessionWrite_def SetSize_def
      split: sum.split prod.split)

lemma accepted_keeps [simp]:
  "controlOwner (accepted r v s st) = controlOwner st" "sess (accepted r v s st) = sess st"
  "v2r (accepted r v s st) = v2r st" "control (accepted r v s st) = control st"
  by (simp_all add: accepted_def)

lemma dispatch_request:
  assumes "control st = ControlAuto" "controlOwner st = []" "v \<noteq> []"
  shows "controlOwner (dispatch e r v KindCtrlReq p st) = v \<and> ownerRoute (dispatch e r v KindCtrlReq p st) = r
    \<and> sess (dispatch e r v KindCtrlReq p st) = sess st"
  using assms by (simp add: dispatch_def kind_defs handleControlRequest_def emit_shapes Let_def)

text \<open>The page asks, is granted control, and its user types.\<close>

lemma page_asks:
  assumes "page_live w k v pg" "0 \<le> b_outSeq pg" "b_outSeq pg + 1 < 2 ^ 53" "\<not> b_hasControl pg" "b_sealing pg = []"
  and pg1: "pg1 = page_run [(e, EvControl), (e, EvSealed 0)] pg"
  shows "page_sent pg pg1 = [page_frame e k v (b_outSeq pg + 1) KindCtrlReq []]" "page_live w k v pg1"
    "b_outSeq pg1 = b_outSeq pg + 1" "b_sealing pg1 = []" "b_queue pg1 = b_queue pg" "b_open pg1 = b_open pg"
    "b_lastSeq pg1 = b_lastSeq pg" "b_ctrlArmed pg1 = b_ctrlArmed pg"
  using assms(1,4,5) unfolding pg1
  by (simp_all add: page_run_def click_control_def requestControl_def js_send_live [OF assms(1-3)] seal_done_def
      page_sent_def page_live_def js_kinds)

lemma dispatch_granted:
  "b_dispatch e KindControl [ControlGranted] st =
     ((applySize e ((clearControlPending st)\<lparr>b_hasControl := True\<rparr>))\<lparr>b_status := StConnected\<rparr>, True)"
  unfolding js_kinds [symmetric]
  by (simp add: b_dispatch_def decodeControl_def js_const_defs ControlGranted_def Let_def)

lemma page_granted:
  assumes "page_live w k v pg" "0 \<le> b_outSeq pg" "b_outSeq pg + 1 < 2 ^ 53" "b_sealing pg = []" "b_queue pg w = []"
    and "b_open pg = Some ko" "Open (go_cipher ko) fr = Inr (seq, KindControl, [ControlGranted])"
    and "b_lastSeq pg < uint seq" "uint seq < 2 ^ 53"
  and pg1: "pg1 = page_run [(e, EvMessage w (WsBinary fr)), (e, EvProcess w), (e, EvSealed 0)] pg"
  shows "page_sent pg pg1 = [page_frame e k v (b_outSeq pg + 1) KindResize (encodeResize (fst (be_fit e)) (snd (be_fit e)))]"
    "page_live w k v pg1" "b_outSeq pg1 = b_outSeq pg + 1" "b_sealing pg1 = []" "b_hasControl pg1"
    "b_ctrlArmed pg1 = b_ctrlArmed pg"
proof -
  let ?g = "(clearControlPending (pg\<lparr>b_everConnected := True, b_failCount := 0, b_queue := (b_queue pg)(w := []),
    b_everDecoded := True, b_busyRetries := 0, b_mismatchTimer := None, b_lastSeq := uint seq\<rparr>))\<lparr>b_hasControl := True\<rparr>"
  have n: "num (uint seq) = uint seq" using assms(9) by (intro num_exact) simp
  have "process e w (ws_onmessage w (WsBinary fr) pg) = (applySize e ?g)\<lparr>b_status := StConnected\<rparr>"
    using assms(5-8) n by (simp add: process_def ws_onmessage_def onMessage_def jsOpen_go b_accept_def dispatch_granted Let_def)
  moreover have "applySize e ?g = js_send e KindResize (encodeResize (fst (be_fit e)) (snd (be_fit e))) ?g"
    by (simp add: applySize_def sendResize_def js_kinds)
  moreover have g: "page_live w k v ?g" "b_outSeq ?g = b_outSeq pg" using assms(1) by (simp_all add: page_live_def)
  ultimately have "process e w (ws_onmessage w (WsBinary fr) pg) = ?g\<lparr>b_outSeq := b_outSeq pg + 1,
      b_sealing := [(w, page_frame e k v (b_outSeq pg + 1) KindResize (encodeResize (fst (be_fit e)) (snd (be_fit e))))],
      b_status := StConnected\<rparr>"
    using js_send_live [OF g(1)] assms(2-4) by simp
  then show "page_sent pg pg1 = [page_frame e k v (b_outSeq pg + 1) KindResize (encodeResize (fst (be_fit e)) (snd (be_fit e)))]"
    "page_live w k v pg1" "b_outSeq pg1 = b_outSeq pg + 1" "b_sealing pg1 = []" "b_hasControl pg1"
    "b_ctrlArmed pg1 = b_ctrlArmed pg"
    using g(1) assms(1) unfolding pg1
    by (simp_all add: page_run_def seal_done_def page_sent_def page_live_def clearControlPending_def)
qed

lemma page_types:
  assumes "page_live w k v pg" "0 \<le> b_outSeq pg" "b_outSeq pg + 1 < 2 ^ 53" "b_hasControl pg" "\<not> b_ctrlArmed pg" "be_confirm e"
  shows "onData e d pg = pg\<lparr>b_outSeq := b_outSeq pg + 1,
    b_sealing := b_sealing pg @ [(w, page_frame e k v (b_outSeq pg + 1) KindInput (TextEncode d))]\<rparr>"
  using assms js_send_live [OF assms(1-3)] by (simp add: onData_def sendInput_def js_kinds)

text \<open>
  C3: What is typed reaches the command. In an auto-control session nobody controls, the user of a
  page clicks on control and the runner, reading the page's frame from the relay under any label,
  makes the page's viewer the owner and queues the grant for that label. When the page has handled
  the sealed grant it sends its size, and the text typed next is appended to the command's terminal
  input as exactly its UTF-8 encoding. Counters below \<open>2 ^ 53\<close> are exact in JavaScript.
\<close>

theorem browser_types:
  assumes "page_live w k v pg" "0 \<le> b_outSeq pg" "b_outSeq pg + 3 < 2 ^ 53" "\<not> b_hasControl pg" "\<not> b_ctrlArmed pg"
    and "b_sealing pg = []" "b_queue pg w = []" "b_open pg = Some ko"
    and "v2r st = go_cipher k" "control st = ControlAuto" "controlOwner st = []" "ptmx_open (sess st)"
    and "uint (floor_of st v) \<le> b_outSeq pg" "r \<noteq> []" "length r \<le> 255" "conn_obj st = Some c" "published st"
    and "length (be_nonce e1) = 12" "length (be_nonce e2) = 12" "length (be_nonce e3) = 12" "be_confirm e3"
    and "Open (go_cipher ko) grant = Inr (seq, KindControl, [ControlGranted])" "b_lastSeq pg < uint seq" "uint seq < 2 ^ 53"
    and "pg1 = page_run [(e1, EvControl), (e1, EvSealed 0)] pg" "st1 = runner_reads re r (page_sent pg pg1) st"
    and "pg2 = page_run [(e2, EvMessage w (WsBinary grant)), (e2, EvProcess w), (e2, EvSealed 0)] pg1"
    and "pg3 = page_run [(e3, EvType d), (e3, EvSealed 0)] pg2"
    and "st3 = runner_reads re r (page_sent pg1 pg2 @ page_sent pg2 pg3) st1"
  shows "controlOwner st1 = v \<and> ownerRoute st1 = r
    \<and> conn_obj st1 = Some (conn_offer re \<lparr>m_kind = KindControl, m_payload = [ControlGranted], m_target = r, m_text = False\<rparr> c)
    \<and> b_hasControl pg2 \<and> pty_in (sess st3) = pty_in (sess st) @ [TextEncode d]"
proof -
  let ?q = "b_outSeq pg"
  have vv: "v \<noteq> []" "length v \<le> 255" using assms(1) by (simp_all add: page_live_def)
  have "?q + 1 < 2 ^ 53" using assms(3) by simp
  note asks = page_asks [OF assms(1,2) this assms(4,6,25)]
  have "uint (floor_of st v) < ?q + 1" "?q + 1 < 2 ^ 53" using assms(3,13) by simp_all
  note read1 = runner_reads_one [OF assms(9,18,14,15) vv this, of re KindCtrlReq "[]", folded asks(1), folded assms(26)]
  have st1: "controlOwner st1 = v" "ownerRoute st1 = r" "sess st1 = sess st"
    using dispatch_request [of "accepted r v (word_of_int (?q + 1)) st" v re r "[]"] assms(10,11) vv(1) by (simp_all add: read1(1))
  have offered: "conn_obj st1 = Some (conn_offer re \<lparr>m_kind = KindControl, m_payload = [ControlGranted], m_target = r, m_text = False\<rparr> c)"
    using assms(10,11,16,17) vv(1)
    by (simp add: read1(1) dispatch_def kind_defs handleControlRequest_def emitToViewer_def enqueue_def note_host_def
        accepted_def Let_def)
  have "0 \<le> b_outSeq pg1" "b_outSeq pg1 + 1 < 2 ^ 53" "b_queue pg1 w = []" "b_open pg1 = Some ko" "b_lastSeq pg1 < uint seq"
    using assms asks by simp_all
  note granted = page_granted [OF asks(2) this(1,2) asks(4) this(3,4) assms(22) this(5) assms(24,27)]
  have "uint (floor_of st1 v) < b_outSeq pg1 + 1" "b_outSeq pg1 + 1 < 2 ^ 53" using read1(2) asks(3) assms(3) by simp_all
  note read2 = runner_reads_one [OF read1(3) assms(19,14,15) vv this, of re KindResize, folded granted(1)]
  define st2 where "st2 = runner_reads re r (page_sent pg1 pg2) st1"
  have st2: "controlOwner st2 = v" "ptmx_open (sess st2)" "pty_in (sess st2) = pty_in (sess st)"
    using dispatch_owner(1) [of "accepted r v (word_of_int (b_outSeq pg1 + 1)) st1" v re r] st1 assms(12)
    by (simp_all add: st2_def granted(1) read2(1))
  have "0 \<le> b_outSeq pg2" "b_outSeq pg2 + 1 < 2 ^ 53" "\<not> b_ctrlArmed pg2" using granted(3,6) asks(3,8) assms(2,3,5) by simp_all
  note types = page_types [OF granted(2) this(1,2) granted(5) this(3) assms(21)]
  have sent: "page_sent pg2 pg3 = [page_frame e3 k v (b_outSeq pg2 + 1) KindInput (TextEncode d)]"
    using granted(2,4) by (simp add: assms(28) page_run_def types seal_done_def page_sent_def page_live_def)
  have "uint (floor_of st2 v) < b_outSeq pg2 + 1" "b_outSeq pg2 + 1 < 2 ^ 53" "v2r st2 = go_cipher k"
    using read2(2,3) granted(1,3) asks(3) assms(3) by (simp_all add: st2_def)
  note read3 = runner_reads_one [OF this(3) assms(20,14,15) vv this(1,2), of re KindInput "TextEncode d", folded sent]
  have "pty_in (sess st3) = pty_in (sess st) @ [TextEncode d]"
    using dispatch_owner(2) [of "accepted r v (word_of_int (b_outSeq pg2 + 1)) st2" v re r "TextEncode d"] st2
    by (simp add: assms(29) runner_reads_append st2_def [symmetric] read3(1))
  with st1 offered granted(5) show ?thesis by simp
qed

lemma ex_page_live: "page_live 0 (ex_js 2) ''self-a'' ex_page"
  by (simp add: page_live_def)

text \<open>
  C27: Seals that finish out of order lose input. Sealing is asynchronous, the page does not wait
  for one seal before it starts the next, and a frame is handed to the socket when its seal is done.
  Of two texts typed one after the other by the viewer in control, both reach the command in order if
  the seals finish in order; if the second is done first the runner refuses the first as a replay, and
  it is lost.
\<close>

theorem unordered_seals_lose_input:
  assumes "page_live w k v pg" "0 \<le> b_outSeq pg" "b_outSeq pg + 2 < 2 ^ 53" "b_hasControl pg" "\<not> b_ctrlArmed pg"
    and "b_sealing pg = []" "v2r st = go_cipher k" "controlOwner st = v" "ptmx_open (sess st)"
    and "uint (floor_of st v) \<le> b_outSeq pg" "r \<noteq> []" "length r \<le> 255"
    and "length (be_nonce e1) = 12" "length (be_nonce e2) = 12" "be_confirm e1" "be_confirm e2"
    and "typed = page_run [(e1, EvType d1), (e2, EvType d2)] pg"
    and "in_order = page_run [(e1, EvSealed 0), (e2, EvSealed 0)] typed"
    and "swapped = page_run [(e2, EvSealed 1), (e1, EvSealed 0)] typed"
  shows "pty_in (sess (runner_reads re r (page_sent pg in_order) st)) = pty_in (sess st) @ [TextEncode d1, TextEncode d2]
    \<and> pty_in (sess (runner_reads re r (page_sent pg swapped) st)) = pty_in (sess st) @ [TextEncode d2]"
proof -
  let ?q = "b_outSeq pg"
  let ?f1 = "page_frame e1 k v (?q + 1) KindInput (TextEncode d1)" and ?f2 = "page_frame e2 k v (?q + 2) KindInput (TextEncode d2)"
  have vv: "v \<noteq> []" "length v \<le> 255" using assms(1) by (simp_all add: page_live_def)
  let ?p1 = "pg\<lparr>b_outSeq := ?q + 1, b_sealing := [(w, ?f1)]\<rparr>"
  have p1: "onData e1 d1 pg = ?p1" using page_types [OF assms(1,2) _ assms(4,5,15), of d1] assms(3,6) by simp
  have "page_live w k v ?p1" using assms(1) by (simp add: page_live_def)
  from page_types [OF this _ _ _ _ assms(16), of d2] assms(2-5)
  have typed: "typed = pg\<lparr>b_outSeq := ?q + 2, b_sealing := [(w, ?f1), (w, ?f2)]\<rparr>"
    by (simp add: assms(17) page_run_def p1 add.commute)
  have open_w: "b_ready pg w = Opened" using assms(1) by (simp add: page_live_def)
  have sent: "page_sent pg in_order = [?f1, ?f2]" "page_sent pg swapped = [?f2, ?f1]"
    using open_w by (simp_all add: assms(18,19) typed page_run_def seal_done_def page_sent_def)
  have typed_one: "pty_in (sess st') = pty_in (sess st0) @ [p] \<and> controlOwner st' = v \<and> ptmx_open (sess st')
      \<and> uint (floor_of st' v) = s \<and> v2r st' = go_cipher k"
    if "st' = runner_reads re r [page_frame e k v s KindInput p] st0" "v2r st0 = go_cipher k" "controlOwner st0 = v"
      "ptmx_open (sess st0)" "length (be_nonce e) = 12" "uint (floor_of st0 v) < s" "s < 2 ^ 53" for st' st0 e p s
    using runner_reads_one [OF that(2,5) assms(11,12) vv that(6,7), of re KindInput p] that
      dispatch_owner(2) [of "accepted r v (word_of_int s) st0" v re r p]
    by simp
  define a where "a = runner_reads re r [?f1] st"
  have a: "pty_in (sess a) = pty_in (sess st) @ [TextEncode d1] \<and> controlOwner a = v \<and> ptmx_open (sess a)
      \<and> uint (floor_of a v) = ?q + 1 \<and> v2r a = go_cipher k"
    using assms(3,7-10,13) by (intro typed_one [OF a_def]) simp_all
  have "pty_in (sess (runner_reads re r [?f2] a)) = pty_in (sess a) @ [TextEncode d2]"
    using typed_one [OF refl, of a e2 "?q + 2" "TextEncode d2"] a assms(3,14) by simp
  then have first: "pty_in (sess (runner_reads re r (page_sent pg in_order) st)) = pty_in (sess st) @ [TextEncode d1, TextEncode d2]"
    using a runner_reads_append [of re r "[?f1]" "[?f2]" st] by (simp add: sent a_def)
  define b where "b = runner_reads re r [?f2] st"
  have b: "pty_in (sess b) = pty_in (sess st) @ [TextEncode d2] \<and> controlOwner b = v \<and> ptmx_open (sess b)
      \<and> uint (floor_of b v) = ?q + 2 \<and> v2r b = go_cipher k"
    using assms(3,7-10,14) by (intro typed_one [OF b_def]) simp_all
  have "decode_frame (v2r b) (EncodeRelayViewerFrame r ?f1) = Some (r, v, word_of_int (?q + 1), KindInput, TextEncode d1)"
    using decode_viewer_frame [of "v2r b" "be_nonce e1" r v "word_of_int (?q + 1)" KindInput "TextEncode d1"] b vv assms(11-13)
    by (simp add: page_frame_def viewer_frame_def)
  moreover have "uint (word_of_int (?q + 1) :: u64) = ?q + 1"
    using assms(2,3) by (simp add: uint_word_of_int del: of_int_add)
  then have "(word_of_int (?q + 1) :: u64) \<le> floor_of b v" using b by (simp add: word_le_def del: of_int_add)
  ultimately have "runner_reads re r [?f1] b = b" by (simp add: runner_reads_def stale_frame_dropped)
  then show ?thesis using first b runner_reads_append [of re r "[?f2]" "[?f1]" st] by (simp add: sent b_def)
qed

lemma ex_up_session: "v2r (ex_up mode) = go_cipher (ex_js 2)" "control (ex_up mode) = mode" "controlOwner (ex_up mode) = []"
    "ptmx_open (sess (ex_up mode))" "floor_of (ex_up mode) v = 0" "pty_in (sess (ex_up mode)) = []"
    "ptmx_open ex_session" "pty_in ex_session = []"
  by (simp_all add: ex_simps floor_of_def ex_cipher_def go_cipher_def ex_js_def)

theorem browser_types_witness:
  "\<exists>pg1 st1 pg2 pg3. controlOwner st1 = ''self-a'' \<and> b_hasControl pg2
     \<and> pg1 = page_run [(ex_benv, EvControl), (ex_benv, EvSealed 0)] ex_page
     \<and> pg3 = page_run [(ex_benv, EvType (js ''x'')), (ex_benv, EvSealed 0)] pg2
     \<and> pty_in (sess (runner_reads ex_env ''r'' (page_sent pg1 pg2 @ page_sent pg2 pg3) st1)) = [TextEncode (js ''x'')]"
proof -
  have o: "Open (go_cipher (ex_js 1)) (sealWithNonce (go_cipher (ex_js 1)) (replicate 12 0) 1 KindControl [ControlGranted])
      = Inr (1, KindControl, [ControlGranted])"
    by (rule Open_sealWithNonce) (simp_all add: nonceLen_def)
  have q: "b_queue ex_page 0 = []" "\<not> b_ctrlArmed ex_page" by (simp_all add: ex_page_def fresh_page_def)
  show ?thesis
    using browser_types [OF ex_page_live _ _ _ _ _ _ _ _ _ _ _ _ _ _ _ _ _ _ _ _ o _ _ refl refl refl refl refl,
        of "ex_up ControlAuto" "''r''" ex_conn ex_benv ex_benv ex_benv ex_env "js ''x''"] q
    by (simp add: ex_up_session ex_up_fields ex_up_more) blast
qed

theorem unordered_seals_lose_input_witness:
  "pty_in (sess (runner_reads ex_env ''r''
     (page_sent (ex_page\<lparr>b_hasControl := True\<rparr>)
        (page_run [(ex_benv, EvSealed 1), (ex_benv, EvSealed 0)]
           (page_run [(ex_benv, EvType (js ''a'')), (ex_benv, EvType (js ''b''))] (ex_page\<lparr>b_hasControl := True\<rparr>))))
     ((ex_up ControlAuto)\<lparr>controlOwner := ''self-a''\<rparr>))) = [TextEncode (js ''b'')]"
proof -
  have l: "page_live 0 (ex_js 2) ''self-a'' (ex_page\<lparr>b_hasControl := True\<rparr>)" by (simp add: page_live_def)
  have q: "\<not> b_ctrlArmed ex_page" by (simp add: ex_page_def fresh_page_def)
  have f: "floor_of ((ex_up ControlAuto)\<lparr>controlOwner := x\<rparr>) v = 0" for x v using ex_up_session by (simp add: floor_of_def)
  show ?thesis
    using unordered_seals_lose_input [OF l _ _ _ _ _ _ _ _ _ _ _ _ _ _ _ refl refl refl,
        of "(ex_up ControlAuto)\<lparr>controlOwner := ''self-a''\<rparr>" "''r''" ex_benv ex_benv ex_env "js ''a''" "js ''b''"] q
    by (simp add: ex_up_session f)
qed

end
