(* ===== verification/Quiet.thy ===== *)
theory Quiet
  imports BrowserSafe
begin

text \<open>
  A page that was left hands nothing to a socket and opens none; and how a retry can leave the page
  with two sockets.
\<close>

subsection \<open>Leaving\<close>

text \<open>No socket is open or will be, and \<open>s\<close> is what was sent over the first \<open>n\<close> of them.\<close>

definition quiet :: "(nat \<times> bytes) list \<Rightarrow> nat \<Rightarrow> Browser \<Rightarrow> bool" where
  "quiet s n st \<longleftrightarrow> b_ended st \<and> b_noReconnect st \<and> b_ws st = None \<and> b_sent st = s \<and> b_next st = n
     \<and> (\<forall>w. b_ready st w \<noteq> Opened \<and> b_ready st w \<noteq> Connecting)"

lemma quiet_send: "quiet s n st \<Longrightarrow> js_send e k p st = st" "quiet s n st \<Longrightarrow> sendInput e c d st = st"
  by (simp_all add: quiet_def js_send_def sendInput_def ws_open_def Let_def)

lemma quiet_size: "quiet s n st \<Longrightarrow> applySize e st = st"
  by (simp add: applySize_def sendResize_def quiet_send)

lemma quiet_dispatch: "quiet s n st \<Longrightarrow> quiet s n (fst (b_dispatch e k p st))"
proof -
  assume q: "quiet s n st"
  have a: "quiet s n x \<Longrightarrow> quiet s n (applySize e x)" for x by (simp add: quiet_size)
  have "quiet s n (st\<lparr>b_outSeq := m, b_ptyCols := c, b_ptyRows := r\<rparr>)"
    "quiet s n (st\<lparr>b_outSeq := m, b_ptyCols := c, b_ptyRows := r, b_status := x\<rparr>)"
    "quiet s n ((clearControlPending st)\<lparr>b_hasControl := h\<rparr>)" for m c r x h
    using q by (simp_all add: quiet_def clearControlPending_def)
  note this [THEN a] this(3)
  moreover have "quiet s n (y\<lparr>b_status := x\<rparr>) = quiet s n y" for x y by (simp add: quiet_def)
  moreover have "quiet s n (clearControlPending (st\<lparr>b_term := t, b_ended := True, b_noReconnect := True, b_exitSeen := True,
      b_hasControl := False, b_status := x\<rparr>))" "quiet s n (st\<lparr>b_term := t\<rparr>)" for t x
    using q by (simp_all add: quiet_def clearControlPending_def)
  ultimately show ?thesis using q by (simp add: b_dispatch_def Let_def split: option.split)
qed

lemma quiet_message: "quiet s n st \<Longrightarrow> quiet s n (fst (onMessage e m st))"
proof (cases m)
  case (WsText t)
  assume q: "quiet s n st"
  have "quiet s n (fst (onControlText t st))"
    by (rule control_text_rule) (use q in \<open>auto simp: quiet_def on_busy_def on_bye_def clearControlPending_def Let_def\<close>)
  then show ?thesis by (simp add: onMessage_def WsText)
next
  case (WsBinary fr)
  assume q: "quiet s n st"
  then have "quiet s n (st\<lparr>b_everDecoded := True, b_busyRetries := 0, b_mismatchTimer := None\<rparr>)"
    "quiet s n (st\<lparr>b_everDecoded := True, b_busyRetries := 0, b_mismatchTimer := None, b_lastSeq := l\<rparr>)"
    "quiet s n (st\<lparr>b_mismatchTimer := x\<rparr>)" for l x
    by (simp_all add: quiet_def)
  with q show ?thesis
    by (auto simp: onMessage_def WsBinary b_accept_def quiet_dispatch split: option.split)
qed

lemma quiet_start: "quiet s n st \<Longrightarrow> quiet s n (start e v st)"
  by (simp add: start_def connect_def quiet_def Let_def split: option.split)

lemma quiet_event:
  assumes "quiet s n st" "b_enabled ev st"
  shows "quiet s n (b_handle e ev st)"
proof (cases ev)
  case (EvProcess w)
  have "quiet s n (st\<lparr>b_queue := q\<rparr>)" for q using assms(1) by (simp add: quiet_def)
  note m = quiet_message [OF this]
  moreover have "quiet s n (y\<lparr>b_status := x\<rparr>) = quiet s n y" for x y by (simp add: quiet_def)
  ultimately show ?thesis using assms(1) by (simp add: EvProcess process_def case_prod_unfold split: list.split)
next
  case (EvPassphrase v)
  have "quiet s n (st\<lparr>b_overlay := None\<rparr>)" using assms(1) by (simp add: quiet_def)
  with assms(1) show ?thesis by (simp add: EvPassphrase enter_passphrase_def quiet_start)
next
  case (EvRetry v)
  show ?thesis unfolding EvRetry b_handle.simps retryWithPassphrase_def
    by (rule quiet_start) (use assms(1) in \<open>simp add: quiet_def ws_shut_def clearControlPending_def\<close>)
next
  case (EvType d)
  have "quiet s n (st\<lparr>b_ctrlArmed := False\<rparr>)" using assms(1) by (simp add: quiet_def)
  with assms(1) show ?thesis by (simp add: EvType onData_def quiet_send)
next
  case (EvTouch k)
  have "quiet s n (st\<lparr>b_ctrlArmed := False\<rparr>)" using assms(1) by (simp add: quiet_def)
  with assms(1) show ?thesis by (simp add: EvTouch touchKey_def quiet_send split: option.split)
qed (use assms in \<open>auto simp: quiet_send quiet_size ws_onmessage_def ws_onopen_def ws_onerror_def ws_onclose_def
    onclose_def seal_done_def fire_connect_def connect_def control_timeout_def mismatch_timeout_def click_control_def
    click_ctrl_def leave_def showVerify_def fingerprint_mismatch_def quiet_def clearControlPending_def Let_def
    split: option.split prod.split\<close>)

lemma quiet_leave:
  assumes "\<not> b_ended st" "\<And>w. b_ready st w \<in> {Opened, Connecting} \<Longrightarrow> b_ws st = Some w"
  shows "quiet (b_sent st) (b_next st) (leave st)"
proof -
  have "b_ready st w \<noteq> Opened \<and> b_ready st w \<noteq> Connecting" if "b_ws st \<noteq> Some w" for w
    using assms(2) [of w] that by auto
  then show ?thesis
    using assms(1) by (cases "b_ws st") (simp_all add: quiet_def leave_def ws_shut_def clearControlPending_def)
qed

lemma quiet_run:
  assumes "(\<lambda>s s'. \<exists>ev. b_step ev s s')\<^sup>*\<^sup>* st st'" "quiet s n st"
  shows "quiet s n st'"
  using assms by (induction rule: rtranclp_induct) (auto simp: b_step_event quiet_event)

text \<open>
  C17: A page that was left is silent. After its user disconnects, or says that the fingerprints do
  not match, nothing the page does later - frames still in its queue, seals that finish, timers,
  typing, another passphrase - hands a frame to a socket or opens a new one, if its socket was the
  only one open.
\<close>

theorem page_left_is_silent:
  assumes "\<not> b_ended st" "\<And>w. b_ready st w \<in> {Opened, Connecting} \<Longrightarrow> b_ws st = Some w"
    and "left = leave st \<or> left = fingerprint_mismatch st" "(\<lambda>s s'. \<exists>ev. b_step ev s s')\<^sup>*\<^sup>* left st'"
  shows "b_sent st' = b_sent st \<and> b_ws st' = None \<and> b_next st' = b_next st
    \<and> b_ready st' w \<noteq> Opened \<and> b_ready st' w \<noteq> Connecting"
proof -
  have "quiet (b_sent st) (b_next st) left"
    using quiet_leave [OF assms(1,2)] assms(3) by (auto simp: fingerprint_mismatch_def quiet_def)
  from quiet_run [OF assms(4) this] show ?thesis by (simp add: quiet_def)
qed

theorem page_left_is_silent_witness:
  "b_sent (b_handle ex_benv (EvType (js ''x'')) (leave ex_page)) = []"
proof -
  have "b_step (EvType (js ''x'')) (leave ex_page) (b_handle ex_benv (EvType (js ''x'')) (leave ex_page))"
    by (rule b_step.event) simp
  then have "(\<lambda>s s'. \<exists>ev. b_step ev s s')\<^sup>*\<^sup>* (leave ex_page) (b_handle ex_benv (EvType (js ''x'')) (leave ex_page))"
    by (intro r_into_rtranclp) blast
  moreover have "b_ready ex_page w \<in> {Opened, Connecting} \<Longrightarrow> b_ws ex_page = Some w" for w
    by (simp add: ex_page_def split: if_splits)
  ultimately show ?thesis using page_left_is_silent [of ex_page "leave ex_page"] by simp
qed

text \<open>
  Entering a passphrase on the mismatch overlay while a reconnect is scheduled opens two sockets,
  and both reconnect on their own from then on.
\<close>

lemma start_rule:
  assumes "P st" "P (st\<lparr>b_overlay := Some OvBrokenLink\<rparr>)"
    and "\<And>oc sc f. P (connect e (st\<lparr>b_open := Some oc, b_seal := Some sc, b_fp := f\<rparr>))"
    and "\<And>oc sc f. P (connect e (st\<lparr>b_open := Some oc, b_seal := Some sc, b_fp := f, b_overlay := Some OvVerify\<rparr>))"
  shows "P (start e v st)"
  using assms by (simp add: start_def Let_def split: option.split)

lemma start_opens:
  "b_ws (start e v st) \<noteq> b_ws st \<Longrightarrow>
     b_ws (start e v st) = Some (b_next st) \<and> b_next (start e v st) = Suc (b_next st)
     \<and> b_ready (start e v st) = (b_ready st)(b_next st := Connecting) \<and> b_mute (start e v st) = b_mute st
     \<and> b_timers (start e v st) = b_timers st \<and> b_ended (start e v st) = b_ended st
     \<and> b_noReconnect (start e v st) = b_noReconnect st"
  by (rule start_rule [of "\<lambda>x. b_ws x \<noteq> b_ws st \<longrightarrow> b_ws x = Some (b_next st) \<and> b_next x = Suc (b_next st)
     \<and> b_ready x = (b_ready st)(b_next st := Connecting) \<and> b_mute x = b_mute st
     \<and> b_timers x = b_timers st \<and> b_ended x = b_ended st \<and> b_noReconnect x = b_noReconnect st" st e v, THEN mp])
    (simp_all add: connect_def)

lemma retry_doubles_sockets:
  assumes "b_timers st = [d]" "\<not> b_ended st" "\<not> b_noReconnect st" "list_all (\<lambda>w. w < b_next st) (b_mute st)"
    and "b_ws st = Some w" "w < b_next st" "b_ws (retryWithPassphrase e v st) \<noteq> None"
    and st': "st' = fire_connect e' 0 (retryWithPassphrase e v st)"
  shows "b_ready st' (b_next st) = Connecting" "b_ready st' (Suc (b_next st)) = Connecting"
    "b_next st \<notin> set (b_mute st')" "Suc (b_next st) \<notin> set (b_mute st')" "b_ws st' = Some (Suc (b_next st))"
proof -
  let ?x = "clearControlPending ((ws_shut st)\<lparr>b_mismatchTimer := None, b_everDecoded := False, b_lastSeq := 0,
    b_outSeq := 0, b_hasControl := False, b_status := StReconnecting\<rparr>)"
  have x: "b_ws ?x = None" "b_next ?x = b_next st" "b_timers ?x = [d]" "b_mute ?x = w # b_mute st"
      "\<not> b_ended ?x" "\<not> b_noReconnect ?x"
    using assms(1-3,5) by (simp_all add: ws_shut_def clearControlPending_def)
  have r: "retryWithPassphrase e v st = start e v ?x" by (simp only: retryWithPassphrase_def)
  have "b_ws (start e v ?x) \<noteq> b_ws ?x" using assms(7) unfolding r x(1) .
  note o = start_opens [OF this, unfolded x, folded r]
  show "b_ready st' (b_next st) = Connecting" "b_ready st' (Suc (b_next st)) = Connecting"
    "b_next st \<notin> set (b_mute st')" "Suc (b_next st) \<notin> set (b_mute st')" "b_ws st' = Some (Suc (b_next st))"
    using assms(4,6) o x(5,6) by (auto simp: st' fire_connect_def connect_def list_all_iff)
qed

end
