(* ===== verification/PortalHttp.thy ===== *)
theory PortalHttp
  imports RelayText RelayClient
begin

text \<open>
  The relay's HTTP side: \<^verbatim>\<open>OnlyTTY.SessionStore\<close>, the controllers
  \<^verbatim>\<open>SessionController\<close> and \<^verbatim>\<open>SocketController\<close> and the rate limiter. The store is the list
  of live sessions by id (\<^verbatim>\<open>:global\<close>), its size bounded by the supervisor's
  \<^verbatim>\<open>max_children\<close>. The application environment is the record \<open>portal_config\<close>; the clock is
  an argument in milliseconds. A session is created on the node that serves the request.
\<close>

record portal_config =
  pc_default_ttl :: int
  pc_max_ttl :: "int option"
  pc_idle_ms :: int
  pc_max_viewers :: nat
  pc_max_sessions :: nat

subsection \<open>Expiry\<close>

definition min_ttl :: int where "min_ttl = 60"
definition hard_max_ttl :: int where "hard_max_ttl = 3153600000"

definition ttl_ceiling :: "portal_config \<Rightarrow> int" where
  "ttl_ceiling cfg = (case pc_max_ttl cfg of None \<Rightarrow> hard_max_ttl | Some m \<Rightarrow> min m hard_max_ttl)"

definition cap_ttl :: "portal_config \<Rightarrow> int \<Rightarrow> int" where
  "cap_ttl cfg ttl =
     (if ttl \<le> 0 then (if pc_max_ttl cfg = None then 0 else ttl_ceiling cfg) else min ttl (ttl_ceiling cfg))"

definition clamp_ttl :: "portal_config \<Rightarrow> int option \<Rightarrow> int" where
  "clamp_ttl cfg req =
     (let ttl = (case req of None \<Rightarrow> pc_default_ttl cfg | Some t \<Rightarrow> t)
      in if ttl \<le> 0 then cap_ttl cfg 0 else cap_ttl cfg (max ttl min_ttl))"

definition expiry_at :: "int \<Rightarrow> int \<Rightarrow> int" where
  "expiry_at now ttl = (if ttl = 0 then 0 else now div 1000 + ttl)"

subsection \<open>The store\<close>

type_synonym store = "(string \<times> PSession) list"

datatype store_reply = StoreOk string string int | StoreUnauthorized | StoreAtCapacity

text \<open>
  \<^verbatim>\<open>DynamicSupervisor.start_child\<close> refuses at \<^verbatim>\<open>max_children\<close> before it tries the child's
  name, so at capacity an existing session is not attached to either. The clock is read twice: at
  \<open>now\<close> in the new process (\<^verbatim>\<open>Session.init\<close>), at \<open>later\<close> for the answer (\<^verbatim>\<open>expiry_at\<close>).
\<close>

definition create_or_attach ::
  "portal_config \<Rightarrow> int \<Rightarrow> int \<Rightarrow> string \<Rightarrow> string \<Rightarrow> int option \<Rightarrow> bool \<Rightarrow> store \<Rightarrow> store_reply \<times> store" where
  "create_or_attach cfg now later sid tok req lock st =
     (let ttl = clamp_ttl cfg req in
      if pc_max_sessions cfg \<le> length st then (StoreAtCapacity, st)
      else case map_of st sid of
        None \<Rightarrow>
          (StoreOk sid tok (expiry_at later ttl),
           (sid, session_init now sid tok ttl (pc_idle_ms cfg) (pc_max_viewers cfg) lock) # st)
      | Some s \<Rightarrow>
          if valid_runner_token tok s then (StoreOk sid tok (ss_expires_at s), st)
          else (StoreUnauthorized, st))"

subsection \<open>Creating a session\<close>

definition url_safe :: "char \<Rightarrow> bool" where
  "url_safe c \<longleftrightarrow> c \<in> set base64url_alphabet"

datatype param_error = ParamInvalid string | ParamRequired string | TtlNotInteger | MultiViewerNotBoolean

definition token_str :: "(string \<times> json) list \<Rightarrow> string \<Rightarrow> param_error + string" where
  "token_str params key =
     (case obj_get params key of
        Some (JStr s) \<Rightarrow>
          if 16 \<le> length s \<and> length s \<le> 128 \<and> list_all url_safe s then Inr s else Inl (ParamInvalid key)
      | _ \<Rightarrow> Inl (ParamRequired key))"

text \<open>A JSON number without fraction and exponent is an integer; Elixir's are unbounded.\<close>

definition json_int :: "string \<Rightarrow> int option" where
  "json_int s =
     (let b = str_bytes s;
          (neg, ds) = (case b of c # r \<Rightarrow> if c = ch CHR ''-'' then (True, r) else (False, b) | [] \<Rightarrow> (False, []))
      in if ds = [] \<or> \<not> list_all is_digit ds then None
         else Some (if neg then - int (dec_val ds) else int (dec_val ds)))"

definition ttl_param :: "(string \<times> json) list \<Rightarrow> param_error + int option" where
  "ttl_param params =
     (case obj_get params ''ttl_seconds'' of
        None \<Rightarrow> Inr None
      | Some (JNum s) \<Rightarrow> (case json_int s of Some i \<Rightarrow> Inr (Some i) | None \<Rightarrow> Inl TtlNotInteger)
      | Some _ \<Rightarrow> Inl TtlNotInteger)"

definition multi_viewer_param :: "(string \<times> json) list \<Rightarrow> param_error + bool" where
  "multi_viewer_param params =
     (case obj_get params ''multi_viewer'' of
        None \<Rightarrow> Inr False
      | Some (JBool b) \<Rightarrow> Inr b
      | Some _ \<Rightarrow> Inl MultiViewerNotBoolean)"

definition param_message :: "param_error \<Rightarrow> string" where
  "param_message e =
     (case e of
        ParamInvalid k \<Rightarrow> k @ '' is invalid''
      | ParamRequired k \<Rightarrow> k @ '' is required''
      | TtlNotInteger \<Rightarrow> ''ttl_seconds must be an integer''
      | MultiViewerNotBoolean \<Rightarrow> ''multi_viewer must be a boolean'')"

definition error_json :: "encoder \<Rightarrow> string \<Rightarrow> bytes" where
  "error_json jenc msg = jenc [(''error'', JStr msg)]"

definition create_session ::
  "portal_config \<Rightarrow> encoder \<Rightarrow> int \<Rightarrow> int \<Rightarrow> string \<Rightarrow> string \<Rightarrow> int option \<Rightarrow> bool \<Rightarrow> store \<Rightarrow> (int \<times> bytes) \<times> store" where
  "create_session cfg jenc now later sid tok ttl multi st =
     (case create_or_attach cfg now later sid tok ttl (\<not> multi) st of
        (StoreOk i t ex, st') \<Rightarrow>
          ((201, jenc [(''id'', JStr i), (''runner_token'', JStr t), (''expires_at'', JNum (show_int ex))]), st')
      | (StoreUnauthorized, st') \<Rightarrow> ((401, error_json jenc ''session id is held by another runner''), st')
      | (StoreAtCapacity, st') \<Rightarrow> ((503, error_json jenc ''relay at capacity, try again later''), st'))"

definition create_action ::
  "portal_config \<Rightarrow> encoder \<Rightarrow> int \<Rightarrow> int \<Rightarrow> (string \<times> json) list \<Rightarrow> store \<Rightarrow> (int \<times> bytes) \<times> store" where
  "create_action cfg jenc now later params st =
     (let bad = (\<lambda>e. ((400, error_json jenc (param_message e)), st)) in
      case token_str params ''id'' of Inl e \<Rightarrow> bad e | Inr sid \<Rightarrow>
      (case token_str params ''runner_token'' of Inl e \<Rightarrow> bad e | Inr tok \<Rightarrow>
      (case ttl_param params of Inl e \<Rightarrow> bad e | Inr ttl \<Rightarrow>
      (case multi_viewer_param params of Inl e \<Rightarrow> bad e | Inr multi \<Rightarrow>
        create_session cfg jenc now later sid tok ttl multi st))))"

text \<open>
  A request with a JSON body, as \<^verbatim>\<open>Plug.Parsers\<close> hands it on: an object's members are the
  parameters, another value has none of them, and a body that is not JSON is refused with 400.
\<close>

definition post_sessions ::
  "portal_config \<Rightarrow> encoder \<Rightarrow> (bytes \<Rightarrow> json option) \<Rightarrow> int \<Rightarrow> int \<Rightarrow> bytes \<Rightarrow> store \<Rightarrow> (int \<times> bytes) \<times> store" where
  "post_sessions cfg jenc jdec now later body st =
     (case jdec body of
        None \<Rightarrow> ((400, []), st)
      | Some (JObj ms) \<Rightarrow> create_action cfg jenc now later ms st
      | Some _ \<Rightarrow> create_action cfg jenc now later [] st)"

subsection \<open>Rate limit\<close>

text \<open>One counter per key and clock-aligned window; \<open>None\<close> as the maximum disables the limit.\<close>

definition rate_check ::
  "nat option \<Rightarrow> int \<Rightarrow> int \<Rightarrow> 'k \<Rightarrow> ('k \<times> int \<Rightarrow> nat) \<Rightarrow> (int + unit) \<times> ('k \<times> int \<Rightarrow> nat)" where
  "rate_check mx window now key tab =
     (case mx of
        None \<Rightarrow> (Inr (), tab)
      | Some m \<Rightarrow>
          let bucket = now div window; count = tab (key, bucket) + 1; tab' = tab((key, bucket) := count)
          in (if count \<le> m then Inr () else Inl (((bucket + 1) * window - now) div 1000 + 1), tab'))"

definition rate_sweep :: "int \<Rightarrow> int \<Rightarrow> ('k \<times> int \<Rightarrow> nat) \<Rightarrow> ('k \<times> int \<Rightarrow> nat)" where
  "rate_sweep window now tab = (\<lambda>(key, bucket). if bucket < now div window then 0 else tab (key, bucket))"

subsection \<open>Socket upgrades\<close>

datatype upgrade = Upgrade PSession role | Reject int

definition authorize_runner :: "string list \<Rightarrow> PSession \<Rightarrow> bool" where
  "authorize_runner auth s \<longleftrightarrow>
     (case auth of [h] \<Rightarrow> take 7 h = ''Bearer '' \<and> valid_runner_token (drop 7 h) s | _ \<Rightarrow> False)"

text \<open>\<open>throttled\<close> is the outcome of the per-address limit, \<open>auth\<close> the authorization headers.\<close>

definition upgrade_runner :: "bool \<Rightarrow> string \<Rightarrow> string list \<Rightarrow> store \<Rightarrow> upgrade" where
  "upgrade_runner throttled sid auth st =
     (if throttled then Reject 429
      else case map_of st sid of
        None \<Rightarrow> Reject 404
      | Some s \<Rightarrow> if authorize_runner auth s then Upgrade s Runner else Reject 401)"

text \<open>
  \<open>origin\<close> lists the origin headers; \<open>uri_host\<close> is the host \<^verbatim>\<open>URI.parse\<close> finds in one, \<open>host\<close>
  the request's own and \<open>extra\<close> the configured origins.
\<close>

definition authorize_origin :: "(string \<Rightarrow> string option) \<Rightarrow> string \<Rightarrow> string list \<Rightarrow> string list \<Rightarrow> bool" where
  "authorize_origin uri_host host extra origin \<longleftrightarrow>
     (case origin of [] \<Rightarrow> True | o' # _ \<Rightarrow> uri_host o' = Some host \<or> o' \<in> set extra)"

definition upgrade_viewer ::
  "bool \<Rightarrow> (string \<Rightarrow> string option) \<Rightarrow> string \<Rightarrow> string list \<Rightarrow> string list \<Rightarrow> string \<Rightarrow> store \<Rightarrow> upgrade" where
  "upgrade_viewer throttled uri_host host extra origin sid st =
     (if throttled then Reject 429
      else if \<not> authorize_origin uri_host host extra origin then Reject 403
      else case map_of st sid of None \<Rightarrow> Reject 404 | Some s \<Rightarrow> Upgrade s Viewer)"

subsection \<open>Expiry stays within its bounds\<close>

lemma cap_ttl_bounds:
  assumes "\<And>m. pc_max_ttl cfg = Some m \<Longrightarrow> 0 < m"
  shows "0 < ttl_ceiling cfg" "ttl_ceiling cfg \<le> hard_max_ttl" "0 \<le> cap_ttl cfg t" "cap_ttl cfg t \<le> ttl_ceiling cfg"
    "cap_ttl cfg t = 0 \<longleftrightarrow> t \<le> 0 \<and> pc_max_ttl cfg = None"
proof -
  show c: "0 < ttl_ceiling cfg" "ttl_ceiling cfg \<le> hard_max_ttl"
    using assms by (auto simp: ttl_ceiling_def hard_max_ttl_def split: option.split)
  show "0 \<le> cap_ttl cfg t" "cap_ttl cfg t \<le> ttl_ceiling cfg"
    "cap_ttl cfg t = 0 \<longleftrightarrow> t \<le> 0 \<and> pc_max_ttl cfg = None"
    using c(1) by (auto simp: cap_ttl_def)
qed

subsection \<open>The runner's request is read\<close>

lemma json_int_show_int: "json_int (show_int i) = Some i"
proof -
  have digits: "list_all is_digit (str_bytes (show_nat n))" "str_bytes (show_nat n) \<noteq> []" for n
    using show_nat_bytes [of n] by (simp_all add: str_bytes_def)
  obtain d ds where d: "str_bytes (show_nat (nat i)) = d # ds" using digits(2) by (cases "str_bytes (show_nat (nat i))") auto
  have "d \<noteq> ch CHR ''-''" using digits(1) [of "nat i"] by (auto simp: d is_digit_def)
  then have "json_int (show_int i) = Some i" if "\<not> i < 0"
    using that digits(1) [of "nat i"] dec_val_show_nat [of "nat i"] d
    by (simp add: json_int_def show_int_def Let_def)
  moreover have "json_int (show_int i) = Some i" if "i < 0"
    using that digits [of "nat (- i)"] dec_val_show_nat [of "nat (- i)"]
    by (simp add: json_int_def show_int_def Let_def str_bytes_def)
  ultimately show ?thesis by blast
qed

definition token_ok :: "string \<Rightarrow> bool" where
  "token_ok s \<longleftrightarrow> 16 \<le> length s \<and> length s \<le> 128 \<and> list_all url_safe s"

lemma token_ascii: "list_all url_safe s \<Longrightarrow> ascii s"
proof -
  have "list_all (\<lambda>c. of_char c < (0x80 :: byte)) base64url_alphabet" by (simp add: base64url_alphabet_def)
  then show "list_all url_safe s \<Longrightarrow> ascii s" by (auto simp: ascii_def url_safe_def list_all_iff)
qed

lemma fixed_token: "token_ok s \<Longrightarrow> fixed s = s"
  using token_ascii [of s] by (simp add: token_ok_def ascii_def fixed_ascii)

lemma parse_create_body:
  assumes "token_ok sid" "token_ok tok"
  shows "parse_json (create_body sid tok ttl opts) = Some (JObj
    ([(''id'', JStr sid)] @ (if MultiViewer opts then [(''multi_viewer'', JBool True)] else [])
     @ [(''runner_token'', JStr tok), (''ttl_seconds'', JNum (show_int (seconds_int ttl)))]))"
proof -
  let ?es = "[(''id'', marshal_string sid, JStr (fixed sid))]
    @ (if MultiViewer opts then [(''multi_viewer'', ''true'', JBool True)] else [])
    @ [(''runner_token'', marshal_string tok, JStr (fixed tok)),
       (''ttl_seconds'', show_int (seconds_int ttl), JNum (show_int (seconds_int ttl)))]"
  have "list_all (\<lambda>(k, t, v). value_text t v) ?es"
    by (simp add: value_text_string value_text_true value_text_int)
  from parse_marshal_raw [OF this] show ?thesis
    using assms by (cases "MultiViewer opts") (simp_all add: create_body_def fixed_token fixed_ascii)
qed

lemma create_action_request:
  assumes "token_ok sid" "token_ok tok"
  shows "create_action cfg jenc now later
    ([(''id'', JStr sid)] @ (if mv then [(''multi_viewer'', JBool True)] else [])
     @ [(''runner_token'', JStr tok), (''ttl_seconds'', JNum (show_int t))]) st
    = create_session cfg jenc now later sid tok (Some t) mv st"
  using assms
  by (cases mv)
    (simp_all add: create_action_def token_str_def ttl_param_def multi_viewer_param_def obj_get_def token_ok_def
      json_int_show_int)

subsection \<open>The relay's answer is read\<close>

lemma assign_session_commute:
  assumes "fold_name (str_bytes (fst x)) \<noteq> fold_name (str_bytes (fst y))"
  shows "assign_session x \<circ> assign_session y = assign_session y \<circ> assign_session x"
proof
  fix acc
  obtain k v l u where "x = (k, v)" "y = (l, u)" by (cases x; cases y)
  with assms show "(assign_session x \<circ> assign_session y) acc = (assign_session y \<circ> assign_session x) acc"
    by (cases acc; cases v; cases u)
      (auto simp: assign_session_def field_matches_def map_option_case split: option.splits)
qed

lemma parse_first_json: "parse_json b = Some v \<Longrightarrow> parse_first b = Some v"
  by (auto simp: parse_json_def parse_first_def split: option.splits if_splits prod.splits)

lemma decode_created:
  assumes "jason_law jenc" "ascii sid" "ascii tok" "- (2 ^ 63) \<le> ex" "ex < 2 ^ 63"
  shows "decode_session (jenc [(''id'', JStr sid), (''runner_token'', JStr tok), (''expires_at'', JNum (show_int ex))])
    = Some \<lparr>ID = sid, RunnerToken = tok, ExpiresAt = ex\<rparr>"
proof -
  let ?ms = "[(''id'', JStr sid), (''runner_token'', JStr tok), (''expires_at'', JNum (show_int ex))]"
  have "plain ?ms" using assms(2,3) by (auto simp: plain_def ascii_def)
  then obtain ms' where ms': "mset ms' = mset ?ms" "parse_json (jenc ?ms) = Some (JObj ms')"
    using assms(1) unfolding jason_law_def by blast
  have d: "distinct (field_names ?ms)" by (simp add: field_names_def folded_names)
  have perm: "fold assign_session ms' acc = fold assign_session ?ms acc" for acc
    by (rule fold_fields_perm [OF _ d ms'(1)]) (rule assign_session_commute)
  have "parse_int64 (show_int ex) = Some ex"
    using json_int_show_int [of ex] assms(4,5)
    by (auto simp: parse_int64_def json_int_def Let_def split: if_splits list.splits prod.splits)
  then have "fold assign_session ?ms (Some \<lparr>ID = [], RunnerToken = [], ExpiresAt = 0\<rparr>)
      = Some \<lparr>ID = sid, RunnerToken = tok, ExpiresAt = ex\<rparr>"
    by (simp add: assign_session_def field_matches_def folded_names)
  then show ?thesis
    using parse_first_json [OF ms'(2)] by (simp only: decode_session_def Let_def option.case json.case perm)
qed

subsection \<open>Client and relay together\<close>

text \<open>
  The router. An HTTP client sends the path of the address (here between the host and the query);
  \<^verbatim>\<open>Plug\<close> drops the empty segments of it and decodes the others. \<open>OtherRoute\<close> is every other
  path: the site's pages and what has no route at all.
\<close>

definition request_path :: "string \<Rightarrow> string" where
  "request_path url = before CHR ''?'' (dropWhile (\<lambda>c. c \<noteq> CHR ''/'') (drop 3 (dropWhile (\<lambda>c. c \<noteq> CHR '':'') url)))"

definition path_info :: "string \<Rightarrow> string list option" where
  "path_info p = those (map (unescape encodePath) (filter (\<lambda>x. x \<noteq> []) (split_on CHR ''/'' p)))"

datatype endpoint = CreateRoute | MethodNotAllowed | RunnerSocket string | ViewerSocket string | OtherRoute

definition route :: "string \<Rightarrow> string \<Rightarrow> endpoint" where
  "route verb url =
     (case path_info (request_path url) of
        None \<Rightarrow> OtherRoute
      | Some segs \<Rightarrow>
          if segs = [''api'', ''sessions''] then (if verb = ''POST'' then CreateRoute else MethodNotAllowed)
          else if verb = ''GET'' \<and> length segs = 3 \<and> take 2 segs = [''ws'', ''runner''] then RunnerSocket (segs ! 2)
          else if verb = ''GET'' \<and> length segs = 3 \<and> take 2 segs = [''ws'', ''viewer''] then ViewerSocket (segs ! 2)
          else OtherRoute)"

text \<open>
  The relay as the HTTP server of the runner's client, and as the WebSocket server it dials (a
  handshake is a GET), within its rate limits. What the other routes answer is an argument.
\<close>

definition relay_http ::
  "portal_config \<Rightarrow> encoder \<Rightarrow> (bytes \<Rightarrow> json option) \<Rightarrow> int \<Rightarrow> int \<Rightarrow> (int \<Rightarrow> string) \<Rightarrow> (http_request \<Rightarrow> http_result)
   \<Rightarrow> store \<Rightarrow> http_request \<Rightarrow> http_result" where
  "relay_http cfg jenc jdec now later line other st rq =
     (case route (rq_method rq) (rq_url rq) of
        CreateRoute \<Rightarrow>
          (case fst (post_sessions cfg jenc jdec now later (rq_body rq) st) of (code, body) \<Rightarrow> HttpResp code (line code) body)
      | MethodNotAllowed \<Rightarrow> HttpResp 405 (line 405) (error_json jenc ''method not allowed; use POST'')
      | _ \<Rightarrow> other rq)"

text \<open>The store after a request.\<close>

definition relay_store ::
  "portal_config \<Rightarrow> encoder \<Rightarrow> (bytes \<Rightarrow> json option) \<Rightarrow> int \<Rightarrow> int \<Rightarrow> store \<Rightarrow> http_request \<Rightarrow> store" where
  "relay_store cfg jenc jdec now later st rq =
     (if route (rq_method rq) (rq_url rq) = CreateRoute
      then snd (post_sessions cfg jenc jdec now later (rq_body rq) st) else st)"

definition relay_dial :: "(ws_request \<Rightarrow> ws_dial) \<Rightarrow> store \<Rightarrow> ws_request \<Rightarrow> ws_dial" where
  "relay_dial other st rq =
     (case route ''GET'' (ws_url rq) of
        RunnerSocket sid \<Rightarrow>
          (case upgrade_runner False sid (map snd (filter (\<lambda>(k, v). k = ''Authorization'') (ws_headers rq))) st of
             Upgrade _ _ \<Rightarrow> WsConn
           | Reject code \<Rightarrow> WsError (Some code))
      | _ \<Rightarrow> other rq)"

subsection \<open>The runner's addresses reach their routes\<close>

text \<open>An address of a relay that is not mounted below a path.\<close>

definition root_address :: "URL \<Rightarrow> bool" where
  "root_address u \<longleftrightarrow> plain_url u \<and> u_path u \<in> {[], ''/''} \<and> u_fragment u = []"

abbreviation query_of :: "URL \<Rightarrow> string" where
  "query_of u \<equiv> (if u_rawQuery u \<noteq> [] then ''?'' @ u_rawQuery u else [])"

lemma plain_url_path: "plain_url u \<Longrightarrow> plain_url (u\<lparr>u_path := p\<rparr>)"
  by (simp add: plain_url_def)

lemma create_address:
  assumes "root_address (base c)"
  shows "rq_url (create_request c sid tok ttl opts) = url_string ((base c)\<lparr>u_path := ''/api/sessions''\<rparr>)"
proof -
  let ?u = "base c"
  have u: "u_scheme ?u \<noteq> []" "u_opaque ?u = []" "u_user ?u = None" "u_rawPath ?u = []" "u_host ?u \<noteq> []" "u_fragment ?u = []"
    using assms by (auto simp: root_address_def plain_url_def plain_host_def)
  have api: "escape encodePath ''/api/sessions'' = ''/api/sessions''" "escape encodePath ''api/sessions'' = ''api/sessions''"
    by (rule escape_safe, simp add: shouldEscape_def alnum_def lower_letters_def)+
  have eq: "url_string (?u\<lparr>u_path := ''api/sessions''\<rparr>) = url_string (?u\<lparr>u_path := ''/api/sessions''\<rparr>)"
    using u api by (simp add: url_string_def url_request_part_def authority_string_def EscapedPath_def Let_def)
  consider "u_path ?u = []" | "u_path ?u = ''/''" using assms by (auto simp: root_address_def)
  then show ?thesis
  proof cases
    case 1
    with JoinPath_api [OF u(4), of "[]"] eq show ?thesis
      by (simp add: create_request_def path_of_def clean_segments_def)
  next
    case 2
    have j: "path_join [''/'', ''api'', ''sessions''] = ''/api/sessions''" by code_simp
    have e: "EscapedPath ?u = ''/''" using 2 u(4) escape_slash [of "[]"] by (simp add: EscapedPath_def)
    have "setPath ''/api/sessions'' ?u = Some (?u\<lparr>u_path := ''/api/sessions''\<rparr>)"
      using setPath_escape [of "''/api/sessions''" ?u] api(1) u(4) by simp
    with e j show ?thesis by (simp add: create_request_def JoinPath_def Let_def)
  qed
qed

text \<open>The path of a printed address.\<close>

lemma request_path_string:
  assumes "plain_url u" "u_fragment u = []" "sch \<in> {''http'', ''https'', ''ws'', ''wss''}"
  shows "request_path (url_string (u\<lparr>u_scheme := sch, u_path := CHR ''/'' # p\<rparr>)) = escape encodePath (CHR ''/'' # p)"
proof -
  have u: "u_opaque u = []" "u_user u = None" "u_rawPath u = []" "\<not> u_forceQuery u" "u_host u \<noteq> []"
    "escape encodeHost (u_host u) = u_host u"
    using assms(1) by (auto simp: plain_url_def plain_host_def escape_safe)
  have "url_string (u\<lparr>u_scheme := sch, u_path := CHR ''/'' # p\<rparr>)
      = sch @ ''://'' @ u_host u @ escape encodePath (CHR ''/'' # p) @ query_of u"
    using u assms(2,3)
    by (auto simp: url_string_def url_request_part_def authority_string_def EscapedPath_def escape_slash Let_def)
  moreover have "dropWhile (\<lambda>c. c \<noteq> CHR '':'') (sch @ ''://'' @ rest) = ''://'' @ rest" for rest
    using assms(3) by auto
  moreover have "CHR ''/'' \<notin> set (u_host u)" "CHR ''?'' \<notin> set (escape encodePath (CHR ''/'' # p))"
    using plain_host_chars [of "u_host u" "CHR ''/''"] assms(1) escaped_chars(3) [of encodePath]
      escape_avoids [of encodePath "CHR ''?''"] by (auto simp: plain_url_def)
  moreover have "dropWhile (\<lambda>c. c \<noteq> CHR ''/'') (h @ escape encodePath (CHR ''/'' # p) @ r) = escape encodePath (CHR ''/'' # p) @ r"
    if "CHR ''/'' \<notin> set h" for h r
    using that by (induction h) (auto simp: escape_slash)
  moreover have "before CHR ''?'' (x @ query_of u) = x" if "CHR ''?'' \<notin> set x" for x
    using that cut_simps(1) [of "CHR ''?''" x "u_rawQuery u"] cut_simps(3) [of "CHR ''?''" x] by simp
  ultimately show ?thesis by (simp add: request_path_def)
qed

lemma split_on_path: "list_all (\<lambda>x. CHR ''/'' \<notin> set x) segs \<Longrightarrow> split_on CHR ''/'' (path_of segs) = [] # segs"
  using split_on_segments [of segs "[]"] by (simp add: path_of_def list_all_iff)

lemma path_info_safe:
  assumes "list_all (\<lambda>x. x \<noteq> [] \<and> CHR ''/'' \<notin> set x \<and> escape encodePath x = x) segs"
  shows "path_info (path_of segs) = Some segs"
proof -
  have "unescape encodePath x = Some x" if "x \<in> set segs" for x
    using that assms unescape_escape_path [of x] by (simp add: list_all_iff)
  then have m: "map (unescape encodePath) segs = map Some segs" by simp
  have t: "those (map Some xs) = Some xs" for xs :: "string list" by (induction xs) simp_all
  have f: "filter (\<lambda>x. x \<noteq> []) (split_on CHR ''/'' (path_of segs)) = segs"
    using split_on_path [of segs] assms by (simp add: list_all_iff)
  show ?thesis unfolding path_info_def f m by (rule t)
qed

lemma api_safe: "escape encodePath x = x" if "x \<in> {''api'', ''sessions'', ''ws'', ''runner''}"
  by (rule escape_safe) (use that in \<open>auto simp: shouldEscape_def alnum_def lower_letters_def\<close>)

lemma create_routed:
  assumes "root_address (base c)"
  shows "route (rq_method (create_request c sid tok ttl opts)) (rq_url (create_request c sid tok ttl opts)) = CreateRoute"
    and "url_parse (rq_url (create_request c sid tok ttl opts)) \<noteq> None"
proof -
  have u: "plain_url (base c)" "u_fragment (base c) = []" "u_scheme (base c) \<in> {''http'', ''https'', ''ws'', ''wss''}"
    using assms by (auto simp: root_address_def plain_url_def)
  have "request_path (url_string ((base c)\<lparr>u_path := ''/api/sessions''\<rparr>)) = path_of [''api'', ''sessions'']"
    using request_path_string [OF u, of "''api/sessions''"] api_safe [of "''api''"] api_safe [of "''sessions''"]
      escape_append [of encodePath "''/api''" "''/sessions''"] escape_slash by (simp add: path_of_def)
  moreover have "path_info (path_of [''api'', ''sessions'']) = Some [''api'', ''sessions'']"
    by (rule path_info_safe) (simp add: api_safe)
  ultimately show "route (rq_method (create_request c sid tok ttl opts)) (rq_url (create_request c sid tok ttl opts)) = CreateRoute"
    by (simp add: route_def create_address [OF assms]) (simp add: create_request_def)
  show "url_parse (rq_url (create_request c sid tok ttl opts)) \<noteq> None"
    using url_parse_string [OF plain_url_path [OF u(1)], of "''/api/sessions''"] by (simp add: create_address [OF assms])
qed

lemma dial_routed:
  assumes "root_address (base c)" "token_ok sid"
  shows "route ''GET'' (ws_url (dial_request c sid tok)) = RunnerSocket sid"
proof -
  let ?sch = "if u_scheme (base c) = ''https'' then ''wss'' else ''ws''"
  have u: "plain_url (base c)" "u_fragment (base c) = []" using assms by (auto simp: root_address_def)
  have safe: "list_all (\<lambda>x. \<not> shouldEscape m x) sid" for m
    using assms(2) base64url_safe by (auto simp: token_ok_def url_safe_def list_all_iff)
  have slash: "CHR ''/'' \<notin> set base64url_alphabet" by code_simp
  have sid: "sid \<noteq> []" "CHR ''/'' \<notin> set sid" "escape encodePath sid = sid"
    using assms(2) slash escape_safe [OF safe] by (auto simp: token_ok_def url_safe_def list_all_iff)
  have "list_all (\<lambda>x. \<not> shouldEscape encodePath x) ''/ws/runner/''"
    by (simp add: shouldEscape_def alnum_def lower_letters_def)
  then have esc: "escape encodePath (''/ws/runner/'' @ sid) = ''/ws/runner/'' @ sid"
    using safe [of encodePath] by (intro escape_safe) simp
  have "ws_url (dial_request c sid tok) = url_string ((base c)\<lparr>u_scheme := ?sch, u_path := ''/ws/runner/'' @ sid\<rparr>)"
    by (simp add: dial_request_def Let_def)
  moreover have "request_path (url_string ((base c)\<lparr>u_scheme := ?sch, u_path := ''/ws/runner/'' @ sid\<rparr>)) = path_of [''ws'', ''runner'', sid]"
    using request_path_string [OF u, of ?sch "''ws/runner/'' @ sid"] esc by (simp add: path_of_def)
  moreover have "path_info (path_of [''ws'', ''runner'', sid]) = Some [''ws'', ''runner'', sid]"
    by (rule path_info_safe) (simp add: api_safe sid)
  ultimately show ?thesis by (simp add: route_def)
qed

text \<open>
  C37: The runner's create request and the relay agree. For a relay address without a path of its own
  (with or without the slash), and for an id and a token as the runner draws them, the request
  reaches the route that creates sessions; a relay below its session limit whose store has no
  session with that id, or one with that token, answers so that \<^verbatim>\<open>CreateSession\<close> returns
  exactly that id and token, with the relay's expiry: none when the bounded lifetime is none, a
  deadline after it otherwise, the old deadline when the session was there. The runner's dial then
  reaches the route of its own session, and is accepted.
\<close>

theorem create_session_agrees:
  assumes "root_address (base c)" "token_ok sid" "token_ok tok" "length st < pc_max_sessions cfg"
    and "case map_of st sid of None \<Rightarrow> True | Some s \<Rightarrow> ss_runner_token s = tok"
    and "jason_law jenc" "jdec (create_body sid tok ttl opts) = parse_json (create_body sid tok ttl opts)"
    and "ex = (case map_of st sid of None \<Rightarrow> expiry_at later (clamp_ttl cfg (Some (seconds_int ttl)))
               | Some s \<Rightarrow> ss_expires_at s)"
    and "- (2 ^ 63) \<le> ex" "ex < 2 ^ 63"
  shows "CreateSessionWithOptions c (relay_http cfg jenc jdec now later line other st) sid tok ttl opts
      = Inr \<lparr>ID = sid, RunnerToken = tok, ExpiresAt = ex\<rparr>
    \<and> DialRunner c (relay_dial other_ws (relay_store cfg jenc jdec now later st (create_request c sid tok ttl opts))) sid tok
      = Inr ()"
proof -
  note tk = assms(2,3) and routed = create_routed [OF assms(1), of sid tok ttl opts]
  have post: "post_sessions cfg jenc jdec now later (create_body sid tok ttl opts) st
      = create_session cfg jenc now later sid tok (Some (seconds_int ttl)) (MultiViewer opts) st"
    by (simp add: post_sessions_def assms(7) parse_create_body [OF tk] create_action_request [OF tk, simplified])
  have body: "rq_body (create_request c sid tok ttl opts) = create_body sid tok ttl opts"
    by (simp add: create_request_def)
  have asc: "ascii sid" "ascii tok" using tk token_ascii by (auto simp: token_ok_def)
  have ne: "sid \<noteq> []" "tok \<noteq> []" using tk by (auto simp: token_ok_def)
  let ?txt = "jenc [(''id'', JStr sid), (''runner_token'', JStr tok), (''expires_at'', JNum (show_int ex))]"
  obtain st' s where made: "create_session cfg jenc now later sid tok (Some (seconds_int ttl)) (MultiViewer opts) st = ((201, ?txt), st')"
      "map_of st' sid = Some s" "ss_runner_token s = tok"
    using assms(4,5,8)
    by (cases "map_of st sid")
      (auto simp: create_session_def create_or_attach_def Let_def valid_runner_token_def session_init_def)
  have "CreateSessionWithOptions c (relay_http cfg jenc jdec now later line other st) sid tok ttl opts
      = Inr \<lparr>ID = sid, RunnerToken = tok, ExpiresAt = ex\<rparr>"
    using routed decode_created [OF assms(6) asc assms(9,10)] ne
    by (simp add: CreateSessionWithOptions_def relay_http_def body post made Let_def)
  moreover have "relay_store cfg jenc jdec now later st (create_request c sid tok ttl opts) = st'"
    using routed(1) by (simp add: relay_store_def body post made)
  moreover have "DialRunner c (relay_dial other_ws st') sid tok = Inr ()"
    using made(2,3) dial_routed [OF assms(1,2), of tok]
    by (simp add: DialRunner_def relay_dial_def upgrade_runner_def authorize_runner_def valid_runner_token_def)
      (simp add: dial_request_def valid_runner_token_def Let_def)
  ultimately show ?thesis by simp
qed

definition ex_portal_config :: portal_config where
  "ex_portal_config = \<lparr>pc_default_ttl = 0, pc_max_ttl = Some 3600, pc_idle_ms = 600000, pc_max_viewers = 16, pc_max_sessions = 2000\<rparr>"

lemma token_ok_replicate: "c \<in> set base64url_alphabet \<Longrightarrow> token_ok (replicate 22 c)"
  by (simp add: token_ok_def list_all_iff url_safe_def)

lemma root_ex_relay: "root_address (base ex_relay)"
proof -
  have "plain_host ''onlytty.com''" by code_simp
  then show ?thesis by (simp add: root_address_def plain_url_def ex_relay_def zero_url_def)
qed

theorem create_session_agrees_witness:
  "CreateSessionWithOptions ex_relay
     (relay_http ex_portal_config marshal_obj parse_json 5000 5001 (\<lambda>_. ''201 Created'') (\<lambda>_. HttpErr []) [])
     (replicate 22 (CHR ''A'')) (replicate 22 (CHR ''B'')) 0 \<lparr>MultiViewer = True\<rparr>
   = Inr \<lparr>ID = replicate 22 (CHR ''A''), RunnerToken = replicate 22 (CHR ''B''), ExpiresAt = 3605\<rparr>"
proof -
  have t: "token_ok (replicate 22 (CHR ''A''))" "token_ok (replicate 22 (CHR ''B''))"
    by (rule token_ok_replicate; simp add: base64url_alphabet_def)+
  have "seconds_int 0 = 0" by (simp add: seconds_int_def Seconds_def fl_add_def fl_trunc_def)
  then have e: "expiry_at 5001 (clamp_ttl ex_portal_config (Some (seconds_int 0))) = 3605"
    by (simp add: expiry_at_def clamp_ttl_def cap_ttl_def ttl_ceiling_def ex_portal_config_def hard_max_ttl_def Let_def)
  have m: "length ([] :: store) < pc_max_sessions ex_portal_config" by (simp add: ex_portal_config_def)
  show ?thesis
    by (rule conjunct1 [OF create_session_agrees [where jdec = parse_json, OF root_ex_relay t m _ jason_law_marshal refl]])
      (simp_all only: map_of.simps option.case e, simp_all)
qed

text \<open>
  With a path in the address the request keeps it, and a relay that is not mounted there has no
  route for it.
\<close>

lemma prefixed_create_misses:
  "route ''POST'' (rq_url (create_request ex_prefixed sid tok ttl opts)) = OtherRoute"
proof -
  have "route ''POST'' (url_string (JoinPath (base ex_prefixed) [''api'', ''sessions''])) = OtherRoute" by code_simp
  then show ?thesis by (simp add: create_request_def)
qed

text \<open>
  C38: A session lives as long as it was promised. For a new session without a lifetime there is no
  timer and the answered expiry is 0. Otherwise the session's own expiry and its timer are the
  lifetime after the moment it started, and the answer, which is computed from a second reading of
  the clock, is never earlier than that expiry and later by exactly the seconds begun between the
  two readings - none within a second. With an operator's limit every session expires, no later than
  the limit and a century, whatever was asked for; without one, a request for no expiry is granted
  and a positive one is at least a minute.
\<close>

theorem session_expiry_bounded:
  assumes "\<And>m. pc_max_ttl cfg = Some m \<Longrightarrow> 0 < m" "now \<le> later"
    and "map_of st sid = None" "create_or_attach cfg now later sid tok req lock st = (StoreOk i t ex, st')"
  shows "\<exists>s ttl. st' = (sid, s) # st \<and> 0 \<le> ttl \<and> ttl \<le> hard_max_ttl
    \<and> (ttl = 0 \<longrightarrow> ex = 0 \<and> ss_expires_at s = 0 \<and> ss_ttl_timer s = None)
    \<and> (ttl \<noteq> 0 \<longrightarrow> ss_expires_at s = now div 1000 + ttl \<and> ss_ttl_timer s = Some (now + ttl * 1000)
         \<and> ss_expires_at s \<le> ex \<and> ex - ss_expires_at s = later div 1000 - now div 1000)
    \<and> (case pc_max_ttl cfg of
         Some m \<Rightarrow> 0 < ttl \<and> ttl \<le> m
       | None \<Rightarrow> (\<forall>r. req = Some r \<longrightarrow> (if r \<le> 0 then ttl = 0 else min_ttl \<le> ttl)))"
proof -
  note b = cap_ttl_bounds [of cfg, OF assms(1)]
  let ?ttl = "clamp_ttl cfg req"
  let ?s = "session_init now sid tok ?ttl (pc_idle_ms cfg) (pc_max_viewers cfg) lock"
  have r: "0 \<le> ?ttl" "?ttl \<le> ttl_ceiling cfg" "?ttl \<le> hard_max_ttl"
    using b(2-4) order_trans [OF b(4) b(2)] by (auto simp: clamp_ttl_def Let_def)
  have s: "st' = (sid, ?s) # st" "ex = expiry_at later ?ttl"
    using assms(3,4) by (auto simp: create_or_attach_def Let_def split: if_splits)
  have lim: "0 < ?ttl \<and> ?ttl \<le> m" if "pc_max_ttl cfg = Some m" for m
  proof -
    have "?ttl \<noteq> 0" using b(5) that by (auto simp: clamp_ttl_def Let_def)
    with r that show ?thesis by (simp add: ttl_ceiling_def)
  qed
  have free: "if q \<le> 0 then ?ttl = 0 else min_ttl \<le> ?ttl" if "pc_max_ttl cfg = None" "req = Some q" for q
    using that by (simp add: clamp_ttl_def cap_ttl_def ttl_ceiling_def min_ttl_def hard_max_ttl_def Let_def)
  have "now div 1000 \<le> later div 1000" using assms(2) by (intro zdiv_mono1) simp_all
  then have "?ttl = 0 \<longrightarrow> ex = 0 \<and> ss_expires_at ?s = 0 \<and> ss_ttl_timer ?s = None"
    "?ttl \<noteq> 0 \<longrightarrow> ss_expires_at ?s = now div 1000 + ?ttl \<and> ss_ttl_timer ?s = Some (now + ?ttl * 1000)
         \<and> ss_expires_at ?s \<le> ex \<and> ex - ss_expires_at ?s = later div 1000 - now div 1000"
    using r(1) s(2) by (simp_all add: session_init_def expiry_at_def Let_def)
  then show ?thesis using r lim free s by (intro exI [where x = ?s] exI [where x = ?ttl]) (auto split: option.split)
qed

text \<open>Started at the end of a second and answered in the next, the answer is a second late.\<close>

theorem session_expiry_bounded_witness:
  "\<exists>s ttl ex. 0 < ttl \<and> ttl \<le> 3600 \<and> ss_ttl_timer s = Some (5999 + ttl * 1000) \<and> ex = ss_expires_at s + 1
     \<and> create_or_attach ex_portal_config 5999 6001 ''id'' ''tok'' (Some 0) True [] = (StoreOk ''id'' ''tok'' ex, [(''id'', s)])"
proof -
  obtain ex st' where c: "create_or_attach ex_portal_config 5999 6001 ''id'' ''tok'' (Some 0) True [] = (StoreOk ''id'' ''tok'' ex, st')"
    by (simp add: create_or_attach_def ex_portal_config_def Let_def)
  have "0 < m" if "pc_max_ttl ex_portal_config = Some m" for m using that by (simp add: ex_portal_config_def)
  from session_expiry_bounded [OF this _ _ c] obtain s ttl where
    "st' = [(''id'', s)]" "ttl \<noteq> 0 \<longrightarrow> ss_ttl_timer s = Some (5999 + ttl * 1000) \<and> ex - ss_expires_at s = 1" "0 < ttl \<and> ttl \<le> 3600"
    by (auto simp: ex_portal_config_def)
  with c show ?thesis by (intro exI [where x = s] exI [where x = ttl] exI [where x = ex]) simp
qed

text \<open>
  C14: Nobody else takes a session over. No create request, with any body at any time, changes or
  removes a session that is there: its token, expiry, runner and viewers stay. A runner's socket is
  admitted to a session only with that session's token in the one authorization header.
\<close>

theorem session_not_taken_over:
  assumes "map_of st sid = Some s"
  shows "map_of (snd (post_sessions cfg jenc jdec now later body st)) sid = Some s
    \<and> (upgrade_runner throttled sid auth st = Upgrade s' r \<longleftrightarrow>
         \<not> throttled \<and> s' = s \<and> r = Runner \<and> auth = [''Bearer '' @ ss_runner_token s])"
proof
  have "map_of (snd (create_session cfg jenc now later i t ttl multi st)) sid = Some s" for i t ttl multi
    using assms
    by (auto simp: create_session_def create_or_attach_def Let_def split: option.splits store_reply.splits prod.splits if_splits)
  then have "map_of (snd (create_action cfg jenc now later ms st)) sid = Some s" for ms
    using assms by (simp add: create_action_def Let_def split: sum.split)
  then show "map_of (snd (post_sessions cfg jenc jdec now later body st)) sid = Some s"
    using assms by (simp add: post_sessions_def split: option.split json.split)
  have "take 7 h = ''Bearer '' \<and> drop 7 h = t \<longleftrightarrow> h = ''Bearer '' @ t" for h t :: string
  proof
    assume "take 7 h = ''Bearer '' \<and> drop 7 h = t"
    then show "h = ''Bearer '' @ t" using append_take_drop_id [of 7 h] by metis
  qed simp
  then show "upgrade_runner throttled sid auth st = Upgrade s' r \<longleftrightarrow>
      \<not> throttled \<and> s' = s \<and> r = Runner \<and> auth = [''Bearer '' @ ss_runner_token s]"
    using assms by (auto simp: upgrade_runner_def authorize_runner_def valid_runner_token_def split: list.splits)
qed

definition ex_store :: store where
  "ex_store = [(''id'', session_init 0 ''id'' ''tok'' 0 600000 16 True)]"

theorem session_not_taken_over_witness:
  "upgrade_runner False ''id'' [''Bearer guess''] ex_store
     \<noteq> Upgrade (session_init 0 ''id'' ''tok'' 0 600000 16 True) Runner"
proof -
  have "map_of ex_store ''id'' = Some (session_init 0 ''id'' ''tok'' 0 600000 16 True)" by (simp add: ex_store_def)
  from session_not_taken_over [OF this] show ?thesis by (simp add: session_init_def Let_def)
qed

subsection \<open>The rate limit\<close>

text \<open>Requests and sweeps in the order they happen; the log has one decision per request.\<close>

datatype 'k rate_event = Request 'k int | Sweep int

primrec event_time :: "'k rate_event \<Rightarrow> int" where
  "event_time (Request k now) = now"
| "event_time (Sweep now) = now"

fun rate_run ::
  "nat option \<Rightarrow> int \<Rightarrow> 'k rate_event list \<Rightarrow> ('k \<times> int \<Rightarrow> nat) \<Rightarrow> (('k \<times> int) \<times> bool) list" where
  "rate_run mx window [] tab = []"
| "rate_run mx window (Request k now # es) tab =
     (case rate_check mx window now k tab of
        (r, tab') \<Rightarrow> ((k, now div window), r = Inr ()) # rate_run mx window es tab')"
| "rate_run mx window (Sweep now # es) tab = rate_run mx window es (rate_sweep window now tab)"

definition admitted :: "'k \<times> int \<Rightarrow> (('k \<times> int) \<times> bool) list \<Rightarrow> nat" where
  "admitted kb log = length (filter (\<lambda>(x, ok). x = kb \<and> ok) log)"

lemma admitted_past:
  assumes "\<forall>e\<in>set es. b < event_time e div window"
  shows "admitted (key, b) (rate_run mx window es tab) = 0"
  using assms
proof (induction es arbitrary: tab)
  case (Cons e es)
  then show ?case by (cases e) (auto simp: admitted_def split: prod.split)
qed (simp add: admitted_def)

lemma admitted_bound:
  assumes "sorted (map event_time es)" "0 < window"
  shows "admitted (key, b) (rate_run (Some m) window es tab) \<le> m - tab (key, b)"
  using assms
proof (induction es arbitrary: tab)
  case (Cons e es)
  show ?case
  proof (cases e)
    case (Request k now)
    define tab' where "tab' = tab((k, now div window) := tab (k, now div window) + 1)"
    have ih: "admitted (key, b) (rate_run (Some m) window es tab') \<le> m - tab' (key, b)"
      using Cons.IH Cons.prems by simp
    have "admitted (key, b) (rate_run (Some m) window (e # es) tab) =
        (if (k, now div window) = (key, b) \<and> tab (k, now div window) + 1 \<le> m then 1 else 0)
        + admitted (key, b) (rate_run (Some m) window es tab')"
      by (auto simp: Request rate_check_def Let_def admitted_def tab'_def)
    moreover have "tab' (key, b) = (if (k, now div window) = (key, b) then tab (key, b) + 1 else tab (key, b))"
      by (auto simp: tab'_def)
    ultimately show ?thesis using ih by (auto split: if_splits)
  next
    case (Sweep now)
    have "now div window \<le> event_time x div window" if "x \<in> set es" for x
      using Cons.prems that by (auto simp: Sweep intro: zdiv_mono1)
    then have "admitted (key, b) (rate_run (Some m) window es (rate_sweep window now tab)) = 0" if "b < now div window"
      using that by (intro admitted_past) force
    then show ?thesis
      using Cons.IH [of "rate_sweep window now tab"] Cons.prems
      by (cases "b < now div window") (auto simp: Sweep rate_sweep_def)
  qed
qed (simp add: admitted_def)

text \<open>
  The rate limit holds under sweeping. However requests of one client and others and the
  periodic sweeps of the table interleave, as long as the clock does not go back, no more than the
  configured number of that client's requests is admitted in one window.
\<close>

theorem rate_limit_holds:
  assumes "sorted (map event_time es)" "0 < window"
  shows "admitted (key, b) (rate_run (Some m) window es (\<lambda>_. 0)) \<le> m"
  using admitted_bound [OF assms, of key b m "\<lambda>_. 0"] by simp

theorem rate_limit_holds_witness:
  "admitted (''a'', 0) (rate_run (Some 1) 60 [Request ''a'' 1, Sweep 2, Request ''a'' 3, Request ''b'' 4] (\<lambda>_. 0)) \<le> 1"
  by (rule rate_limit_holds) simp_all

end
