(* ===== verification/Strings.thy ===== *)
theory Strings
  imports Url
begin

text \<open>
  What the command line tools use of Go's packages \<^verbatim>\<open>strings\<close> and \<^verbatim>\<open>strconv\<close>. A string is a
  list of bytes; the white space is Unicode's, in UTF-8. No UTF-8 sequence contains the first byte of another, so
  looking for these encodings at every byte finds the runes that \<^verbatim>\<open>unicode.IsSpace\<close> accepts.
\<close>

subsection \<open>Searching\<close>

definition HasPrefix :: "string \<Rightarrow> string \<Rightarrow> bool" where
  "HasPrefix s p \<longleftrightarrow> take (length p) s = p"

fun Contains :: "string \<Rightarrow> string \<Rightarrow> bool" where
  "Contains [] sub = (sub = [])"
| "Contains (c # s) sub = (HasPrefix (c # s) sub \<or> Contains s sub)"

text \<open>\<^verbatim>\<open>strings.Replace(s, old, new, 1)\<close>.\<close>

fun replace_first :: "string \<Rightarrow> string \<Rightarrow> string \<Rightarrow> string" where
  "replace_first [] old new = (if old = [] then new else [])"
| "replace_first (c # s) old new =
     (if HasPrefix (c # s) old then new @ drop (length old) (c # s) else c # replace_first s old new)"

lemma HasPrefix_append [simp]: "HasPrefix (p @ s) p"
  by (simp add: HasPrefix_def)

lemma HasPrefix_iff: "HasPrefix s p \<longleftrightarrow> (\<exists>r. s = p @ r)"
  by (metis HasPrefix_append HasPrefix_def append_take_drop_id)

lemma Contains_iff: "Contains s sub \<longleftrightarrow> (\<exists>a b. s = a @ sub @ b)"
proof (induction s)
  case (Cons c s)
  have "(\<exists>a b. c # s = a @ sub @ b) \<longleftrightarrow> (\<exists>b. c # s = sub @ b) \<or> (\<exists>a b. s = a @ sub @ b)"
    by (metis append_Cons append_Nil neq_Nil_conv list.inject)
  with Cons show ?case by (simp add: HasPrefix_iff)
qed simp

lemma Contains_right: "Contains s sub \<Longrightarrow> Contains (p @ s) sub"
  unfolding Contains_iff by (metis append_assoc)

lemma Contains_left: "Contains s sub \<Longrightarrow> Contains (s @ p) sub"
  unfolding Contains_iff by (metis append_assoc)

subsection \<open>White space\<close>

definition utf8_spaces :: "string list" where
  "utf8_spaces =
     [[CHR 0x09], [CHR 0x0A], [CHR 0x0B], [CHR 0x0C], [CHR 0x0D], [CHR 0x20], [CHR 0xC2, CHR 0x85],
      [CHR 0xC2, CHR 0xA0], [CHR 0xE1, CHR 0x9A, CHR 0x80], [CHR 0xE2, CHR 0x80, CHR 0xA8],
      [CHR 0xE2, CHR 0x80, CHR 0xA9], [CHR 0xE2, CHR 0x80, CHR 0xAF], [CHR 0xE2, CHR 0x81, CHR 0x9F],
      [CHR 0xE3, CHR 0x80, CHR 0x80]]
     @ map (\<lambda>n. [CHR 0xE2, CHR 0x80, char_of (0x80 + n)]) [0..<11]"

text \<open>The length of the white space a string starts with, or 0.\<close>

definition space_len :: "string list \<Rightarrow> string \<Rightarrow> nat" where
  "space_len spaces s =
     (case find (HasPrefix s) spaces of Some code \<Rightarrow> length code | None \<Rightarrow> 0)"

function trim_left :: "string list \<Rightarrow> string \<Rightarrow> string" where
  "trim_left spaces s =
     (if s = [] \<or> space_len spaces s = 0 then s else trim_left spaces (drop (space_len spaces s) s))"
  by auto
termination by (relation "measure (\<lambda>(_, s). length s)") auto

declare trim_left.simps [simp del]

definition TrimSpace :: "string \<Rightarrow> string" where
  "TrimSpace s = rev (trim_left (map rev utf8_spaces) (rev (trim_left utf8_spaces s)))"

text \<open>\<^verbatim>\<open>strings.Fields\<close>: the maximal runs without white space.\<close>

function fields_from :: "string \<Rightarrow> string \<Rightarrow> string list" where
  "fields_from acc s =
     (case s of
        [] \<Rightarrow> if acc = [] then [] else [acc]
      | c # r \<Rightarrow>
          if space_len utf8_spaces s = 0 then fields_from (acc @ [c]) r
          else (if acc = [] then id else (#) acc) (fields_from [] (drop (space_len utf8_spaces s) s)))"
  by auto
termination by (relation "measure (\<lambda>(_, s). length s)") auto

declare fields_from.simps [simp del]

definition Fields :: "string \<Rightarrow> string list" where
  "Fields s = fields_from [] s"

definition plain_chars :: string where
  "plain_chars = ''ABCDEFGHIJKLMNOPQRSTUVWXYZabcdefghijklmnopqrstuvwxyz0123456789:._-''"

lemma spaces_not_plain: "list_all (\<lambda>code. code \<noteq> [] \<and> hd code \<notin> set plain_chars) utf8_spaces"
  by code_simp

lemma space_len_plain: "c \<in> set plain_chars \<Longrightarrow> space_len utf8_spaces (c # s) = 0"
proof -
  assume c: "c \<in> set plain_chars"
  have "\<not> HasPrefix (c # s) code" if "code \<in> set utf8_spaces" for code
  proof -
    have "code \<noteq> []" "hd code \<noteq> c" using that c spaces_not_plain by (auto simp: list_all_iff)
    then show ?thesis by (cases code) (simp_all add: HasPrefix_def)
  qed
  then have "find (HasPrefix (c # s)) utf8_spaces = None" by (simp add: find_None_iff)
  then show ?thesis by (simp add: space_len_def)
qed

lemma space_len_blank [simp]:
  "space_len utf8_spaces (CHR '' '' # s) = 1" "space_len utf8_spaces (CHR 0x09 # s) = 1"
  by (simp_all add: space_len_def utf8_spaces_def HasPrefix_def)

text \<open>A word of plain characters is one field; blanks in front of the fields count for nothing.\<close>

abbreviation plain_word :: "string \<Rightarrow> bool" where
  "plain_word w \<equiv> set w \<subseteq> set plain_chars"

lemma fields_from_word: "plain_word w \<Longrightarrow> fields_from acc (w @ s) = fields_from (acc @ w) s"
proof (induction w arbitrary: acc)
  case (Cons c w)
  then show ?case by (subst fields_from.simps) (simp add: space_len_plain)
qed simp

lemma fields_from_blank:
  "b \<in> {CHR '' '', CHR 0x09} \<Longrightarrow> fields_from acc (b # s) = (if acc = [] then id else (#) acc) (fields_from [] s)"
  by (subst fields_from.simps) auto

lemma fields_from_blanks: "set bs \<subseteq> {CHR '' '', CHR 0x09} \<Longrightarrow> fields_from [] (bs @ s) = fields_from [] s"
  by (induction bs) (simp_all add: fields_from_blank)

lemma fields_from_end: "fields_from acc [] = (if acc = [] then [] else [acc])"
  by (simp add: fields_from.simps)

subsection \<open>Numbers\<close>

text \<open>
  \<^verbatim>\<open>strconv.Atoi\<close> in 64 bits: the number and whether it is one. Out of range it gives the
  nearest representable number, with an error.
\<close>

definition Atoi :: "string \<Rightarrow> int \<times> bool" where
  "Atoi s =
     (let neg = HasPrefix s ''-''; ds = (if neg \<or> HasPrefix s ''+'' then tl s else s)
      in if ds = [] \<or> \<not> list_all (\<lambda>c. c \<in> set dec_digits) ds then (0, False)
         else let v = (if neg then - int (dec_value ds) else int (dec_value ds))
              in if v < - (2 ^ 63) then (- (2 ^ 63), False)
                 else if 2 ^ 63 \<le> v then (2 ^ 63 - 1, False) else (v, True))"

lemma dec_value_snoc: "dec_value (ds @ [d]) = 10 * dec_value ds + (of_char d - 48)"
  by (simp add: dec_value_def)

lemma digit_at:
  assumes "n < 10"
  shows "''0123456789'' ! n \<in> set dec_digits \<and> (of_char (''0123456789'' ! n) :: nat) - 48 = n"
proof -
  from assms have "n = 0 \<or> n = 1 \<or> n = 2 \<or> n = 3 \<or> n = 4 \<or> n = 5 \<or> n = 6 \<or> n = 7 \<or> n = 8 \<or> n = 9" by arith
  then show ?thesis by (elim disjE) (simp_all add: dec_digits_def)
qed

lemma show_nat_plain: "show_nat n \<noteq> [] \<and> set (show_nat n) \<subseteq> set dec_digits \<and> dec_value (show_nat n) = n"
proof (induction n rule: show_nat.induct)
  case (1 n)
  show ?case
  proof (cases "n < 10")
    case True
    then show ?thesis using digit_at by (simp add: dec_value_def show_nat.simps [of n])
  next
    case False
    with 1 have "show_nat (n div 10) \<noteq> []" "set (show_nat (n div 10)) \<subseteq> set dec_digits"
      "dec_value (show_nat (n div 10)) = n div 10" by auto
    with False digit_at [of "n mod 10"] show ?thesis
      by (simp add: show_nat.simps [of n] dec_value_snoc)
  qed
qed

lemma Atoi_show_nat: "n < 2 ^ 63 \<Longrightarrow> Atoi (show_nat n) = (int n, True)"
proof -
  assume n: "n < 2 ^ 63"
  obtain c r where s: "show_nat n = c # r" and c: "c \<in> set dec_digits"
    using show_nat_plain [of n] by (cases "show_nat n") auto
  have "\<not> HasPrefix (show_nat n) ''-''" "\<not> HasPrefix (show_nat n) ''+''"
    using c by (auto simp: s HasPrefix_def dec_digits_def)
  then show ?thesis
    using show_nat_plain [of n] n by (auto simp: Atoi_def list_all_iff Let_def)
qed

end
