(* ===== verification/Flags.thy ===== *)
theory Flags
  imports Cli Strings
begin

text \<open>
  The command line before \<^verbatim>\<open>run\<close> has its flags: the declarations in
  \<^verbatim>\<open>src/runner/cmd/onlytty/main.go\<close> and Go's \<^verbatim>\<open>flag.Parse\<close> on them, with
  \<^verbatim>\<open>strconv.ParseBool\<close> and \<^verbatim>\<open>time.ParseDuration\<close> for the values. A fraction in a duration goes
  through \<^verbatim>\<open>float64\<close>; a positive float is a pair of mantissa and binary exponent.
\<close>

subsection \<open>Durations\<close>

definition dig :: "char \<Rightarrow> bool" where
  "dig c \<longleftrightarrow> 48 \<le> (of_char c :: nat) \<and> (of_char c :: nat) \<le> 57"

definition dig_val :: "char \<Rightarrow> nat" where
  "dig_val c = of_char c - 48"

text \<open>\<^verbatim>\<open>leadingInt\<close>: the digits in front, \<open>None\<close> when they pass \<open>2 ^ 63\<close>.\<close>

fun leadingInt :: "nat \<Rightarrow> string \<Rightarrow> (nat \<times> string) option" where
  "leadingInt x [] = Some (x, [])"
| "leadingInt x (c # s) =
     (if \<not> dig c then Some (x, c # s)
      else if x > 2 ^ 63 div 10 then None
      else let y = x * 10 + dig_val c in if y > 2 ^ 63 then None else leadingInt y s)"

text \<open>\<^verbatim>\<open>leadingFraction\<close>: digits beyond the precision are skipped; the scale is a power of ten.\<close>

fun leadingFraction :: "nat \<Rightarrow> nat \<Rightarrow> bool \<Rightarrow> string \<Rightarrow> nat \<times> nat \<times> string" where
  "leadingFraction x scale over [] = (x, scale, [])"
| "leadingFraction x scale over (c # s) =
     (if \<not> dig c then (x, scale, c # s)
      else if over \<or> x > (2 ^ 63 - 1) div 10 then leadingFraction x scale True s
      else let y = x * 10 + dig_val c in
        if y > 2 ^ 63 then leadingFraction x scale True s else leadingFraction y (scale * 10) False s)"

text \<open>The double nearest to the quotient of two positive integers, as mantissa and exponent.\<close>

definition fl_quot :: "nat \<Rightarrow> nat \<Rightarrow> nat \<times> int" where
  "fl_quot a b =
     (let k0 = 53 + int (bit_len b) - int (bit_len a);
          scaled = (\<lambda>k. (if k \<ge> 0 then a * 2 ^ nat k else a, if k \<ge> 0 then b else b * 2 ^ nat (- k)));
          k = (if fst (scaled (k0 - 1)) \<ge> 2 ^ 52 * snd (scaled (k0 - 1)) then k0 - 1 else k0)
      in (round_half_even (fst (scaled k)) (snd (scaled k)), - k))"

definition fl_mult :: "nat \<times> int \<Rightarrow> nat \<times> int \<Rightarrow> nat \<times> int" where
  "fl_mult x y =
     (case fl_quot (fst x * fst y) 1 of (m, ex) \<Rightarrow> (m, ex + snd x + snd y))"

definition fl_floor :: "nat \<times> int \<Rightarrow> nat" where
  "fl_floor x = (if snd x \<ge> 0 then fst x * 2 ^ nat (snd x) else fst x div 2 ^ nat (- snd x))"

definition fraction_ns :: "nat \<Rightarrow> nat \<Rightarrow> nat \<Rightarrow> nat" where
  "fraction_ns f unit scale = fl_floor (fl_mult (fl_quot f 1) (fl_quot unit scale))"

definition unitMap :: "string \<Rightarrow> nat option" where
  "unitMap = map_of
     [(''ns'', 1), (''us'', 10 ^ 3), ([CHR 0xC2, CHR 0xB5, CHR ''s''], 10 ^ 3),
      ([CHR 0xCE, CHR 0xBC, CHR ''s''], 10 ^ 3), (''ms'', 10 ^ 6), (''s'', 10 ^ 9),
      (''m'', 60 * 10 ^ 9), (''h'', 3600 * 10 ^ 9)]"

text \<open>One number with its unit: its nanoseconds and the rest of the string.\<close>

definition duration_term :: "string \<Rightarrow> (nat \<times> string) option" where
  "duration_term s =
     (if s = [] \<or> \<not> (hd s = CHR ''.'' \<or> dig (hd s)) then None
      else case leadingInt 0 s of None \<Rightarrow> None | Some (v, s1) \<Rightarrow>
        (let pre = (length s1 \<noteq> length s);
             (f, scale, s2) = (if s1 \<noteq> [] \<and> hd s1 = CHR ''.'' then leadingFraction 0 1 False (tl s1) else (0, 1, s1));
             post = (s1 \<noteq> [] \<and> hd s1 = CHR ''.'' \<and> length s2 \<noteq> length (tl s1));
             u = takeWhile (\<lambda>c. \<not> (c = CHR ''.'' \<or> dig c)) s2;
             rest = dropWhile (\<lambda>c. \<not> (c = CHR ''.'' \<or> dig c)) s2
         in if \<not> pre \<and> \<not> post \<or> u = [] then None
            else case unitMap u of None \<Rightarrow> None | Some unit \<Rightarrow>
              if v > 2 ^ 63 div unit then None
              else let n = v * unit + (if f > 0 then fraction_ns f unit scale else 0)
                in if f > 0 \<and> n > 2 ^ 63 then None else Some (n, rest)))"

text \<open>The loop of \<^verbatim>\<open>ParseDuration\<close>; every turn consumes a character, so the length bounds it.\<close>

primrec duration_terms :: "nat \<Rightarrow> nat \<Rightarrow> string \<Rightarrow> nat option" where
  "duration_terms 0 d s = (if s = [] then Some d else None)"
| "duration_terms (Suc k) d s =
     (if s = [] then Some d
      else case duration_term s of
        None \<Rightarrow> None
      | Some (n, rest) \<Rightarrow> if d + n > 2 ^ 63 then None else duration_terms k (d + n) rest)"

definition ParseDuration :: "string \<Rightarrow> int option" where
  "ParseDuration orig =
     (let neg = (orig \<noteq> [] \<and> hd orig = CHR ''-'');
          s = (if orig \<noteq> [] \<and> (hd orig = CHR ''-'' \<or> hd orig = CHR ''+'') then tl orig else orig)
      in if s = ''0'' then Some 0
         else if s = [] then None
         else case duration_terms (length s) 0 s of
           None \<Rightarrow> None
         | Some d \<Rightarrow> if neg then Some (- int d) else if d > 2 ^ 63 - 1 then None else Some (int d))"

definition ParseBool :: "string \<Rightarrow> bool option" where
  "ParseBool s =
     (if s \<in> set [''1'', ''t'', ''T'', ''true'', ''TRUE'', ''True''] then Some True
      else if s \<in> set [''0'', ''f'', ''F'', ''false'', ''FALSE'', ''False''] then Some False
      else None)"

subsection \<open>The flag set\<close>

datatype flag_setter =
    StringFlag "string \<Rightarrow> flags \<Rightarrow> flags"
  | BoolFlag "bool \<Rightarrow> flags \<Rightarrow> flags"
  | DurationFlag "int \<Rightarrow> flags \<Rightarrow> flags"

definition default_flags :: "(string \<Rightarrow> string) \<Rightarrow> flags" where
  "default_flags getenv =
     \<lparr>f_server = envOr getenv ''ONLYTTY_SERVER'' defaultPublicRelay, f_control = ''auto'', f_multiViewer = False,
      f_ttl = 0, f_withPass = False, f_genPass = False, f_noQR = False, f_allowInsecure = False,
      f_verbose = False, f_showVer = False, f_args = []\<rparr>"

definition formal :: "string \<Rightarrow> flag_setter option" where
  "formal = map_of
     [(''server'', StringFlag (\<lambda>v f. f\<lparr>f_server := v\<rparr>)),
      (''control'', StringFlag (\<lambda>v f. f\<lparr>f_control := v\<rparr>)),
      (''multi-viewer'', BoolFlag (\<lambda>v f. f\<lparr>f_multiViewer := v\<rparr>)),
      (''ttl'', DurationFlag (\<lambda>v f. f\<lparr>f_ttl := v\<rparr>)),
      (''passphrase'', BoolFlag (\<lambda>v f. f\<lparr>f_withPass := v\<rparr>)),
      (''passphrase-generate'', BoolFlag (\<lambda>v f. f\<lparr>f_genPass := v\<rparr>)),
      (''no-qr'', BoolFlag (\<lambda>v f. f\<lparr>f_noQR := v\<rparr>)),
      (''allow-insecure'', BoolFlag (\<lambda>v f. f\<lparr>f_allowInsecure := v\<rparr>)),
      (''verbose'', BoolFlag (\<lambda>v f. f\<lparr>f_verbose := v\<rparr>)),
      (''version'', BoolFlag (\<lambda>v f. f\<lparr>f_showVer := v\<rparr>))]"

datatype flag_error = BadSyntax string | NotDefined string | NeedsArgument string | InvalidValue string string | ErrHelp

definition is_bool_flag :: "flag_setter \<Rightarrow> bool" where
  "is_bool_flag fl = (case fl of BoolFlag _ \<Rightarrow> True | _ \<Rightarrow> False)"

definition set_flag :: "flag_setter \<Rightarrow> string \<Rightarrow> flags \<Rightarrow> flags option" where
  "set_flag fl value f =
     (case fl of
        StringFlag g \<Rightarrow> Some (g value f)
      | BoolFlag g \<Rightarrow> map_option (\<lambda>b. g b f) (ParseBool value)
      | DurationFlag g \<Rightarrow> map_option (\<lambda>d. g d f) (ParseDuration value))"

text \<open>The name and the value after the first equals sign, which is not the first character.\<close>

definition split_value :: "string \<Rightarrow> string \<times> string option" where
  "split_value name =
     (let pre = takeWhile (\<lambda>c. c \<noteq> CHR ''='') (tl name); post = dropWhile (\<lambda>c. c \<noteq> CHR ''='') (tl name)
      in if post = [] then (name, None) else (hd name # pre, Some (tl post)))"

text \<open>\<^verbatim>\<open>parseOne\<close>: \<open>Inr None\<close> when the flags are over, with what is left of the arguments.\<close>

definition flag_value :: "flag_setter \<Rightarrow> string option \<Rightarrow> string list \<Rightarrow> string option \<times> string list" where
  "flag_value fl value rest =
     (case value of
        Some v \<Rightarrow> (Some v, rest)
      | None \<Rightarrow>
          (if is_bool_flag fl then (Some ''true'', rest)
           else (case rest of [] \<Rightarrow> (None, []) | v # r \<Rightarrow> (Some v, r))))"

definition apply_flag :: "string \<Rightarrow> string option \<Rightarrow> string list \<Rightarrow> flags \<Rightarrow> flag_error + (string list \<times> flags option)" where
  "apply_flag n value rest f =
     (case formal n of
        None \<Rightarrow> (if n = ''help'' \<or> n = ''h'' then Inl ErrHelp else Inl (NotDefined n))
      | Some fl \<Rightarrow>
          (case flag_value fl value rest of
             (None, _) \<Rightarrow> Inl (NeedsArgument n)
           | (Some v, rest') \<Rightarrow>
               (case set_flag fl v f of None \<Rightarrow> Inl (InvalidValue v n) | Some f' \<Rightarrow> Inr (rest', Some f'))))"

definition parseOne :: "string list \<Rightarrow> flags \<Rightarrow> flag_error + (string list \<times> flags option)" where
  "parseOne args f =
     (case args of
        [] \<Rightarrow> Inr ([], None)
      | s # rest \<Rightarrow>
          (if length s < 2 \<or> s ! 0 \<noteq> CHR ''-'' then Inr (s # rest, None)
           else if s = ''--'' then Inr (rest, None)
           else
             (let name = (if s ! 1 = CHR ''-'' then drop 2 s else drop 1 s)
              in if name = [] \<or> hd name = CHR ''-'' \<or> hd name = CHR ''='' then Inl (BadSyntax s)
                 else (case split_value name of (n, value) \<Rightarrow> apply_flag n value rest f))))"

lemma parseOne_shorter: "parseOne args f = Inr (rest, Some f') \<Longrightarrow> length rest < length args"
  by (auto simp: parseOne_def apply_flag_def flag_value_def Let_def split: list.splits if_splits prod.splits option.splits)

function parse_flags :: "string list \<Rightarrow> flags \<Rightarrow> flag_error + flags" where
  "parse_flags args f =
     (case parseOne args f of
        Inl e \<Rightarrow> Inl e
      | Inr (rest, None) \<Rightarrow> Inr (f\<lparr>f_args := rest\<rparr>)
      | Inr (rest, Some f') \<Rightarrow> parse_flags rest f')"
  by pat_completeness auto
termination
  by (relation "measure (\<lambda>(args, f). length args)") (auto dest: parseOne_shorter)

declare parse_flags.simps [simp del]

text \<open>\<^verbatim>\<open>flag.CommandLine\<close> exits on an error: 0 for help, 2 otherwise; then \<^verbatim>\<open>run\<close>.\<close>

definition run_main :: "string list \<Rightarrow> world \<Rightarrow> outcome" where
  "run_main argv w =
     (case parse_flags argv (default_flags (w_getenv w)) of
        Inl ErrHelp \<Rightarrow> Exit 0 (usage (w_getenv w))
      | Inl _ \<Rightarrow> Exit 2 []
      | Inr f \<Rightarrow> prepare f w)"

subsection \<open>Durations read back\<close>

lemma leadingInt_digits:
  assumes "list_all dig ds" "rest = [] \<or> \<not> dig (hd rest)" "foldl (\<lambda>a c. 10 * a + dig_val c) x ds \<le> 2 ^ 63"
  shows "leadingInt x (ds @ rest) = Some (foldl (\<lambda>a c. 10 * a + dig_val c) x ds, rest)"
  using assms
proof (induction ds arbitrary: x)
  case Nil
  then show ?case by (cases rest) auto
next
  case (Cons c ds)
  have grow: "y \<le> foldl (\<lambda>a c. 10 * a + dig_val c) y ds" for y
  proof (induction ds arbitrary: y)
    case (Cons d ds)
    from Cons.IH [of "10 * y + dig_val d"] show ?case by simp
  qed simp
  let ?y = "10 * x + dig_val c"
  have y: "?y \<le> 2 ^ 63" using grow [of ?y] Cons.prems(3) by simp
  then have "x \<le> 2 ^ 63 div 10" by simp
  with Cons y show ?case by (simp add: Let_def mult.commute not_less)
qed

lemma show_nat_digits: "list_all dig (show_nat n) \<and> show_nat n \<noteq> [] \<and> foldl (\<lambda>a c. 10 * a + dig_val c) 0 (show_nat n) = n"
proof -
  have "dig c" if "c \<in> set dec_digits" for c
    using that by (auto simp: dec_digits_def dig_def)
  then show ?thesis
    using show_nat_plain [of n] by (auto simp: list_all_iff dec_value_def dig_val_def)
qed

lemma duration_term_ns:
  assumes "n \<le> 2 ^ 63"
  shows "duration_term (show_nat n @ ''ns'') = Some (n, [])"
proof -
  have l: "leadingInt 0 (show_nat n @ ''ns'') = Some (n, ''ns'')"
    using leadingInt_digits [of "show_nat n" "''ns''" 0] show_nat_digits [of n] assms by (simp add: dig_def)
  obtain c s where c: "show_nat n = c # s" "dig c" using show_nat_digits [of n] by (cases "show_nat n") auto
  have hd: "hd (show_nat n @ ''ns'') = c" "show_nat n @ ''ns'' \<noteq> []" by (simp_all add: c)
  show ?thesis
    using l assms c(2) unfolding duration_term_def hd by (simp add: hd(2) Let_def dig_def unitMap_def c(1))
qed

lemma ParseDuration_signed:
  assumes "s \<noteq> []" "dig (hd s)" "s \<noteq> ''0''" "duration_terms (length s) 0 s = Some d"
  shows "d < 2 ^ 63 \<Longrightarrow> ParseDuration s = Some (int d)" "ParseDuration (CHR ''-'' # s) = Some (- int d)"
proof -
  have "hd s \<noteq> CHR ''-''" "hd s \<noteq> CHR ''+''" using assms(2) by (auto simp: dig_def)
  with assms show "d < 2 ^ 63 \<Longrightarrow> ParseDuration s = Some (int d)" "ParseDuration (CHR ''-'' # s) = Some (- int d)"
    by (simp_all add: ParseDuration_def Let_def)
qed

lemma ParseDuration_ns:
  assumes "- (2 ^ 63) \<le> d" "d < 2 ^ 63"
  shows "ParseDuration (show_int d @ ''ns'') = Some d"
proof -
  define n where "n = nat \<bar>d\<bar>"
  define s where "s = show_nat n @ ''ns''"
  have n: "n \<le> 2 ^ 63" using assms by (simp add: n_def)
  have s: "s \<noteq> []" "dig (hd s)" "s \<noteq> ''0''"
    using show_nat_digits [of n] by (auto simp: s_def hd_append list_all_iff append_eq_Cons_conv)
  have "duration_terms (Suc (length (show_nat n) + 1)) 0 s = Some n"
    using duration_term_ns [OF n] n s(1) unfolding duration_terms.simps by (simp add: s_def)
  then have t: "duration_terms (length s) 0 s = Some n" by (simp add: s_def)
  have "show_int d @ ''ns'' = (if d < 0 then CHR ''-'' # s else s)" by (simp add: show_int_def s_def n_def)
  then show ?thesis
    using ParseDuration_signed [OF s t] assms by (simp add: n_def split: if_splits)
qed

subsection \<open>Flags read back\<close>

lemma split_value_eq: "n \<noteq> [] \<Longrightarrow> CHR ''='' \<notin> set n \<Longrightarrow> split_value (n @ ''='' @ v) = (n, Some v)"
proof (cases n)
  case (Cons c cs)
  assume "CHR ''='' \<notin> set n"
  with Cons have "\<forall>x\<in>set cs. x \<noteq> CHR ''=''" by auto
  with Cons show ?thesis by (simp add: split_value_def takeWhile_append dropWhile_append)
qed simp

lemma parse_flag_value:
  assumes "formal n = Some fl" "CHR ''='' \<notin> set n" "n \<noteq> []" "hd n \<noteq> CHR ''-''" "set_flag fl v f = Some f'"
  shows "parse_flags ((''-'' @ n @ ''='' @ v) # rest) f = parse_flags rest f'"
proof -
  obtain c cs where c: "n = c # cs" using assms(3) by (cases n) auto
  have "c \<noteq> CHR ''=''" using assms(2) c by auto
  then have "parseOne ((''-'' @ n @ ''='' @ v) # rest) f = Inr (rest, Some f')"
    using assms split_value_eq [OF assms(3,2), of v] by (simp add: parseOne_def apply_flag_def flag_value_def c Let_def)
  then show ?thesis by (subst parse_flags.simps) simp
qed

text \<open>A command line that spells every flag out.\<close>

definition show_bool :: "bool \<Rightarrow> string" where
  "show_bool b = (if b then ''true'' else ''false'')"

definition render_flags :: "flags \<Rightarrow> string list" where
  "render_flags f =
     [''-server='' @ f_server f, ''-control='' @ f_control f, ''-multi-viewer='' @ show_bool (f_multiViewer f),
      ''-ttl='' @ show_int (f_ttl f) @ ''ns'', ''-passphrase='' @ show_bool (f_withPass f),
      ''-passphrase-generate='' @ show_bool (f_genPass f), ''-no-qr='' @ show_bool (f_noQR f),
      ''-allow-insecure='' @ show_bool (f_allowInsecure f), ''-verbose='' @ show_bool (f_verbose f),
      ''-version='' @ show_bool (f_showVer f), ''--''] @ f_args f"

lemma parse_bool_show: "ParseBool (show_bool b) = Some b"
  by (cases b) (simp_all add: ParseBool_def show_bool_def)

lemma flag_steps:
  "parse_flags ((''-server='' @ v) # rest) g = parse_flags rest (g\<lparr>f_server := v\<rparr>)"
  "parse_flags ((''-control='' @ v) # rest) g = parse_flags rest (g\<lparr>f_control := v\<rparr>)"
  "parse_flags ((''-multi-viewer='' @ show_bool b) # rest) g = parse_flags rest (g\<lparr>f_multiViewer := b\<rparr>)"
  "parse_flags ((''-passphrase='' @ show_bool b) # rest) g = parse_flags rest (g\<lparr>f_withPass := b\<rparr>)"
  "parse_flags ((''-passphrase-generate='' @ show_bool b) # rest) g = parse_flags rest (g\<lparr>f_genPass := b\<rparr>)"
  "parse_flags ((''-no-qr='' @ show_bool b) # rest) g = parse_flags rest (g\<lparr>f_noQR := b\<rparr>)"
  "parse_flags ((''-allow-insecure='' @ show_bool b) # rest) g = parse_flags rest (g\<lparr>f_allowInsecure := b\<rparr>)"
  "parse_flags ((''-verbose='' @ show_bool b) # rest) g = parse_flags rest (g\<lparr>f_verbose := b\<rparr>)"
  "parse_flags ((''-version='' @ show_bool b) # rest) g = parse_flags rest (g\<lparr>f_showVer := b\<rparr>)"
  "- (2 ^ 63) \<le> d \<Longrightarrow> d < 2 ^ 63 \<Longrightarrow>
     parse_flags ((''-ttl='' @ show_int d @ ''ns'') # rest) g = parse_flags rest (g\<lparr>f_ttl := d\<rparr>)"
  using parse_flag_value [of "''server''"]
    parse_flag_value [of "''control''"]
    parse_flag_value [of "''multi-viewer''"]
    parse_flag_value [of "''passphrase''"]
    parse_flag_value [of "''passphrase-generate''"]
    parse_flag_value [of "''no-qr''"]
    parse_flag_value [of "''allow-insecure''"]
    parse_flag_value [of "''verbose''"]
    parse_flag_value [of "''version''"]
    parse_flag_value [of "''ttl''"]
  by (simp_all add: formal_def set_flag_def parse_bool_show ParseDuration_ns)

text \<open>
  Every setting can be said on the command line. For all values of the flags, any server and
  policy text, any lifetime a duration can hold, any words of the wrapped command, even ones that
  look like flags, parsing the command line that spells them out gives back exactly these values,
  whatever the defaults were.
\<close>

theorem flags_roundtrip:
  assumes "- (2 ^ 63) \<le> f_ttl f" "f_ttl f < 2 ^ 63"
  shows "parse_flags (render_flags f) f0 = Inr f"
proof -
  have stop: "parse_flags (''--'' # args) g = Inr (g\<lparr>f_args := args\<rparr>)" for args g
    by (simp add: parse_flags.simps [of "''--'' # args"] parseOne_def)
  show ?thesis using assms by (simp add: render_flags_def flag_steps [simplified] stop)
qed

theorem flags_roundtrip_witness:
  "parse_flags (render_flags \<lparr>f_server = ''https://r.example'', f_control = ''once'', f_multiViewer = True,
      f_ttl = 3600000000000, f_withPass = False, f_genPass = True, f_noQR = False, f_allowInsecure = False,
      f_verbose = True, f_showVer = False, f_args = [''ls'', ''--version'']\<rparr>) (default_flags (\<lambda>_. []))
   = Inr \<lparr>f_server = ''https://r.example'', f_control = ''once'', f_multiViewer = True,
      f_ttl = 3600000000000, f_withPass = False, f_genPass = True, f_noQR = False, f_allowInsecure = False,
      f_verbose = True, f_showVer = False, f_args = [''ls'', ''--version'']\<rparr>"
  by (rule flags_roundtrip) simp_all

end
