(* ===== verification/Reconnect.thy ===== *)
theory Reconnect
  imports Examples
begin

text \<open>
  The pieces of the reconnect loop of \<^verbatim>\<open>src/runner/internal/runner/runner.go\<close>
  (\<^verbatim>\<open>connectLoop\<close>, \<^verbatim>\<open>reclaimTTL\<close>): the time a re-claim asks for, and what the loop does
  with the outcome of a handshake and of a re-claim. The loop itself - where it is, when it dials,
  waits, serves and stops, and who makes it move - is a part of \<^verbatim>\<open>Run\<close>, in the theory
  \<open>Lifecycle\<close>.
\<close>

definition startBackoff :: int where "startBackoff = 500 * Millisecond"
definition maxBackoff :: int where "maxBackoff = 15 * Second"

subsection \<open>The time left\<close>

text \<open>
  \<^verbatim>\<open>time.Unix(expiresAt, 0).Sub(now)\<close>, which saturates at the ends of an
  \<^verbatim>\<open>int64\<close>; \<open>now\<close> is in nanoseconds since the epoch. (Deadlines whose seconds
  \<^verbatim>\<open>time.Time\<close> cannot hold are not modelled.)
\<close>

definition time_left :: "int \<Rightarrow> int \<Rightarrow> int" where
  "time_left expires now = max (- (2 ^ 63)) (min (2 ^ 63 - 1) (expires * Second - now))"

definition reclaimTTL :: "Orch \<Rightarrow> int \<Rightarrow> int \<times> bool" where
  "reclaimTTL st now =
     (if expiresAt st = 0 then (o_ttl st, True)
      else
        let remaining = time_left (expiresAt st) now in
        if remaining \<le> 0 then (0, False)
        else (wrap64 (int (fl_ceil (Seconds (nat remaining))) * Second), True))"

subsection \<open>Where the loop is, and what it asks of the outside\<close>

text \<open>
  The positions of the loop: at its head and in each of its three waits (for the handshake, the
  re-claim, the timer) with the backoff it holds, in \<^verbatim>\<open>serveConn\<close>, or at its end, because
  the context is done or because the relay rejected the session or the session has expired. The
  handshakes, re-claims and waits it starts, the re-claims that succeed and the connections it
  serves are recorded.
\<close>

datatype loop_end = ByContext | ByRejection

datatype loop_pc = Head int | Dialing int | Reclaiming int int | Backing int | Serving | Ended loop_end

datatype action = Dial ws_request | Reclaim string string int bool | Reclaimed | Wait_for int | Serve

text \<open>The notices of the loop; the three odd characters are the UTF-8 bytes of a dash.\<close>

definition stoppedText :: string where
  "stoppedText = '' '' @ [CHR 0xE2, CHR 0x80, CHR 0x94] @ '' sharing stopped (command still running locally)''"

definition expiredNotice :: string where
  "expiredNotice = ''onlytty: session reached its expiry while the relay was gone'' @ stoppedText"

definition replacedNotice :: string where
  "replacedNotice = ''onlytty: relay session was replaced (deploy?) '' @ [CHR 0xE2, CHR 0x80, CHR 0x94]
     @ '' re-establishing''"

definition rejectedNotice :: "FatalDialError \<Rightarrow> string" where
  "rejectedNotice fatal = ''onlytty: '' @ FatalDialError_Error fatal @ stoppedText"

text \<open>
  What the loop does with the answer of \<^verbatim>\<open>DialRunner\<close>: it serves the connection (the outcome
  of the writes on it is \<open>ok\<close>), asks for the lost session again, ends, or waits; \<open>cancelled\<close> says
  whether the context is done at that moment.
\<close>

definition after_dial ::
  "env \<Rightarrow> bool \<Rightarrow> int \<Rightarrow> (nat \<Rightarrow> bool) \<Rightarrow> dial_error + unit \<Rightarrow> Orch \<Rightarrow> Orch \<times> loop_pc \<times> action list" where
  "after_dial e cancelled backoff ok answer st =
     (case answer of
        Inr _ \<Rightarrow> (serve_start ok st, Serving, [Serve])
      | Inl (DialFatal fatal) \<Rightarrow>
          if NotFound fatal then
            (case reclaimTTL st (e_now e) of
               (ttl, in_time) \<Rightarrow>
                 if \<not> in_time then (note_host e expiredNotice st, Ended ByRejection, [])
                 else (st, Reclaiming backoff ttl, [Reclaim (o_id st) (o_tok st) ttl (multiViewer st)]))
          else (note_host e (rejectedNotice fatal) st, Ended ByRejection, [])
      | Inl DialTransient \<Rightarrow>
          if cancelled then (st, Ended ByContext, [])
          else (st, Backing backoff, [Wait_for backoff]))"

text \<open>The same for the answer to the re-claim.\<close>

definition after_reclaim ::
  "env \<Rightarrow> bool \<Rightarrow> int \<Rightarrow> create_error + RelaySession \<Rightarrow> Orch \<Rightarrow> Orch \<times> loop_pc \<times> action list" where
  "after_reclaim e cancelled backoff answer st =
     (case answer of
        Inl _ \<Rightarrow>
          if cancelled then (st, Ended ByContext, [])
          else (st, Backing backoff, [Wait_for backoff])
      | Inr _ \<Rightarrow> (note_host e replacedNotice st, Head startBackoff, [Reclaimed]))"

definition next_backoff :: "int \<Rightarrow> int" where
  "next_backoff backoff = min (backoff * 2) maxBackoff"

text \<open>\<^verbatim>\<open>Run\<close> returns the recorded exit code.\<close>

definition run_code :: "Orch \<Rightarrow> int" where
  "run_code st = sint (exitCode st)"

subsection \<open>Lemmas\<close>

lemmas backoff_defs = startBackoff_def maxBackoff_def Second_def Millisecond_def

lemma wrap64_id: "- (2 ^ 63) \<le> x \<Longrightarrow> x < 2 ^ 63 \<Longrightarrow> wrap64 x = x"
  by (simp add: wrap64_def sint_sbintrunc' signed_take_bit_int_eq_self)

lemma reclaimTTL_cases:
  assumes "expiresAt st \<noteq> 0" "expiresAt st * Second - now < 2 ^ 63 - Second"
  shows "if expiresAt st * Second \<le> now then reclaimTTL st now = (0, False)
    else \<exists>secs. reclaimTTL st now = (secs * Second, True) \<and> 1 \<le> secs
      \<and> seconds_int (secs * Second) = secs
      \<and> secs * Second < expiresAt st * Second - now + Second
      \<and> expiresAt st * Second - now < (secs + 1) * Second"
proof (cases "expiresAt st * Second \<le> now")
  case True
  with assms(1) show ?thesis by (simp add: reclaimTTL_def time_left_def Let_def)
next
  case False
  define d where "d = nat (expiresAt st * Second - now)"
  have d: "int d = expiresAt st * Second - now" "0 < d" "d < 2 ^ 63"
    using False assms(2) by (simp_all add: d_def Second_def)
  define secs where "secs = fl_ceil (Seconds d)"
  note c = ceil_seconds [OF d(2,3), folded secs_def]
  have d2: "d < 2 ^ 63 - 10 ^ 9" using assms(2) d(1) by (simp add: Second_def)
  have s63: "secs * 10 ^ 9 < 2 ^ 63" using c(3) d2 by simp
  have "reclaimTTL st now = (wrap64 (int secs * Second), True)"
    using assms False d by (simp add: reclaimTTL_def time_left_def Let_def secs_def d_def Second_def)
  also have "wrap64 (int secs * Second) = int secs * Second"
    using s63 by (intro wrap64_id) (simp_all add: Second_def)
  finally have r: "reclaimTTL st now = (int secs * Second, True)" .
  have "nat (int secs * Second) = secs * 10 ^ 9" by (simp add: Second_def nat_mult_distrib)
  then have "seconds_int (int secs * Second) = int secs"
    using trunc_seconds(2) [of 0 secs] s63 by (simp add: seconds_int_def Second_def)
  moreover have "d < (d div 10 ^ 9 + 1) * 10 ^ 9" using div_mult_mod_eq [of d "10 ^ 9"] mod_less_divisor [of "10 ^ 9" d] by simp
  then have "d < (secs + 1) * 10 ^ 9" using c(2) by (meson add_le_mono1 less_le_trans mult_le_mono1)
  then have "int d < (int secs + 1) * Second" by (simp add: Second_def)
  moreover have "int secs * Second < int d + Second" using c(3) by (simp add: Second_def)
  moreover have "1 \<le> int secs" using c(1) by simp
  ultimately show ?thesis using False r d(1) by auto
qed

text \<open>
  What the loop holds after the actions of a run: half a second, doubled by every wait since the
  last connection or successful re-claim, up to fifteen seconds.
\<close>

definition waits_since :: "action list \<Rightarrow> nat" where
  "waits_since acts =
     length (filter (\<lambda>a. case a of Wait_for _ \<Rightarrow> True | _ \<Rightarrow> False)
       (takeWhile (\<lambda>a. a \<noteq> Serve \<and> a \<noteq> Reclaimed) (rev acts)))"

definition backoff_of :: "action list \<Rightarrow> int" where
  "backoff_of acts = min (500 * 10 ^ 6 * 2 ^ waits_since acts) (15 * 10 ^ 9)"

lemma waits_since_simps [simp]:
  "waits_since [] = 0" "waits_since (acts @ [Wait_for w]) = Suc (waits_since acts)"
  "waits_since (acts @ [Serve]) = 0" "waits_since (acts @ [Reclaimed]) = 0"
  "waits_since (acts @ [Dial q]) = waits_since acts"
  "waits_since (acts @ [Reclaim i t ttl mv]) = waits_since acts"
  by (simp_all add: waits_since_def)

lemma backoff_of_simps [simp]:
  "backoff_of [] = startBackoff" "backoff_of (acts @ [Serve]) = startBackoff"
  "backoff_of (acts @ [Reclaimed]) = startBackoff"
  "backoff_of (acts @ [Dial q]) = backoff_of acts"
  "backoff_of (acts @ [Reclaim i t ttl mv]) = backoff_of acts"
  by (simp_all add: backoff_of_def backoff_defs)

lemma backoff_of_wait [simp]: "backoff_of (acts @ [Wait_for w]) = next_backoff (backoff_of acts)"
proof -
  have "(500 * 10 ^ 6 :: int) * 2 ^ Suc n = 500 * 10 ^ 6 * 2 ^ n * 2" for n by simp
  then show ?thesis by (simp add: backoff_of_def next_backoff_def backoff_defs min_def del: power_Suc)
qed

lemma backoff_of_bounds: "500 * 10 ^ 6 \<le> backoff_of acts" "backoff_of acts \<le> 15 * 10 ^ 9"
proof -
  have "(1 :: int) \<le> 2 ^ waits_since acts" by simp
  then show "500 * 10 ^ 6 \<le> backoff_of acts" by (simp add: backoff_of_def)
qed (simp add: backoff_of_def)

text \<open>The outcomes of an answer, as steps of the orchestrator.\<close>

lemma after_dial_cases:
  assumes "after_dial e cancelled b ok answer st = (st', pc, as)"
  obtains (serve) "st' = serve_start ok st" "pc = Serving" "as = [Serve]"
  | (lost) ttl where "st' = st" "pc = Reclaiming b ttl" "reclaimTTL st (e_now e) = (ttl, True)"
      "as = [Reclaim (o_id st) (o_tok st) ttl (multiViewer st)]"
  | (rejected) x where "st' = note_host e x st" "pc = Ended ByRejection" "as = []"
  | (cancelled) "st' = st" "pc = Ended ByContext" "as = []" "cancelled"
  | (wait) "st' = st" "pc = Backing b" "as = [Wait_for b]" "\<not> cancelled"
proof (cases answer)
  case (Inl err)
  show thesis
  proof (cases err)
    case (DialFatal fatal)
    obtain ttl in_time where r: "reclaimTTL st (e_now e) = (ttl, in_time)" by fastforce
    with assms Inl DialFatal show thesis
      by (cases "NotFound fatal"; cases in_time) (auto simp: after_dial_def intro: lost rejected)
  qed (use assms Inl cancelled wait in \<open>auto simp: after_dial_def split: if_splits\<close>)
qed (use assms serve in \<open>simp add: after_dial_def\<close>)

lemma after_reclaim_cases:
  assumes "after_reclaim e cancelled b answer st = (st', pc, as)"
  obtains (taken) "st' = note_host e replacedNotice st" "pc = Head startBackoff" "as = [Reclaimed]"
  | (cancelled) "st' = st" "pc = Ended ByContext" "as = []" "cancelled"
  | (wait) "st' = st" "pc = Backing b" "as = [Wait_for b]" "\<not> cancelled"
  using assms by (auto simp: after_reclaim_def split: sum.splits if_splits)

text \<open>
  Rejections end the sharing, not the command. After a 401, and after a 404 for a session past
  its deadline, the loop ends at once: nothing is re-claimed and no wait is made, the host gets a
  notice, and nothing else of the session changes.
\<close>

lemma rejection_ends:
  assumes "status = 401 \<or> status = 404 \<and> expiresAt st \<noteq> 0 \<and> expiresAt st * Second \<le> e_now e"
  shows "after_dial e cancelled b ok (DialRunner c (\<lambda>_. WsError (Some status)) i t) st =
    (note_host e (if status = 401 then rejectedNotice \<lparr>Status = 401\<rparr> else expiredNotice) st, Ended ByRejection, [])"
  using assms by (auto simp: after_dial_def DialRunner_def NotFound_def reclaimTTL_def time_left_def Let_def)

text \<open>
  C36: A lost session comes back with the time it had left. For a bounded session (with less than 292
  years left) a re-claim after the deadline is refused; before it, the lifetime sent is a whole
  number of seconds, at least one - never the zero that would mean no expiry - and differs from the
  time left by less than a second.
\<close>

theorem reclaim_keeps_deadline:
  assumes "expiresAt st \<noteq> 0" "expiresAt st * Second - now < 2 ^ 63 - Second"
  shows "(expiresAt st * Second \<le> now \<longrightarrow> reclaimTTL st now = (0, False))
    \<and> (now < expiresAt st * Second \<longrightarrow>
        (\<exists>secs. reclaimTTL st now = (secs * Second, True) \<and> 1 \<le> secs \<and> seconds_int (secs * Second) = secs
          \<and> \<bar>secs * Second - (expiresAt st * Second - now)\<bar> < Second))"
  using reclaimTTL_cases [OF assms] by (auto simp: abs_if distrib_right split: if_splits)

theorem reclaim_keeps_deadline_witness:
  "reclaimTTL ((ex_orch ControlAuto)\<lparr>expiresAt := 10\<rparr>) (9 * Second + 1) = (Second, True)"
proof -
  have "\<exists>secs. reclaimTTL ((ex_orch ControlAuto)\<lparr>expiresAt := 10\<rparr>) (9 * Second + 1) = (secs * Second, True)
      \<and> 1 \<le> secs \<and> \<bar>secs * Second - (10 * Second - (9 * Second + 1))\<bar> < Second"
    using reclaim_keeps_deadline [of "(ex_orch ControlAuto)\<lparr>expiresAt := 10\<rparr>" "9 * Second + 1"]
    by (auto simp: Second_def)
  then obtain secs where s: "reclaimTTL ((ex_orch ControlAuto)\<lparr>expiresAt := 10\<rparr>) (9 * Second + 1) = (secs * Second, True)"
      "1 \<le> secs" "\<bar>secs * Second - (Second - 1)\<bar> < Second" by (auto simp: algebra_simps)
  then have "secs = 1" by (simp add: Second_def abs_if split: if_splits)
  with s(1) show ?thesis by simp
qed

text \<open>
  The lifetime asked for is the flag's value in whole seconds: exact for whole seconds, never
  below them, at most one above; it is zero - which the relay reads as no expiry - for every
  lifetime below one second.
\<close>

theorem ttl_seconds_sent:
  assumes "0 \<le> ttl" "ttl < 2 ^ 63"
  shows "ttl div Second \<le> seconds_int ttl \<and> seconds_int ttl \<le> ttl div Second + 1
    \<and> (ttl mod Second = 0 \<longrightarrow> seconds_int ttl = ttl div Second)
    \<and> (ttl < Second \<longrightarrow> create_body sid tok ttl opts = create_body sid tok 0 opts)"
proof -
  define d where "d = nat ttl"
  have d: "ttl = int d" "d < 2 ^ 63" using assms by (simp_all add: d_def)
  have q: "ttl div Second = int (d div 10 ^ 9)" "ttl mod Second = int (d mod 10 ^ 9)"
    unfolding d(1) Second_def by (metis of_nat_numeral of_nat_power zdiv_int, metis of_nat_numeral of_nat_power zmod_int)
  have s: "seconds_int ttl = int (fl_trunc (Seconds d))" by (simp add: seconds_int_def d(1))
  have "seconds_int ttl = ttl div Second" if "ttl mod Second = 0"
  proof -
    have "d = d div 10 ^ 9 * 10 ^ 9" using that q(2) div_mult_mod_eq [of d "10 ^ 9"] by simp
    then show ?thesis using trunc_seconds(2) [OF d(2), of "d div 10 ^ 9"] d(2) s q(1) by simp
  qed
  moreover have "seconds_int ttl = 0" if "ttl < Second"
    using trunc_seconds(1) [OF d(2)] that s d(1) by (simp add: Second_def)
  moreover have "seconds_int 0 = 0" using trunc_seconds(1) [of 0] by (simp add: seconds_int_def)
  ultimately show ?thesis using trunc_seconds(3) [OF d(2)] s q(1) by (simp add: create_body_def)
qed

theorem ttl_seconds_sent_witness:
  "create_body ''id'' ''tok'' 500000000 \<lparr>MultiViewer = False\<rparr> = create_body ''id'' ''tok'' 0 \<lparr>MultiViewer = False\<rparr>"
  using ttl_seconds_sent [of 500000000] by (simp add: Second_def)

end
