(* ===== verification/Lifecycle.thy ===== *)
theory Lifecycle
  imports Reconnect Invariants
begin

text \<open>
  \<^verbatim>\<open>Run\<close> of \<^verbatim>\<open>src/runner/internal/runner/runner.go\<close> and everything it starts: the exit
  watcher, the cancellation watcher, the two pumps, the keepalive, the reconnect loop and, for each
  connection, \<^verbatim>\<open>serveConn\<close> with its reader and its sender. Each goroutine has a position of
  its own; a step moves one of them, and calls the handler of the theories \<open>Orchestrator\<close> and
  \<open>Sender\<close> that the code calls there. A step is labelled with who makes it happen: the runner by
  itself, or its surroundings (the command, the host, the relay).
\<close>

datatype exit_pc = Waiting | Recorded | Announced | Cancelled | Finished

record Run =
  r_orch :: Orch
  r_loop :: loop_pc
  r_acts :: "action list"
  r_exit :: exit_pc
  watch_done :: bool
  pump_done :: bool
  keep_done :: bool
  child_dead :: "int option"
  tty_eof :: bool
  parent_done :: bool
  ctx_done :: bool
  returned :: "int option"

definition run_start :: "Orch \<Rightarrow> Run" where
  "run_start st =
     \<lparr>r_orch = st, r_loop = Head startBackoff, r_acts = [], r_exit = Waiting, watch_done = False,
      pump_done = False, keep_done = False, child_dead = None, tty_eof = False, parent_done = False,
      ctx_done = False, returned = None\<rparr>"

datatype actor = Runner | Outside

text \<open>
  \<^verbatim>\<open>Run\<close> and the goroutines it starts directly. Outside: the command dies, the other side of
  the terminal goes away, the parent context is cancelled, the command prints, the host types,
  resizes or revokes, the keepalive's ticker fires. The exit watcher: \<^verbatim>\<open>Wait\<close> and the store,
  the announcement, \<^verbatim>\<open>cancel\<close> after the flush window, the teardown. The cancellation watcher
  tears down once the context is done, when the keepalive returns, too. The pump's read fails once
  the PTY is closed or its other side is gone. \<^verbatim>\<open>Run\<close> returns the stored code once the pump
  and the loop are done, and the process ends with it.
\<close>

inductive goroutine_step :: "actor \<Rightarrow> Run \<Rightarrow> Run \<Rightarrow> bool" where
  die: "child_dead r = None \<Longrightarrow> goroutine_step Outside r (r\<lparr>child_dead := Some code\<rparr>)"
| hangup: "goroutine_step Outside r (r\<lparr>tty_eof := True\<rparr>)"
| stop: "goroutine_step Outside r (r\<lparr>parent_done := True, ctx_done := True\<rparr>)"
| printed: "\<not> pump_done r \<Longrightarrow> chunk \<noteq> [] \<Longrightarrow>
    goroutine_step Outside r (r\<lparr>r_orch := pump_chunk e chunk (r_orch r)\<rparr>)"
| typed: "goroutine_step Outside r (r\<lparr>r_orch := host_input chunk (r_orch r)\<rparr>)"
| resized: "goroutine_step Outside r (r\<lparr>r_orch := Resize e cols rows (r_orch r)\<rparr>)"
| revoked: "goroutine_step Outside r (r\<lparr>r_orch := Revoke e (r_orch r)\<rparr>)"
| tick: "\<not> keep_done r \<Longrightarrow> goroutine_step Outside r (r\<lparr>r_orch := keepalive_tick e (r_orch r)\<rparr>)"
| reap: "r_exit r = Waiting \<Longrightarrow> child_dead r = Some code \<Longrightarrow>
    goroutine_step Runner r (r\<lparr>r_orch := child_exit code (r_orch r), r_exit := Recorded\<rparr>)"
| announce: "r_exit r = Recorded \<Longrightarrow>
    goroutine_step Runner r (r\<lparr>r_orch := signalExit e (r_orch r), r_exit := Announced\<rparr>)"
| flushed: "r_exit r = Announced \<Longrightarrow>
    goroutine_step Runner r (r\<lparr>ctx_done := True, r_exit := Cancelled\<rparr>)"
| teardown: "r_exit r = Cancelled \<Longrightarrow>
    goroutine_step Runner r (r\<lparr>r_orch := shutdown (r_orch r), r_exit := Finished\<rparr>)"
| watcher: "ctx_done r \<Longrightarrow> \<not> watch_done r \<Longrightarrow>
    goroutine_step Runner r (r\<lparr>r_orch := shutdown (r_orch r), watch_done := True\<rparr>)"
| keep_stop: "ctx_done r \<Longrightarrow> \<not> keep_done r \<Longrightarrow> goroutine_step Runner r (r\<lparr>keep_done := True\<rparr>)"
| pump_end: "\<not> pump_done r \<Longrightarrow> \<not> ptmx_open (sess (r_orch r)) \<or> tty_eof r \<Longrightarrow>
    goroutine_step Runner r (r\<lparr>pump_done := True\<rparr>)"
| run_return: "r_loop r = Ended how \<Longrightarrow> pump_done r \<Longrightarrow>
    goroutine_step Runner r (r\<lparr>returned := Some (run_code (r_orch r))\<rparr>)"

text \<open>
  \<^verbatim>\<open>connectLoop\<close>. It dials at its head unless the context is done. The relay (or the
  network) answers a handshake and a re-claim whenever it likes and as it likes; both are made
  with the context, so once that is done they can also fail by themselves, without a response.
\<close>

inductive loop_step :: "actor \<Rightarrow> Run \<Rightarrow> Run \<Rightarrow> bool" where
  head_stop: "r_loop r = Head b \<Longrightarrow> ctx_done r \<Longrightarrow> loop_step Runner r (r\<lparr>r_loop := Ended ByContext\<rparr>)"
| head_dial: "r_loop r = Head b \<Longrightarrow> \<not> ctx_done r \<Longrightarrow>
    loop_step Runner r (r\<lparr>r_loop := Dialing b,
      r_acts := r_acts r @ [Dial (dial_request (o_client (r_orch r)) (o_id (r_orch r)) (o_tok (r_orch r)))]\<rparr>)"
| dialled: "r_loop r = Dialing b \<Longrightarrow>
    after_dial e (ctx_done r) b ok (DialRunner (o_client (r_orch r)) dial (o_id (r_orch r)) (o_tok (r_orch r)))
      (r_orch r) = (st, pc, as) \<Longrightarrow>
    loop_step Outside r (r\<lparr>r_orch := st, r_loop := pc, r_acts := r_acts r @ as\<rparr>)"
| dial_cut: "r_loop r = Dialing b \<Longrightarrow> ctx_done r \<Longrightarrow>
    after_dial e (ctx_done r) b ok
      (DialRunner (o_client (r_orch r)) (\<lambda>_. WsError None) (o_id (r_orch r)) (o_tok (r_orch r)))
      (r_orch r) = (st, pc, as) \<Longrightarrow>
    loop_step Runner r (r\<lparr>r_orch := st, r_loop := pc, r_acts := r_acts r @ as\<rparr>)"
| reclaimed: "r_loop r = Reclaiming b ttl \<Longrightarrow>
    after_reclaim e (ctx_done r) b
      (CreateSessionWithOptions (o_client (r_orch r)) post (o_id (r_orch r)) (o_tok (r_orch r)) ttl
        \<lparr>MultiViewer = multiViewer (r_orch r)\<rparr>) (r_orch r) = (st, pc, as) \<Longrightarrow>
    loop_step Outside r (r\<lparr>r_orch := st, r_loop := pc, r_acts := r_acts r @ as\<rparr>)"
| reclaim_cut: "r_loop r = Reclaiming b ttl \<Longrightarrow> ctx_done r \<Longrightarrow>
    after_reclaim e (ctx_done r) b
      (CreateSessionWithOptions (o_client (r_orch r)) (\<lambda>_. HttpErr err) (o_id (r_orch r)) (o_tok (r_orch r)) ttl
        \<lparr>MultiViewer = multiViewer (r_orch r)\<rparr>) (r_orch r) = (st, pc, as) \<Longrightarrow>
    loop_step Runner r (r\<lparr>r_orch := st, r_loop := pc, r_acts := r_acts r @ as\<rparr>)"
| wait_over: "r_loop r = Backing b \<Longrightarrow> loop_step Runner r (r\<lparr>r_loop := Head (next_backoff b)\<rparr>)"
| wait_cut: "r_loop r = Backing b \<Longrightarrow> ctx_done r \<Longrightarrow> loop_step Runner r (r\<lparr>r_loop := Ended ByContext\<rparr>)"

text \<open>
  \<^verbatim>\<open>serveConn\<close> with its reader and its sender. The reader handles what the relay sends; its
  read fails when the connection does, or by itself once the context is done. Then
  \<^verbatim>\<open>serveConn\<close> fails the connection, takes it back from \<^verbatim>\<open>o.conn\<close>, waits for the sender
  and clears the viewers and the control. The sender serves whichever case of its select is ready;
  a write on a broken connection fails (\<open>ws_ok\<close>).
\<close>

inductive serve_step :: "actor \<Rightarrow> Run \<Rightarrow> Run \<Rightarrow> bool" where
  message: "r_loop r = Serving \<Longrightarrow> conn_obj (r_orch r) = Some c \<Longrightarrow> reader_up c \<Longrightarrow>
    serve_step Outside r (r\<lparr>r_orch := reader_message e w (r_orch r)\<rparr>)"
| lost: "r_loop r = Serving \<Longrightarrow> conn_obj (r_orch r) = Some c \<Longrightarrow> reader_up c \<Longrightarrow>
    serve_step Outside r (r\<lparr>r_orch := serve_reader_end (r_orch r)\<rparr>)"
| reader_cut: "r_loop r = Serving \<Longrightarrow> conn_obj (r_orch r) = Some c \<Longrightarrow> reader_up c \<Longrightarrow> ctx_done r \<Longrightarrow>
    serve_step Runner r (r\<lparr>r_orch := serve_reader_end (r_orch r)\<rparr>)"
| unpublish: "r_loop r = Serving \<Longrightarrow> conn_obj (r_orch r) = Some c \<Longrightarrow> \<not> reader_up c \<Longrightarrow> published (r_orch r) \<Longrightarrow>
    serve_step Runner r (r\<lparr>r_orch := serve_unpublish (r_orch r)\<rparr>)"
| send_join: "r_loop r = Serving \<Longrightarrow> conn_obj (r_orch r) = Some c \<Longrightarrow> sender_up c \<Longrightarrow> join_q c \<noteq> [] \<Longrightarrow>
    serve_step Runner r (r\<lparr>r_orch := sender_join e (r_orch r)\<rparr>)"
| send_next: "r_loop r = Serving \<Longrightarrow> conn_obj (r_orch r) = Some c \<Longrightarrow> sender_up c \<Longrightarrow> send_q c \<noteq> [] \<Longrightarrow>
    serve_step Runner r (r\<lparr>r_orch := sender_send e (r_orch r)\<rparr>)"
| send_stop: "r_loop r = Serving \<Longrightarrow> conn_obj (r_orch r) = Some c \<Longrightarrow> sender_up c \<Longrightarrow> ctx_done r \<or> c_done c \<Longrightarrow>
    serve_step Runner r (r\<lparr>r_orch := sender_stop (r_orch r)\<rparr>)"
| served: "r_loop r = Serving \<Longrightarrow> conn_obj (r_orch r) = Some c \<Longrightarrow> \<not> reader_up c \<Longrightarrow> \<not> published (r_orch r)
    \<Longrightarrow> \<not> sender_up c \<Longrightarrow>
    serve_step Runner r (r\<lparr>r_orch := serve_finish (r_orch r), r_loop := Head startBackoff\<rparr>)"

definition run_step :: "actor \<Rightarrow> Run \<Rightarrow> Run \<Rightarrow> bool" where
  "run_step a r r' \<longleftrightarrow> returned r = None \<and> (goroutine_step a r r' \<or> loop_step a r r' \<or> serve_step a r r')"

definition any_step :: "Run \<Rightarrow> Run \<Rightarrow> bool" where
  "any_step r r' \<longleftrightarrow> (\<exists>a. run_step a r r')"

text \<open>The runs of a session whose command has just been started.\<close>

definition run_from :: "Config \<Rightarrow> Run \<Rightarrow> bool" where
  "run_from cfg r \<longleftrightarrow> fresh_session (cfg_Session cfg)
     \<and> (\<exists>st. Orchestrator.New cfg = Inr st \<and> any_step\<^sup>*\<^sup>* (run_start st) r)"

lemma run_stepI:
  "returned r = None \<Longrightarrow> goroutine_step a r r' \<Longrightarrow> run_step a r r'"
  "returned r = None \<Longrightarrow> loop_step a r r' \<Longrightarrow> run_step a r r'"
  "returned r = None \<Longrightarrow> serve_step a r r' \<Longrightarrow> run_step a r r'"
  by (simp_all add: run_step_def)

lemma any_stepI:
  "goroutine_step a r r' \<Longrightarrow> returned r = None \<Longrightarrow> any_step r r'"
  "loop_step a r r' \<Longrightarrow> returned r = None \<Longrightarrow> any_step r r'"
  "serve_step a r r' \<Longrightarrow> returned r = None \<Longrightarrow> any_step r r'"
  by (auto simp: any_step_def run_step_def)

lemma run_stepE [consumes 1, case_names go loop serve]:
  assumes "run_step a r r'"
  obtains "returned r = None" "goroutine_step a r r'" | "returned r = None" "loop_step a r r'"
  | "returned r = None" "serve_step a r r'"
  using assms by (auto simp: run_step_def)

subsection \<open>The invariant of the life cycle\<close>

definition int32 :: "int \<Rightarrow> int" where
  "int32 code = sint (word_of_int code :: u32)"

definition run_inv :: "Run \<Rightarrow> bool" where
  "run_inv r \<longleftrightarrow>
     (if r_exit r = Waiting then process_state (sess (r_orch r)) = None \<and> exitCode (r_orch r) = -1
      else \<exists>code. child_dead r = Some code \<and> exitCode (r_orch r) = word_of_int code
        \<and> process_state (sess (r_orch r)) = Some code)
   \<and> (ctx_done r \<longrightarrow> parent_done r \<or> r_exit r \<in> {Cancelled, Finished})
   \<and> (r_exit r \<in> {Cancelled, Finished} \<longrightarrow> ctx_done r)
   \<and> (r_loop r = Ended ByContext \<longrightarrow> ctx_done r)
   \<and> (r_loop r = Serving \<longleftrightarrow> conn_obj (r_orch r) \<noteq> None)
   \<and> (watch_done r \<longrightarrow> shutdownOnce (r_orch r))
   \<and> (\<forall>c. returned r = Some c \<longrightarrow> (\<exists>how. r_loop r = Ended how) \<and> c = run_code (r_orch r))"

text \<open>
  Steps that leave the child's status, the recorded code, the teardown and the connection's
  existence alone.
\<close>

definition calm :: "Orch \<Rightarrow> Orch \<Rightarrow> bool" where
  "calm st st' \<longleftrightarrow> (conn_obj st' = None \<longleftrightarrow> conn_obj st = None)
     \<and> process_state (sess st') = process_state (sess st) \<and> exitCode st' = exitCode st
     \<and> shutdownOnce st' = shutdownOnce st"

lemma calmI: "io_step st st' \<Longrightarrow> (conn_obj st' = None \<longleftrightarrow> conn_obj st = None) \<Longrightarrow> calm st st'"
  by (simp add: calm_def io_step_def)

lemma calm_local:
  "calm st (Resize e cols rows st)" "calm st (pump_chunk e chunk st)" "calm st (keepalive_tick e st)"
  "calm st (signalExit e st)" "calm st (Revoke e st)" "calm st (note_host e x st)"
  "calm st (serve_unpublish st)" "calm st (serve_reader_end st)" "calm st (sender_stop st)"
  by (simp_all add: calm_def Resize_def pump_chunk_def keepalive_tick_def signalExit_def Revoke_def
      serve_unpublish_def serve_reader_end_def sender_stop_def upd_conn_def emit_shapes offered_def
      SetSize_def Let_def split: prod.split)

lemma calm_host_input: "calm st (host_input chunk st)"
  by (simp add: calm_def host_input_def pumpInput_def SessionWrite_def)

lemma conn_None_dispatch: "conn_obj (dispatch e r v k p st) = None \<longleftrightarrow> conn_obj st = None"
  by (simp add: dispatch_def handleControlRequest_def handleControlRelease_def emit_shapes offered_def
      Let_def split: sum.split)

lemma calm_reader_message: "calm st (reader_message e w st)"
proof (cases w)
  case (WsBinary d)
  have "conn_obj (handleBinary e d st) = None \<longleftrightarrow> conn_obj st = None"
    by (cases rule: handleBinary_cases [of e d st]) (simp_all add: conn_None_dispatch accepted_def)
  with WsBinary show ?thesis by (simp add: reader_message_def calmI io_handleBinary)
next
  case (WsText d)
  have "conn_obj (handleControlMsg e m st) = None \<longleftrightarrow> conn_obj st = None" for m
    by (auto simp: handleControlMsg_def emit_shapes Let_def signal_join_def forgetViewer_frame(5) split: option.split)
  then have "conn_obj (handleControl e d st) = None \<longleftrightarrow> conn_obj st = None"
    by (simp add: handleControl_def split: option.split)
  with WsText show ?thesis by (simp add: reader_message_def calmI io_handleControl)
qed

lemma calm_sender: "calm st (sender_join e st)" "calm st (sender_send e st)"
  using conn_le_join [of st e] conn_le_send [of st e]
  by (auto intro!: calmI simp: io_only_conn only_conn_sender_join only_conn_sender_send conn_le_def
      split: option.splits)

lemmas calm_steps = calm_local calm_host_input calm_reader_message calm_sender

lemma exitCode_handlers [simp]:
  "exitCode (shutdown st) = exitCode st" "process_state (sess (shutdown st)) = process_state (sess st)"
  "conn_obj (shutdown st) = conn_obj st" "shutdownOnce (shutdown st)"
  "shutdownOnce (child_exit code st) = shutdownOnce st" "conn_obj (child_exit code st) = conn_obj st"
  "exitCode (child_exit code st) = word_of_int code" "process_state (sess (child_exit code st)) = Some code"
  by (simp_all add: shutdown_def child_exit_def Terminate_def Wait_def ExitCode_def Let_def Close_def)

lemma serve_ends [simp]:
  "conn_obj (serve_start ok st) \<noteq> None" "conn_obj (serve_finish st) = None"
  "sess (serve_start ok st) = sess st" "sess (serve_finish st) = sess st"
  "exitCode (serve_start ok st) = exitCode st" "exitCode (serve_finish st) = exitCode st"
  "shutdownOnce (serve_start ok st) = shutdownOnce st" "shutdownOnce (serve_finish st) = shutdownOnce st"
  by (simp_all add: serve_start_def serve_finish_def clearControlOwner_def)

lemma run_inv_calm: "run_inv r \<Longrightarrow> returned r = None \<Longrightarrow> calm (r_orch r) st \<Longrightarrow> run_inv (r\<lparr>r_orch := st\<rparr>)"
  by (simp add: run_inv_def calm_def)

lemma run_inv_goroutine: "goroutine_step a r r' \<Longrightarrow> returned r = None \<Longrightarrow> run_inv r \<Longrightarrow> run_inv r'"
proof (induction rule: goroutine_step.induct)
  case (announce r e)
  then show ?case using calm_local(4) [of "r_orch r" e] by (auto simp: run_inv_def calm_def)
qed (auto intro!: run_inv_calm calm_steps, auto simp: run_inv_def split: if_splits)

lemma run_inv_after:
  assumes "run_inv r" "returned r = None" "conn_obj (r_orch r) = None"
    and "r' = r\<lparr>r_orch := st, r_loop := pc, r_acts := acts\<rparr>"
  shows "after_dial e (ctx_done r) b ok answer (r_orch r) = (st, pc, as) \<Longrightarrow> run_inv r'"
    and "after_reclaim e (ctx_done r) b again (r_orch r) = (st, pc, as) \<Longrightarrow> run_inv r'"
proof -
  have k: "run_inv (r\<lparr>r_orch := serve_start ok (r_orch r), r_loop := Serving, r_acts := acts\<rparr>)"
    "pc \<noteq> Serving \<Longrightarrow> (pc = Ended ByContext \<longrightarrow> ctx_done r) \<Longrightarrow> run_inv (r\<lparr>r_loop := pc, r_acts := acts\<rparr>)"
    "pc \<noteq> Serving \<Longrightarrow> (pc = Ended ByContext \<longrightarrow> ctx_done r) \<Longrightarrow>
      run_inv (r\<lparr>r_orch := note_host e x (r_orch r), r_loop := pc, r_acts := acts\<rparr>)" for x
    using assms(1,2,3) by (simp_all add: run_inv_def note_host_shape)
  show "run_inv r'" if "after_dial e (ctx_done r) b ok answer (r_orch r) = (st, pc, as)"
    using that k by (cases rule: after_dial_cases) (simp_all add: assms(4))
  show "run_inv r'" if "after_reclaim e (ctx_done r) b again (r_orch r) = (st, pc, as)"
    using that k by (cases rule: after_reclaim_cases) (simp_all add: assms(4))
qed

lemma run_inv_loop:
  assumes "loop_step a r r'" "returned r = None" "run_inv r"
  shows "run_inv r'"
proof -
  have n: "conn_obj (r_orch r) = None" if "r_loop r \<noteq> Serving" using that assms(3) by (simp add: run_inv_def)
  from assms(1) show ?thesis
  proof cases
    case (dialled b e ok dial st pc acts)
    then show ?thesis using run_inv_after(1) [OF assms(3,2) n] by simp
  next
    case (dial_cut b e ok st pc acts)
    then show ?thesis using run_inv_after(1) [OF assms(3,2) n] by simp
  next
    case (reclaimed b ttl e post st pc acts)
    then show ?thesis using run_inv_after(2) [OF assms(3,2) n] by simp
  next
    case (reclaim_cut b ttl e err st pc acts)
    then show ?thesis using run_inv_after(2) [OF assms(3,2) n] by simp
  qed (use assms(2,3) n in \<open>simp_all add: run_inv_def\<close>)
qed

lemma run_inv_serve: "serve_step a r r' \<Longrightarrow> returned r = None \<Longrightarrow> run_inv r \<Longrightarrow> run_inv r'"
proof (induction rule: serve_step.induct)
  case (served r c)
  then show ?case by (auto simp: run_inv_def)
qed (auto intro!: run_inv_calm calm_steps)

lemma run_inv_step: "run_step a r r' \<Longrightarrow> run_inv r \<Longrightarrow> run_inv r'"
  by (auto elim!: run_stepE intro: run_inv_goroutine run_inv_loop run_inv_serve)

text \<open>Every step of a run is a step of the orchestrator, or none.\<close>

lemma goroutine_step_orch: "goroutine_step a r r' \<Longrightarrow> run_inv r \<Longrightarrow> orch_step\<^sup>=\<^sup>= (r_orch r) (r_orch r')"
  by (induction rule: goroutine_step.induct) (auto simp: run_inv_def intro: orch_step.intros)

lemma after_orch:
  "conn_obj st = None \<Longrightarrow> after_dial e cn b ok answer st = (st', pc, as) \<Longrightarrow> orch_step\<^sup>=\<^sup>= st st'"
  "after_reclaim e cn b again st = (st', pc, as) \<Longrightarrow> orch_step\<^sup>=\<^sup>= st st'"
  by (erule after_dial_cases; simp add: orch_step.connect orch_step.notice)
    (erule after_reclaim_cases; simp add: orch_step.notice)

lemma loop_step_orch:
  assumes "loop_step a r r'" "run_inv r"
  shows "orch_step\<^sup>=\<^sup>= (r_orch r) (r_orch r')"
proof -
  have n: "conn_obj (r_orch r) = None" if "r_loop r \<noteq> Serving" using that assms(2) by (simp add: run_inv_def)
  from assms(1) show ?thesis
  proof cases
    case (dialled b e ok dial st pc acts)
    then show ?thesis using after_orch(1) [OF n] by simp
  next
    case (dial_cut b e ok st pc acts)
    then show ?thesis using after_orch(1) [OF n] by simp
  next
    case (reclaimed b ttl e post st pc acts)
    then show ?thesis using after_orch(2) by simp
  next
    case (reclaim_cut b ttl e err st pc acts)
    then show ?thesis using after_orch(2) by simp
  qed simp_all
qed

lemma serve_step_orch: "serve_step a r r' \<Longrightarrow> orch_step\<^sup>=\<^sup>= (r_orch r) (r_orch r')"
  by (induction rule: serve_step.induct) (auto intro: orch_step.intros)

lemma run_step_orch: "run_step a r r' \<Longrightarrow> run_inv r \<Longrightarrow> orch_step\<^sup>=\<^sup>= (r_orch r) (r_orch r')"
  by (elim run_stepE) (use goroutine_step_orch loop_step_orch serve_step_orch in blast)+

lemma any_steps:
  assumes "any_step\<^sup>*\<^sup>* r r'" "run_inv r"
  shows "run_inv r' \<and> orch_step\<^sup>*\<^sup>* (r_orch r) (r_orch r')"
  using assms
proof (induction rule: rtranclp_induct)
  case (step s t)
  then obtain a where a: "run_step a s t" by (auto simp: any_step_def)
  from run_step_orch [OF a] step show ?case using run_inv_step [OF a] by auto
qed simp

lemma run_from_inv:
  assumes "run_from cfg r"
  obtains st where "Orchestrator.New cfg = Inr st" "orch_step\<^sup>*\<^sup>* st (r_orch r)" "run_inv r"
    "proc_inv (r_orch r)" "conn_inv (r_orch r)"
proof -
  from assms obtain st where st: "Orchestrator.New cfg = Inr st" "any_step\<^sup>*\<^sup>* (run_start st) r"
    "fresh_session (cfg_Session cfg)"
    by (auto simp: run_from_def)
  have "run_inv (run_start st)"
    using New_fields [OF st(1)] st(3) by (simp add: run_inv_def run_start_def fresh_session_def)
  with any_steps [OF st(2)] have r: "run_inv r" "orch_step\<^sup>*\<^sup>* st (r_orch r)" by (simp_all add: run_start_def)
  with run_invariants(1,4) [OF st(1) r(2)] st that show thesis by blast
qed

lemma run_from_step: "run_from cfg r \<Longrightarrow> run_step a r r' \<Longrightarrow> run_from cfg r'"
  unfolding run_from_def any_step_def by (blast intro: rtranclp.rtrancl_into_rtrancl)

lemma run_from_steps: "run_from cfg r \<Longrightarrow> any_step\<^sup>*\<^sup>* r r' \<Longrightarrow> run_from cfg r'"
  unfolding run_from_def by (blast intro: rtranclp_trans)

lemma fresh_ex_config: "fresh_session (cfg_Session (ex_config mode))"
  by (simp add: fresh_session_def ex_config_def ex_session_def size_inv_def Size_def)

lemma run_from_ex: "run_from (ex_config ControlAuto) (run_start (ex_orch ControlAuto))"
  using fresh_ex_config New_ex_config unfolding run_from_def by blast

text \<open>
  Runs for the witnesses: the first handshake succeeds, and over the connection a viewer takes
  control.
\<close>

definition ex_at :: "Orch \<Rightarrow> loop_pc \<Rightarrow> action list \<Rightarrow> Run" where
  "ex_at st pc acts = (run_start (ex_orch ControlAuto))\<lparr>r_orch := st, r_loop := pc, r_acts := acts\<rparr>"

lemmas ex_at_simps = ex_at_def run_start_def

lemma ex_at_fields [simp]:
  "r_orch (ex_at st pc acts) = st" "r_loop (ex_at st pc acts) = pc" "r_acts (ex_at st pc acts) = acts"
  "returned (ex_at st pc acts) = None" "ctx_done (ex_at st pc acts) = False"
  "(ex_at st pc acts)\<lparr>r_orch := st'\<rparr> = ex_at st' pc acts"
  "(ex_at st pc acts)\<lparr>r_loop := pc'\<rparr> = ex_at st pc' acts"
  "(ex_at st pc acts)\<lparr>r_acts := acts'\<rparr> = ex_at st pc acts'"
  by (simp_all add: ex_at_simps)

abbreviation ex_dial :: action where
  "ex_dial \<equiv> Dial (dial_request ex_relay ''sess'' ''tok'')"

lemma ex_dialling: "run_from (ex_config ControlAuto) (ex_at (ex_orch ControlAuto) (Dialing startBackoff) [ex_dial])"
  by (rule run_from_step [OF run_from_ex run_stepI(2)], simp add: run_start_def)
    (use loop_step.head_dial [of "run_start (ex_orch ControlAuto)" startBackoff] in \<open>simp add: ex_at_simps ex_orch_def\<close>)

lemma ex_serving: "run_from (ex_config ControlAuto) (ex_at (ex_up ControlAuto) Serving [ex_dial, Serve])"
proof (rule run_from_step [OF ex_dialling run_stepI(2)])
  show "loop_step Outside (ex_at (ex_orch ControlAuto) (Dialing startBackoff) [ex_dial])
      (ex_at (ex_up ControlAuto) Serving [ex_dial, Serve])"
    using loop_step.dialled [of "ex_at (ex_orch ControlAuto) (Dialing startBackoff) [ex_dial]" startBackoff
        ex_env "\<lambda>_. True" "\<lambda>_. WsConn" "ex_up ControlAuto" Serving "[Serve]"]
    by (simp add: ex_at_simps after_dial_def DialRunner_def ex_up_def)
qed (simp add: ex_at_simps)

lemma ex_serving_owned: "run_from (ex_config ControlAuto) (ex_at ex_owned Serving [ex_dial, Serve])"
proof (rule run_from_step [OF ex_serving run_stepI(3)])
  show "serve_step Outside (ex_at (ex_up ControlAuto) Serving [ex_dial, Serve]) (ex_at ex_owned Serving [ex_dial, Serve])"
    using serve_step.message [of "ex_at (ex_up ControlAuto) Serving [ex_dial, Serve]" _ ex_env
        "WsBinary (ex_frame ''r'' ''v'' 1 KindCtrlReq [])"]
    by (simp add: ex_at_simps reader_message_def ex_owned_def ex_up_def serve_start_def)
qed (simp add: ex_at_simps)

text \<open>
  C29: The exit code. Once the exit watcher has reaped the command, \<^verbatim>\<open>Run\<close> returns the
  command's own exit code, as 32 bits, whatever else happened. Otherwise it returns -1, and that
  only if the host cancelled the session or the relay rejected it: a session that ends because its
  command ends returns the command's code.
\<close>

theorem run_exit_code:
  assumes "run_from cfg r" "returned r = Some c"
  shows "if r_exit r = Waiting then c = -1 \<and> (parent_done r \<or> r_loop r = Ended ByRejection)
    else \<exists>code. child_dead r = Some code \<and> c = int32 code"
proof -
  from run_from_inv [OF assms(1)] have i: "run_inv r" by blast
  with assms(2) obtain how where h: "r_loop r = Ended how" "c = run_code (r_orch r)" by (auto simp: run_inv_def)
  with i show ?thesis by (cases how) (auto simp: run_inv_def run_code_def int32_def)
qed

text \<open>
  A session whose command ends: it exits with 7, is reaped, announced and torn down, and
  \<^verbatim>\<open>Run\<close> returns 7.
\<close>

theorem run_exit_code_witness:
  "\<exists>r. run_from (ex_config ControlAuto) r \<and> child_dead r = Some 7 \<and> r_exit r = Finished
    \<and> returned r = Some 7 \<and> (\<exists>code. child_dead r = Some code \<and> 7 = int32 code)"
proof -
  let ?s = "signalExit ex_env (child_exit 7 (ex_orch ControlAuto))"
  let ?r = "\<lambda>x c p l t st. \<lparr>r_orch = st, r_loop = l, r_acts = [], r_exit = x, watch_done = False, pump_done = p,
      keep_done = False, child_dead = Some 7, tty_eof = False, parent_done = False, ctx_done = c, returned = t\<rparr>"
  let ?h = "Head startBackoff" and ?E = "Ended ByContext" and ?c = "ex_config ControlAuto"
  note go = run_from_step [OF _ run_stepI(1)]
  have "run_from ?c (?r Waiting False False ?h None (ex_orch ControlAuto))"
    using go [OF run_from_ex _ goroutine_step.die [where code = 7]] by (simp add: run_start_def)
  from go [OF this _ goroutine_step.reap] have "run_from ?c (?r Recorded False False ?h None (child_exit 7 (ex_orch ControlAuto)))" by simp
  from go [OF this _ goroutine_step.announce [where e = ex_env]] have "run_from ?c (?r Announced False False ?h None ?s)" by simp
  from go [OF this _ goroutine_step.flushed] have "run_from ?c (?r Cancelled True False ?h None ?s)" by simp
  from go [OF this _ goroutine_step.teardown] have "run_from ?c (?r Finished True False ?h None (shutdown ?s))" by simp
  from go [OF this _ goroutine_step.pump_end] have "run_from ?c (?r Finished True True ?h None (shutdown ?s))"
    by (simp add: shutdown_def child_exit_def signalExit_def emit_shapes Let_def ex_orch_def)
  from run_from_step [OF this run_stepI(2) [OF _ loop_step.head_stop]]
  have "run_from ?c (?r Finished True True ?E None (shutdown ?s))" by simp
  from go [OF this _ goroutine_step.run_return] have f: "run_from ?c (?r Finished True True ?E (Some 7) (shutdown ?s))"
    by (simp add: run_code_def signalExit_def emit_shapes)
  with run_exit_code [OF f, of 7] show ?thesis by (intro exI conjI) auto
qed

text \<open>
  After a rejection by the relay the command's code can be lost: the connect loop is over, the
  command exits with 7, the terminal's end of file ends the pump, and \<^verbatim>\<open>Run\<close> returns -1
  before the exit watcher has stored the code.
\<close>

lemma rejected_code_lost:
  "\<exists>r. run_from (ex_config ControlAuto) r \<and> child_dead r = Some 7 \<and> \<not> parent_done r \<and> returned r = Some (-1)"
proof -
  let ?st = "note_host ex_env (rejectedNotice \<lparr>Status = 401\<rparr>) (ex_orch ControlAuto)"
  let ?r = "\<lambda>d eof p t. (ex_at ?st (Ended ByRejection) [ex_dial])\<lparr>child_dead := d, tty_eof := eof, pump_done := p, returned := t\<rparr>"
  let ?c = "ex_config ControlAuto"
  note go = run_from_step [OF _ run_stepI(1)]
  have "loop_step Outside (ex_at (ex_orch ControlAuto) (Dialing startBackoff) [ex_dial]) (?r None False False None)"
    using loop_step.dialled [of "ex_at (ex_orch ControlAuto) (Dialing startBackoff) [ex_dial]" startBackoff
        ex_env "\<lambda>_. True" "\<lambda>_. WsError (Some 401)" ?st "Ended ByRejection" "[]"]
    by (simp add: ex_at_simps rejection_ends)
  from run_from_step [OF ex_dialling run_stepI(2) [OF _ this]]
  have "run_from ?c (?r None False False None)" by (simp add: ex_at_simps)
  from go [OF this _ goroutine_step.die [where code = 7]] have "run_from ?c (?r (Some 7) False False None)" by (simp add: ex_at_simps)
  from go [OF this _ goroutine_step.hangup] have "run_from ?c (?r (Some 7) True False None)" by (simp add: ex_at_simps)
  from go [OF this _ goroutine_step.pump_end] have "run_from ?c (?r (Some 7) True True None)" by (simp add: ex_at_simps)
  from go [OF this _ goroutine_step.run_return] have "run_from ?c (?r (Some 7) True True (Some (-1)))"
    by (simp add: run_code_def ex_at_simps note_host_shape ex_orch_def)
  then show ?thesis by (intro exI conjI) (auto simp: ex_at_simps)
qed

text \<open>
  C30: \<^verbatim>\<open>Run\<close> is a run of the orchestrator. However its goroutines, the command, the host
  and the relay interleave, the orchestrator's state is one the step relation reaches from
  \<^verbatim>\<open>New\<close>: the goroutines respect every order the step relation asks for - one connection at
  a time, the child reaped once, announced only then. A connection exists exactly while
  the loop is in \<^verbatim>\<open>serveConn\<close>, and an owner only then; the PTY is closed exactly when the teardown
  ran, and the command is sent SIGTERM at most once; and when \<^verbatim>\<open>Run\<close> has returned there is no
  connection, no owner and no viewer, and nothing happens any more.
\<close>

theorem run_refines_orch:
  assumes "run_from cfg r"
  shows "(\<exists>st. Orchestrator.New cfg = Inr st \<and> orch_step\<^sup>*\<^sup>* st (r_orch r))
    \<and> (conn_obj (r_orch r) \<noteq> None \<longleftrightarrow> r_loop r = Serving)
    \<and> (controlOwner (r_orch r) \<noteq> [] \<longrightarrow> r_loop r = Serving)
    \<and> ptmx_open (sess (r_orch r)) = (\<not> shutdownOnce (r_orch r))
    \<and> length (sent_signals (sess (r_orch r))) \<le> 1
    \<and> (returned r \<noteq> None \<longrightarrow> conn_obj (r_orch r) = None \<and> controlOwner (r_orch r) = []
        \<and> viewers (r_orch r) = 0 \<and> \<not> (\<exists>r'. any_step r r'))"
proof -
  from run_from_inv [OF assms] obtain st where
    st: "Orchestrator.New cfg = Inr st" "orch_step\<^sup>*\<^sup>* st (r_orch r)" "run_inv r" "proc_inv (r_orch r)"
      "conn_inv (r_orch r)" by blast
  have c: "conn_obj (r_orch r) \<noteq> None \<longleftrightarrow> r_loop r = Serving" using st(3) by (simp add: run_inv_def)
  have n: "returned r \<noteq> None \<longrightarrow> conn_obj (r_orch r) = None \<and> \<not> (\<exists>r'. any_step r r')"
    using st(3) c by (auto simp: run_inv_def any_step_def run_step_def)
  have "ptmx_open (sess (r_orch r)) = (\<not> shutdownOnce (r_orch r)) \<and> length (sent_signals (sess (r_orch r))) \<le> 1"
    using st(4) by (simp add: proc_inv_def)
  then show ?thesis using st(1,2) c n conn_inv_None [OF st(5)] by blast
qed

theorem run_refines_orch_witness:
  "controlOwner (r_orch (ex_at ex_owned Serving [ex_dial, Serve])) = ''v''
   \<and> r_loop (ex_at ex_owned Serving [ex_dial, Serve]) = Serving
   \<and> conn_obj (r_orch (ex_at ex_owned Serving [ex_dial, Serve])) \<noteq> None
   \<and> orch_step\<^sup>*\<^sup>* (ex_orch ControlAuto) (r_orch (ex_at ex_owned Serving [ex_dial, Serve]))"
  using run_refines_orch [OF ex_serving_owned] New_ex_config [of ControlAuto] ex_owned_facts
  by (simp add: ex_at_simps)

end
