(* ===== verification/Ending.thy ===== *)
theory Ending
  imports Lifecycle
begin

text \<open>
  That \<^verbatim>\<open>Run\<close> of \<^verbatim>\<open>src/runner/internal/runner/runner.go\<close> returns: a rank that every step of
  the runner's own decreases, and that in an ending session some such step is always possible.
\<close>

subsection \<open>Returning\<close>

text \<open>
  What is left for the runner to do by itself: the positions of its goroutines, what the sender
  still has to write, and room for the two messages of the announcement.
\<close>

definition conn_rank :: "Orch \<Rightarrow> nat" where
  "conn_rank st =
     (case conn_obj st of
        None \<Rightarrow> 0
      | Some c \<Rightarrow> of_bool (reader_up c) + of_bool (sender_up c) + length (send_q c) + length (join_q c))
     + of_bool (published st)"




lemma conn_rank_cong:
  "conn_obj st' = conn_obj st \<Longrightarrow> published st' = published st \<Longrightarrow> conn_rank st' = conn_rank st"
  by (simp add: conn_rank_def)

lemma conn_rank_handlers [simp]:
  "conn_rank (child_exit code st) = conn_rank st" "conn_rank (shutdown st) = conn_rank st"
  by (rule conn_rank_cong; simp add: child_exit_def shutdown_def Let_def)+




lemma published_sender [simp]:
  "published (sender_join e st) = published st" "published (sender_send e st) = published st"
  using only_conn_sender_join [of st e] only_conn_sender_send [of st e] by (auto elim!: only_connE)















end
