(* ===== verification/Resume.thy ===== *)
theory Resume
  imports Lifecycle
begin

text \<open>
  The reconnect loop over a whole run: what its requests name, how long it waits, and what of the
  session outlives a connection.
\<close>

subsection \<open>One session, however often the connection is lost\<close>

text \<open>What the loop's actions name, and what it holds between them.\<close>

definition action_ok :: "Config \<Rightarrow> action \<Rightarrow> bool" where
  "action_ok cfg a \<longleftrightarrow>
     (case a of
        Dial q \<Rightarrow> q = dial_request (cfg_Client cfg) (cfg_SessionID cfg) (cfg_Token cfg)
      | Reclaim i t ttl mv \<Rightarrow> i = cfg_SessionID cfg \<and> t = cfg_Token cfg \<and> mv = cfg_MultiViewer cfg
          \<and> (\<exists>s now. o_ttl s = cfg_TTL cfg \<and> expiresAt s = cfg_ExpiresAt cfg \<and> reclaimTTL s now = (ttl, True))
      | _ \<Rightarrow> True)"

definition setup_of :: "Config \<Rightarrow> Orch \<Rightarrow> bool" where
  "setup_of cfg st \<longleftrightarrow> o_client st = cfg_Client cfg \<and> o_id st = cfg_SessionID cfg \<and> o_tok st = cfg_Token cfg
     \<and> o_ttl st = cfg_TTL cfg \<and> expiresAt st = cfg_ExpiresAt cfg \<and> multiViewer st = cfg_MultiViewer cfg"

definition waits_ok :: "action list \<Rightarrow> bool" where
  "waits_ok acts \<longleftrightarrow> (\<forall>pre w post. acts = pre @ Wait_for w # post \<longrightarrow> w = backoff_of pre)"

fun holds :: "loop_pc \<Rightarrow> action list \<Rightarrow> bool" where
  "holds (Head b) acts = (b = backoff_of acts)"
| "holds (Dialing b) acts = (b = backoff_of acts)"
| "holds (Reclaiming b ttl) acts = (b = backoff_of acts)"
| "holds (Backing b) acts = (next_backoff b = backoff_of acts)"
| "holds Serving acts = (backoff_of acts = startBackoff)"
| "holds (Ended how) acts = True"

definition acts_inv :: "Config \<Rightarrow> Run \<Rightarrow> bool" where
  "acts_inv cfg r \<longleftrightarrow> list_all (action_ok cfg) (r_acts r) \<and> waits_ok (r_acts r) \<and> holds (r_loop r) (r_acts r)"

lemma waits_ok_Nil [simp]: "waits_ok []"
  by (simp add: waits_ok_def)

lemma waits_ok_snoc [simp]: "waits_ok (acts @ [a]) \<longleftrightarrow> waits_ok acts \<and> (\<forall>w. a = Wait_for w \<longrightarrow> w = backoff_of acts)"
proof
  assume l: "waits_ok (acts @ [a])"
  have "w = backoff_of pre" if "acts = pre @ Wait_for w # post" for pre w post
    using l that unfolding waits_ok_def by (metis append.assoc append_Cons)
  with l show "waits_ok acts \<and> (\<forall>w. a = Wait_for w \<longrightarrow> w = backoff_of acts)"
    unfolding waits_ok_def by blast
next
  assume r: "waits_ok acts \<and> (\<forall>w. a = Wait_for w \<longrightarrow> w = backoff_of acts)"
  have "w = backoff_of pre" if "acts @ [a] = pre @ Wait_for w # post" for pre w post
  proof (cases post rule: rev_cases)
    case (snoc post' x)
    with that have "acts = pre @ Wait_for w # post'" by simp
    with r show ?thesis by (auto simp: waits_ok_def)
  qed (use that r in auto)
  then show "waits_ok (acts @ [a])" unfolding waits_ok_def by blast
qed

text \<open>The configuration reaches the orchestrator, and no step changes it.\<close>

lemma New_setup: "Orchestrator.New cfg = Inr st \<Longrightarrow> setup_of cfg st"
  by (auto simp: New_def setup_of_def split: sum.splits)

lemma run_from_setup:
  assumes "run_from cfg r"
  shows "setup_of cfg (r_orch r)"
proof -
  from run_from_inv [OF assms] obtain st where "setup_of cfg st" "same_setup st (r_orch r)"
    using New_setup run_setup by metis
  then show ?thesis by (simp add: setup_of_def same_setup_def)
qed

lemma reclaim_action_ok:
  "setup_of cfg st \<Longrightarrow> reclaimTTL st now = (ttl, True) \<Longrightarrow>
   action_ok cfg (Reclaim (o_id st) (o_tok st) ttl (multiViewer st))"
  by (auto simp: action_ok_def setup_of_def)

lemma acts_inv_after:
  assumes "acts_inv cfg r" "setup_of cfg (r_orch r)" "b = backoff_of (r_acts r)"
    and "r' = r\<lparr>r_orch := st, r_loop := pc, r_acts := r_acts r @ acts\<rparr>"
  shows "after_dial e cn b ok answer (r_orch r) = (st, pc, acts) \<Longrightarrow> acts_inv cfg r'"
    and "after_reclaim e cn b again (r_orch r) = (st, pc, acts) \<Longrightarrow> acts_inv cfg r'"
proof -
  note k = assms(1) [unfolded acts_inv_def] assms(3) reclaim_action_ok [OF assms(2)]
  show "acts_inv cfg r'" if "after_dial e cn b ok answer (r_orch r) = (st, pc, acts)"
    using that k by (cases rule: after_dial_cases) (simp_all add: acts_inv_def assms(4) action_ok_def [of _ Serve]
      action_ok_def [of _ "Wait_for w" for w])
  show "acts_inv cfg r'" if "after_reclaim e cn b again (r_orch r) = (st, pc, acts)"
    using that k by (cases rule: after_reclaim_cases) (simp_all add: acts_inv_def assms(4) action_ok_def [of _ Reclaimed]
      action_ok_def [of _ "Wait_for w" for w])
qed

lemma acts_inv_loop:
  assumes "loop_step a r r'" "acts_inv cfg r" "setup_of cfg (r_orch r)"
  shows "acts_inv cfg r'"
  using assms(1)
proof cases
  case (dialled b e ok dial st pc acts)
  then show ?thesis using acts_inv_after(1) [OF assms(2,3)] assms(2) by (simp add: acts_inv_def)
next
  case (dial_cut b e ok st pc acts)
  then show ?thesis using acts_inv_after(1) [OF assms(2,3)] assms(2) by (simp add: acts_inv_def)
next
  case (reclaimed b ttl e post st pc acts)
  then show ?thesis using acts_inv_after(2) [OF assms(2,3)] assms(2) by (simp add: acts_inv_def)
next
  case (reclaim_cut b ttl e err st pc acts)
  then show ?thesis using acts_inv_after(2) [OF assms(2,3)] assms(2) by (simp add: acts_inv_def)
qed (use assms(2,3) in \<open>simp_all add: acts_inv_def action_ok_def setup_of_def\<close>)

lemma acts_inv_serve: "serve_step a r r' \<Longrightarrow> acts_inv cfg r \<Longrightarrow> acts_inv cfg r'"
  by (induction rule: serve_step.induct) (simp_all add: acts_inv_def)

lemma acts_inv_goroutine: "goroutine_step a r r' \<Longrightarrow> acts_inv cfg r \<Longrightarrow> acts_inv cfg r'"
  by (induction rule: goroutine_step.induct) (simp_all add: acts_inv_def)

lemma run_from_acts:
  assumes "run_from cfg r"
  shows "acts_inv cfg r"
proof -
  from assms obtain st where st: "fresh_session (cfg_Session cfg)" "Orchestrator.New cfg = Inr st"
    "any_step\<^sup>*\<^sup>* (run_start st) r" by (auto simp: run_from_def)
  from st(3) show ?thesis
  proof (induction rule: rtranclp_induct)
    case base
    show ?case by (simp add: acts_inv_def run_start_def)
  next
    case (step s t)
    then obtain a where a: "run_step a s t" by (auto simp: any_step_def)
    have "run_from cfg s" unfolding run_from_def using st(1,2) step(1) by blast
    then have "setup_of cfg (r_orch s)" by (rule run_from_setup)
    with a step(3) show ?case
      by (elim run_stepE) (use acts_inv_loop acts_inv_serve acts_inv_goroutine in blast)+
  qed
qed

text \<open>
  C35: One session for the life of the command. However often the connection is lost, and whatever
  the relay answers, every handshake of a run is the request for the session's own id with its own
  runner token; every re-claim names that id, that token and the session's own viewer limit, with
  the flag's lifetime when there is no deadline and otherwise the time that was left at a moment
  before the deadline; and over the reconnects the keys stay the same and no replay floor falls.
\<close>

theorem reconnect_keeps_session:
  assumes "run_from cfg r" "any_step\<^sup>*\<^sup>* r r'"
  shows "(\<forall>q. Dial q \<in> set (r_acts r') \<longrightarrow> q = dial_request (cfg_Client cfg) (cfg_SessionID cfg) (cfg_Token cfg))
    \<and> (\<forall>i t ttl mv. Reclaim i t ttl mv \<in> set (r_acts r') \<longrightarrow>
         i = cfg_SessionID cfg \<and> t = cfg_Token cfg \<and> mv = cfg_MultiViewer cfg
         \<and> (if cfg_ExpiresAt cfg = 0 then ttl = cfg_TTL cfg
            else \<exists>now < cfg_ExpiresAt cfg * Second. reclaimTTL (r_orch r') now = (ttl, True)))
    \<and> r2v (r_orch r') = r2v (r_orch r) \<and> v2r (r_orch r') = v2r (r_orch r)
    \<and> (\<forall>v. floor_of (r_orch r) v \<le> floor_of (r_orch r') v)"
proof -
  note r' = run_from_steps [OF assms]
  have ok: "a \<in> set (r_acts r') \<Longrightarrow> action_ok cfg a" for a
    using run_from_acts [OF r'] by (simp add: acts_inv_def list_all_iff)
  have time: "if cfg_ExpiresAt cfg = 0 then ttl = cfg_TTL cfg
      else \<exists>now < cfg_ExpiresAt cfg * Second. reclaimTTL (r_orch r') now = (ttl, True)"
    if s: "o_ttl s = cfg_TTL cfg" "expiresAt s = cfg_ExpiresAt cfg" "reclaimTTL s now = (ttl, True)" for s now ttl
  proof -
    have "reclaimTTL (r_orch r') now = (ttl, True)"
      using s run_from_setup [OF r'] unfolding reclaimTTL_def setup_of_def by metis
    moreover from s have "cfg_ExpiresAt cfg \<noteq> 0 \<Longrightarrow> now < cfg_ExpiresAt cfg * Second"
      by (auto simp: reclaimTTL_def time_left_def Let_def split: if_splits)
    ultimately show ?thesis using s by (auto simp: reclaimTTL_def)
  qed
  from run_from_inv [OF assms(1)] any_steps [OF assms(2)] have o: "orch_step\<^sup>*\<^sup>* (r_orch r) (r_orch r')" by blast
  then have "r2v (r_orch r') = r2v (r_orch r) \<and> v2r (r_orch r') = v2r (r_orch r)"
    using run_setup [OF o] by (simp add: same_setup_def)
  moreover have "\<forall>v. floor_of (r_orch r) v \<le> floor_of (r_orch r') v" using floor_run [OF o] by blast
  moreover have "\<forall>q. Dial q \<in> set (r_acts r') \<longrightarrow> q = dial_request (cfg_Client cfg) (cfg_SessionID cfg) (cfg_Token cfg)"
    using ok by (fastforce simp: action_ok_def)
  moreover have "\<forall>i t ttl mv. Reclaim i t ttl mv \<in> set (r_acts r') \<longrightarrow>
      i = cfg_SessionID cfg \<and> t = cfg_Token cfg \<and> mv = cfg_MultiViewer cfg
      \<and> (if cfg_ExpiresAt cfg = 0 then ttl = cfg_TTL cfg
         else \<exists>now < cfg_ExpiresAt cfg * Second. reclaimTTL (r_orch r') now = (ttl, True))"
    using ok time by (fastforce simp: action_ok_def)
  ultimately show ?thesis by blast
qed

text \<open>
  A viewer has taken control when the connection is lost; the relay answers the next handshake with
  404, and the session is re-claimed.
\<close>

abbreviation ex_lost :: Orch where
  "ex_lost \<equiv> serve_finish (serve_unpublish (sender_stop (serve_reader_end ex_owned)))"

lemma ex_reclaiming:
  "run_from (ex_config ControlAuto) (ex_at ex_owned Serving [ex_dial, Serve])
   \<and> any_step\<^sup>*\<^sup>* (ex_at ex_owned Serving [ex_dial, Serve])
      (ex_at ex_lost (Reclaiming startBackoff 0) [ex_dial, Serve, ex_dial, Reclaim ''sess'' ''tok'' 0 False])"
proof -
  let ?A = "[ex_dial, Serve]"
  have su: "o_client st = ex_relay \<and> o_id st = ''sess'' \<and> o_tok st = ''tok'' \<and> o_ttl st = 0 \<and> expiresAt st = 0
      \<and> multiViewer st = False" if "orch_step\<^sup>*\<^sup>* (ex_orch ControlAuto) st" for st
    using run_setup [OF that] by (simp add: same_setup_def ex_orch_def)
  obtain c where c: "conn_obj ex_owned = Some c" using ex_owned_facts(4) by auto
  have up: "reader_up c" "sender_up c" "published ex_owned" using c ex_owned_up by auto
  note st = serve_reader_end_def serve_unpublish_def sender_stop_def serve_finish_def clearControlOwner_def upd_conn_def conn_fail_def
  let ?s1 = "serve_reader_end ex_owned" let ?s2 = "sender_stop ?s1" let ?s3 = "serve_unpublish ?s2"
  let ?c1 = "(conn_fail c)\<lparr>reader_up := False\<rparr>"
  have cs: "conn_obj ?s1 = Some ?c1" "conn_obj ?s2 = Some (?c1\<lparr>sender_up := False\<rparr>)"
    "conn_obj ?s3 = Some (?c1\<lparr>sender_up := False\<rparr>)" using c by (simp_all add: st)
  have 1: "any_step (ex_at ex_owned Serving ?A) (ex_at ?s1 Serving ?A)"
    using any_stepI(3) [OF serve_step.lost [of "ex_at ex_owned Serving ?A" c]] c up by simp
  have 2: "any_step (ex_at ?s1 Serving ?A) (ex_at ?s2 Serving ?A)"
    using any_stepI(3) [OF serve_step.send_stop [of "ex_at ?s1 Serving ?A" ?c1]] cs up by (simp add: conn_fail_def)
  have 3: "any_step (ex_at ?s2 Serving ?A) (ex_at ?s3 Serving ?A)"
    using any_stepI(3) [OF serve_step.unpublish [of "ex_at ?s2 Serving ?A" "?c1\<lparr>sender_up := False\<rparr>"]] cs up
    by (simp add: sender_stop_def serve_reader_end_def upd_conn_def)
  have 4: "any_step (ex_at ?s3 Serving ?A) (ex_at ex_lost (Head startBackoff) ?A)"
    using any_stepI(3) [OF serve_step.served [of "ex_at ?s3 Serving ?A" "?c1\<lparr>sender_up := False\<rparr>"]] cs
    by (simp add: serve_unpublish_def)
  have r4: "any_step\<^sup>*\<^sup>* (ex_at ex_owned Serving ?A) (ex_at ex_lost (Head startBackoff) ?A)"
    using 1 2 3 4 by (meson rtranclp.rtrancl_into_rtrancl rtranclp.rtrancl_refl)
  from run_from_inv [OF ex_serving_owned] any_steps [OF r4] ex_owned_run
  have "orch_step\<^sup>*\<^sup>* (ex_orch ControlAuto) ex_lost" by (fastforce simp: ex_at_simps)
  note su = su [OF this]
  have 5: "any_step (ex_at ex_lost (Head startBackoff) ?A) (ex_at ex_lost (Dialing startBackoff) (?A @ [ex_dial]))"
    using any_stepI(2) [OF loop_step.head_dial [of "ex_at ex_lost (Head startBackoff) ?A" startBackoff]] su by simp
  have d: "after_dial ex_env False startBackoff ok (DialRunner ex_relay (\<lambda>_. WsError (Some 404)) ''sess'' ''tok'') ex_lost
      = (ex_lost, Reclaiming startBackoff 0, [Reclaim ''sess'' ''tok'' 0 False])" for ok
    using su by (simp add: after_dial_def DialRunner_def NotFound_def reclaimTTL_def)
  have 6: "any_step (ex_at ex_lost (Dialing startBackoff) (?A @ [ex_dial]))
      (ex_at ex_lost (Reclaiming startBackoff 0) ((?A @ [ex_dial]) @ [Reclaim ''sess'' ''tok'' 0 False]))"
    using any_stepI(2) [OF loop_step.dialled [of "ex_at ex_lost (Dialing startBackoff) (?A @ [ex_dial])" startBackoff ex_env
        "\<lambda>_. True" "\<lambda>_. WsError (Some 404)"]] su d by simp
  show ?thesis using ex_serving_owned r4 5 6 by (auto intro: rtranclp.rtrancl_into_rtrancl)
qed

theorem reconnect_keeps_session_witness:
  "floor_of ex_owned ''v'' = 1 \<and> 1 \<le> floor_of ex_lost ''v'' \<and> v2r ex_lost = v2r ex_owned
   \<and> \<not> (\<exists>q. q \<noteq> dial_request ex_relay ''sess'' ''tok'' \<and> Dial q \<in> set [ex_dial, Serve, ex_dial, Reclaim ''sess'' ''tok'' 0 False])
   \<and> \<not> (\<exists>i t ttl mv. i \<noteq> ''sess'' \<and> Reclaim i t ttl mv \<in> set [ex_dial, Serve, ex_dial, Reclaim ''sess'' ''tok'' 0 False])"
proof -
  let ?r = "ex_at ex_owned Serving [ex_dial, Serve]"
  let ?r' = "ex_at ex_lost (Reclaiming startBackoff 0) [ex_dial, Serve, ex_dial, Reclaim ''sess'' ''tok'' 0 False]"
  have o: "r_orch ?r = ex_owned" "r_orch ?r' = ex_lost"
    "r_acts ?r' = [ex_dial, Serve, ex_dial, Reclaim ''sess'' ''tok'' 0 False]" by (simp_all add: ex_at_simps)
  have c: "cfg_Client (ex_config ControlAuto) = ex_relay" "cfg_SessionID (ex_config ControlAuto) = ''sess''"
    "cfg_Token (ex_config ControlAuto) = ''tok''" by (simp_all add: ex_config_def)
  note k = reconnect_keeps_session [OF conjunct1 [OF ex_reclaiming] conjunct2 [OF ex_reclaiming], unfolded o c]
  have "floor_of ex_owned ''v'' \<le> floor_of ex_lost ''v''" "v2r ex_lost = v2r ex_owned" using k by blast+
  moreover have "\<not> (\<exists>q. q \<noteq> dial_request ex_relay ''sess'' ''tok''
      \<and> Dial q \<in> set [ex_dial, Serve, ex_dial, Reclaim ''sess'' ''tok'' 0 False])" using k by blast
  moreover have "\<not> (\<exists>i t ttl mv. i \<noteq> ''sess''
      \<and> Reclaim i t ttl mv \<in> set [ex_dial, Serve, ex_dial, Reclaim ''sess'' ''tok'' 0 False])" using k by blast
  ultimately show ?thesis using ex_owned_facts(3) by simp
qed

text \<open>
  C10: Reconnecting waits longer and longer. Over a whole run, each wait of the loop is half a
  second, doubled for every wait since the last connection or successful re-claim, and never more
  than 15 seconds.
\<close>

theorem loop_backs_off:
  assumes "run_from cfg r" "r_acts r = pre @ Wait_for w # post"
  shows "w = min (500 * 10 ^ 6 * 2 ^ waits_since pre) (15 * 10 ^ 9)
    \<and> 500 * 10 ^ 6 \<le> w \<and> w \<le> 15 * 10 ^ 9"
proof -
  have "w = backoff_of pre"
    using run_from_acts [OF assms(1)] assms(2) by (auto simp: acts_inv_def waits_ok_def)
  with backoff_of_bounds [of pre] show ?thesis by (simp add: backoff_of_def)
qed

text \<open>
  While the relay is unreachable, the loop dials and waits: here \<open>n\<close> times, from the start.
\<close>

fun down_acts :: "nat \<Rightarrow> action list" where
  "down_acts 0 = []"
| "down_acts (Suc n) = down_acts n @ [ex_dial, Wait_for (backoff_of (down_acts n))]"

lemma ex_down: "run_from (ex_config ControlAuto) (ex_at (ex_orch ControlAuto) (Head (backoff_of (down_acts n))) (down_acts n))"
proof (induction n)
  case 0
  show ?case using run_from_ex by (simp add: ex_at_simps)
next
  case (Suc n)
  let ?b = "backoff_of (down_acts n)" and ?o = "ex_orch ControlAuto" and ?A = "down_acts n"
  note go = run_from_step [OF _ run_stepI(2)]
  have "run_from (ex_config ControlAuto) (ex_at ?o (Dialing ?b) (?A @ [ex_dial]))"
    using go [OF Suc _ loop_step.head_dial] by (simp add: ex_at_simps ex_orch_def)
  from go [OF this _ loop_step.dialled [where st = ?o and pc = "Backing ?b" and dial = "\<lambda>_. WsError None"]]
  have "run_from (ex_config ControlAuto) (ex_at ?o (Backing ?b) (?A @ [ex_dial, Wait_for ?b]))"
    by (simp add: ex_at_simps after_dial_def DialRunner_def)
  from go [OF this _ loop_step.wait_over]
  have "run_from (ex_config ControlAuto) (ex_at ?o (Head (next_backoff ?b)) (?A @ [ex_dial, Wait_for ?b]))"
    by (simp add: ex_at_simps)
  moreover have "backoff_of (?A @ [ex_dial, Wait_for ?b]) = next_backoff ?b"
    using backoff_of_wait [of "?A @ [ex_dial]" ?b] by simp
  ultimately show ?case by simp
qed

theorem loop_backs_off_witness:
  "Wait_for 500000000 \<in> set (down_acts 7) \<and> Wait_for 8000000000 \<in> set (down_acts 7)
   \<and> down_acts 7 = (down_acts 6 @ [ex_dial]) @ Wait_for 15000000000 # []"
proof -
  let ?A = "down_acts 6 @ [ex_dial]"
  have n: "waits_since (down_acts n @ [ex_dial]) = n" for n
    by (induction n) (simp_all add: waits_since_def)
  have d: "down_acts 7 = ?A @ Wait_for (backoff_of (down_acts 6)) # []"
    using down_acts.simps(2) [of 6] by simp
  have "r_acts (ex_at (ex_orch ControlAuto) (Head (backoff_of (down_acts 7))) (down_acts 7))
      = ?A @ Wait_for (backoff_of (down_acts 6)) # []" using d by (simp add: ex_at_simps)
  from loop_backs_off [OF ex_down this] n have "backoff_of (down_acts 6) = 15000000000" by simp
  moreover have "Wait_for 500000000 \<in> set (down_acts 7)" "Wait_for 8000000000 \<in> set (down_acts 7)"
    by (simp_all add: eval_nat_numeral backoff_of_def waits_since_def)
  ultimately show ?thesis using d by simp
qed

text \<open>
  A relay that answers every handshake with 404 and accepts every re-claim keeps the loop going
  without a single wait.
\<close>

lemma reclaim_without_wait:
  assumes "run_from cfg r" "r_loop r = Head b" "returned r = None" "\<not> ctx_done r" "cfg_ExpiresAt cfg = 0"
    and "\<And>st. setup_of cfg st \<Longrightarrow> \<exists>s. CreateSessionWithOptions (o_client st) post (o_id st) (o_tok st) (o_ttl st)
        \<lparr>MultiViewer = multiViewer st\<rparr> = Inr s"
  shows "\<exists>r' b'. any_step\<^sup>*\<^sup>* r r' \<and> r_loop r' = Head b' \<and> returned r' = None \<and> \<not> ctx_done r'
    \<and> r_acts r' = r_acts r @ concat (replicate n
        [Dial (dial_request (cfg_Client cfg) (cfg_SessionID cfg) (cfg_Token cfg)),
         Reclaim (cfg_SessionID cfg) (cfg_Token cfg) (cfg_TTL cfg) (cfg_MultiViewer cfg), Reclaimed])"
proof (induction n)
  case (Suc n)
  let ?d = "Dial (dial_request (cfg_Client cfg) (cfg_SessionID cfg) (cfg_Token cfg))"
  let ?c = "Reclaim (cfg_SessionID cfg) (cfg_Token cfg) (cfg_TTL cfg) (cfg_MultiViewer cfg)"
  let ?W = "concat (replicate n [?d, ?c, Reclaimed])"
  from Suc obtain r1 b1 where r1: "any_step\<^sup>*\<^sup>* r r1" "r_loop r1 = Head b1" "returned r1 = None" "\<not> ctx_done r1"
    "r_acts r1 = r_acts r @ ?W" by blast
  let ?o = "r_orch r1" and ?n = "note_host ex_env replacedNotice (r_orch r1)"
  have su: "setup_of cfg ?o" using run_from_setup [OF run_from_steps [OF assms(1) r1(1)]] .
  note su' = su [unfolded setup_of_def]
  obtain s where s: "CreateSessionWithOptions (o_client ?o) post (o_id ?o) (o_tok ?o) (o_ttl ?o)
      \<lparr>MultiViewer = multiViewer ?o\<rparr> = Inr s" using assms(6) [OF su] by blast
  have d: "after_dial ex_env False b1 (\<lambda>_. True)
      (DialRunner (cfg_Client cfg) (\<lambda>_. WsError (Some 404)) (cfg_SessionID cfg) (cfg_Token cfg)) ?o
      = (?o, Reclaiming b1 (cfg_TTL cfg), [?c])"
    using su' assms(5) by (simp add: after_dial_def DialRunner_def NotFound_def reclaimTTL_def)
  let ?r2 = "r1\<lparr>r_loop := Dialing b1, r_acts := r_acts r1 @ [?d]\<rparr>"
  let ?r3 = "?r2\<lparr>r_loop := Reclaiming b1 (cfg_TTL cfg), r_acts := (r_acts r1 @ [?d]) @ [?c]\<rparr>"
  let ?r4 = "?r3\<lparr>r_orch := ?n, r_loop := Head startBackoff, r_acts := ((r_acts r1 @ [?d]) @ [?c]) @ [Reclaimed]\<rparr>"
  have "loop_step Runner r1 ?r2" using loop_step.head_dial [of r1 b1] r1(2,4) su' by simp
  moreover have "loop_step Outside ?r2 ?r3"
    using loop_step.dialled [of ?r2 b1 ex_env "\<lambda>_. True" "\<lambda>_. WsError (Some 404)"] d r1(4) su' by simp
  moreover have "loop_step Outside ?r3 ?r4"
    using loop_step.reclaimed [of ?r3 b1 "cfg_TTL cfg" ex_env post] s su' by (simp add: after_reclaim_def)
  ultimately have "any_step r1 ?r2" "any_step ?r2 ?r3" "any_step ?r3 ?r4"
    using r1(3) by (auto intro!: any_stepI(2))
  with r1(1) have "any_step\<^sup>*\<^sup>* r ?r4" by (meson rtranclp.rtrancl_into_rtrancl)
  moreover have "r_acts ?r4 = r_acts r @ concat (replicate (Suc n) [?d, ?c, Reclaimed])"
    using r1(5) by (simp add: replicate_append_same [symmetric])
  ultimately show ?case using r1(3,4) by (intro exI [of _ ?r4]) simp
qed (use assms(2,3,4) in auto)

end
