(* ===== verification/Security.thy ===== *)
theory Security
  imports Examples Replay
begin

text \<open>
  What the runner promises against a hostile relay and a second link holder: no replay, no
  input without control, control bound to the sealed viewer id and never to the relay's label, the
  host's control mode kept over whole runs.
\<close>

subsection \<open>Replay\<close>

lemma v2r_handleBinary: "v2r (handleBinary e fr st) = v2r st"
proof -
  have "same_setup (handleBinary e fr st) st"
    by (cases rule: handleBinary_cases [of e fr st])
      (use dispatch_frame(3) in \<open>auto simp: same_setup_def accepted_def\<close>)
  then show ?thesis by (simp add: same_setup_def)
qed

text \<open>Who sealed a frame, under which number; the runner is a guarded reader of such frames.\<close>

definition runner_opens :: "Orch \<Rightarrow> bytes \<Rightarrow> (string \<times> u64) option" where
  "runner_opens st fr = map_option (\<lambda>(r, v, seq, k, p). (v, seq)) (decode_frame (v2r st) fr)"

interpretation runner: replay_guard runner_opens floor_of handleBinary orch_step "\<lambda>st. st"
proof
  fix s s' :: Orch and f e v n
  show "runner_opens s f = None \<Longrightarrow> handleBinary e f s = s" by (simp add: runner_opens_def handleBinary_eq)
  show "runner_opens s f = Some (v, n) \<Longrightarrow> n \<le> floor_of s v \<Longrightarrow> handleBinary e f s = s"
    by (auto simp: runner_opens_def intro: stale_frame_dropped)
  show "runner_opens s f = Some (v, n) \<Longrightarrow> n \<le> floor_of (handleBinary e f s) v"
    by (auto simp: runner_opens_def intro: floor_after_handleBinary)
  show "runner_opens (handleBinary e f s) = runner_opens s" by (rule ext) (simp add: runner_opens_def v2r_handleBinary)
  show "orch_step s s' \<Longrightarrow> runner_opens s' = runner_opens s"
    using run_setup [OF r_into_rtranclp, of s s'] by (simp add: same_setup_def fun_eq_iff runner_opens_def)
  show "orch_step s s' \<Longrightarrow> floor_of s v \<le> floor_of s' v" by (rule floor_run [OF r_into_rtranclp])
qed

text \<open>
  C1: A sealed frame takes effect at most once. After the runner has handled a frame, in any
  state it can later be in - other frames, viewers leaving, any number of reconnects - the same
  sealed bytes, under whatever routing label the relay puts on them, change nothing.
\<close>

theorem replay_rejected:
  assumes "DecodeRelayViewerFrame fr = Inr (r, sealed)"
    and "DecodeRelayViewerFrame fr' = Inr (r', sealed)"
    and "orch_step\<^sup>*\<^sup>* (handleBinary e fr st) st'"
  shows "handleBinary e' fr' st' = st'"
proof -
  have "runner_opens st fr' = runner_opens st fr"
    using assms(1,2) by (simp add: runner_opens_def decode_frame_def split: sum.split)
  then show ?thesis by (rule runner.replayed [OF _ assms(3)])
qed

theorem replay_rejected_witness:
  "handleBinary ex_env (ex_frame ''route-b'' ''self-a'' 1 KindCtrlReq [])
     (Revoke ex_env (handleBinary ex_env (ex_frame ''route-a'' ''self-a'' 1 KindCtrlReq []) (ex_up ControlAuto)))
   = Revoke ex_env (handleBinary ex_env (ex_frame ''route-a'' ''self-a'' 1 KindCtrlReq []) (ex_up ControlAuto))"
  by (rule replay_rejected [OF decode_relay_viewer_frame decode_relay_viewer_frame])
    (auto intro: orch_step.revoke)

text \<open>
  The replay floor of every viewer after a frame. Only the sealed viewer id's own floor
  moves, to the larger of the old floor and the frame's sequence number; a frame that does not
  open moves nothing.
\<close>

theorem handleBinary_floor:
  "floor_of (handleBinary e fr st) w =
     (case decode_frame (v2r st) fr of
        None \<Rightarrow> floor_of st w
      | Some (r, v, seq, k, p) \<Rightarrow> if w = v then max (floor_of st v) seq else floor_of st w)"
proof (cases "decode_frame (v2r st) fr")
  case (Some x)
  obtain r v seq k p where x: "x = (r, v, seq, k, p)" by (cases x)
  have "floor_of (dispatch e r v k p (accepted r v seq st)) w = floor_of (accepted r v seq st) w"
    by (rule floor_of_cong) (rule dispatch_frame)
  then show ?thesis
    using Some x by (auto simp: handleBinary_eq floor_of_accepted max_def)
qed (simp add: handleBinary_eq)

text \<open>
  Floors never fall: over any run, through reconnects and departures, the floor of every
  viewer only grows, so everything a viewer sent before stays rejected.
\<close>

theorem floors_monotone:
  assumes "orch_step\<^sup>*\<^sup>* st st'"
  shows "floor_of st v \<le> floor_of st' v"
  using assms by (rule floor_run)

theorem floors_monotone_witness:
  "floor_of (ex_up ControlAuto) ''a'' \<le> floor_of (Revoke ex_env (ex_up ControlAuto)) ''a''"
  by (rule floors_monotone) (auto intro: orch_step.revoke)

subsection \<open>Input needs control\<close>

text \<open>
  C2: Exactly when viewer input reaches the command: a frame appends its payload to the PTY's
  input if and only if it opens, is above its sender's floor, is an INPUT frame, and its sealed
  sender is the control owner (and the PTY is open). Every other frame writes nothing.
\<close>

theorem viewer_input_exact:
  "pty_in (sess (handleBinary e fr st)) = pty_in (sess st) @
     (case decode_frame (v2r st) fr of
        None \<Rightarrow> []
      | Some (r, v, seq, k, p) \<Rightarrow>
          if floor_of st v < seq \<and> k = KindInput \<and> controlOwner st = v \<and> ptmx_open (sess st)
          then [p] else [])"
proof (cases "decode_frame (v2r st) fr")
  case (Some x)
  obtain r v seq k p where "x = (r, v, seq, k, p)" by (cases x)
  with Some show ?thesis
    by (auto simp: handleBinary_eq dispatch_def accepted_def viewerHasControl_def SessionWrite_def
        frame kind_defs not_le split: sum.splits)
qed (simp add: handleBinary_eq)

text \<open>
  Resizing the host's PTY is gated like input: the window sizes set on the PTY grow exactly by
  the size in a fresh RESIZE frame of the control owner, and a zero dimension or a short payload
  sets nothing.
\<close>

theorem viewer_resize_exact:
  "winsizes (sess (handleBinary e fr st)) = winsizes (sess st) @
     (case decode_frame (v2r st) fr of
        None \<Rightarrow> []
      | Some (r, v, seq, k, p) \<Rightarrow>
          if floor_of st v < seq \<and> k = KindResize \<and> controlOwner st = v then
            (case DecodeResize p of
               Inl _ \<Rightarrow> []
             | Inr (cols, rows) \<Rightarrow> if cols = 0 \<or> rows = 0 then [] else [(cols, rows)])
          else [])"
proof (cases "decode_frame (v2r st) fr")
  case (Some x)
  obtain r v seq k p where "x = (r, v, seq, k, p)" by (cases x)
  with Some show ?thesis
    by (auto simp: handleBinary_eq dispatch_def accepted_def viewerHasControl_def SetSize_def
        frame kind_defs not_le split: sum.splits)
qed (simp add: handleBinary_eq)

subsection \<open>The control lock\<close>

lemma owner_abs: "c_owner (abs_ctl st) = None \<longleftrightarrow> controlOwner st = []"
  "v \<noteq> [] \<Longrightarrow> c_owner (abs_ctl st) = Some v \<longleftrightarrow> controlOwner st = v"
  "c_mode (abs_ctl st) = control st"
  by (auto simp: abs_ctl_def)

lemma sess_not_owner:
  assumes "decode_frame (v2r st) fr = Some (r, v, seq, k, p)" "controlOwner st \<noteq> v"
  shows "sess (handleBinary e fr st) = sess st"
  using assms by (simp add: handleBinary_eq dispatch_def accepted_def viewerHasControl_def frame)

lemma sess_unowned: "controlOwner st = [] \<Longrightarrow> sess (handleBinary e fr st) = sess st"
proof (cases rule: handleBinary_cases [of e fr st])
  case (taken r v seq kind p)
  moreover assume "controlOwner st = []"
  ultimately show ?thesis using sess_not_owner [of st fr r v seq kind p e] by simp
qed simp

text \<open>
  C18: The orchestrator refines the abstract control machine: every step of every goroutine is a
  request, a release or loss of ownership, or leaves control alone.
\<close>

theorem control_refinement:
  assumes "orch_step st st'"
  shows "ctl_step (abs_ctl st) (abs_ctl st')"
  using assms by (rule ctl_step_orch)

theorem control_refinement_witness:
  "ctl_step (abs_ctl (ex_up ControlOnce)) (abs_ctl (Revoke ex_env (ex_up ControlOnce)))"
  by (rule control_refinement [OF orch_step.revoke])

text \<open>
  A control request does what the abstract machine does, and the answer queued for the
  requester's route is the machine's answer: granted to the owner, taken when another viewer owns,
  read-only when the mode forbids a grant.
\<close>

theorem control_request_refines:
  assumes "v \<noteq> []"
  shows "abs_ctl (handleControlRequest e v r st) = fst (ctl_request v (abs_ctl st))
    \<and> conn_obj (handleControlRequest e v r st) =
        offered e \<lparr>m_kind = KindControl, m_payload = [snd (ctl_request v (abs_ctl st))],
          m_target = r, m_text = False\<rparr> st"
  using assms
  by (cases "control st")
    (auto simp: handleControlRequest_def emit_shapes Let_def abs_ctl_def ctl_defs offered_def)

theorem control_request_refines_witness:
  "conn_obj (handleControlRequest ex_env ''self-b'' ''route-b'' ((ex_up ControlAuto)\<lparr>controlOwner := ''self-a''\<rparr>))
    = offered ex_env \<lparr>m_kind = KindControl, m_payload = [ControlTaken], m_target = ''route-b'',
        m_text = False\<rparr> ((ex_up ControlAuto)\<lparr>controlOwner := ''self-a''\<rparr>)"
  using control_request_refines [of "''self-b''" ex_env "''route-b''"
      "(ex_up ControlAuto)\<lparr>controlOwner := ''self-a''\<rparr>"]
  by (simp add: abs_ctl_def ctl_request_def)

text \<open>
  View-only sessions: in every state a session started with \<^verbatim>\<open>--control view-only\<close> can
  reach, nobody owns the terminal and no frame whatever changes the PTY, its input or its size.
\<close>

theorem view_only_never_writes:
  assumes "New cfg = Inr st0" "cfg_Control cfg = ControlViewOnly" "orch_step\<^sup>*\<^sup>* st0 st"
  shows "controlOwner st = [] \<and> sess (handleBinary e fr st) = sess st"
proof -
  have "c_owner (abs_ctl st) = None"
    by (rule orch.run_view_only [OF assms(3)])
      (use New_fields [OF assms(1)] assms(2) in \<open>simp_all add: owner_abs\<close>)
  then show ?thesis by (simp add: owner_abs sess_unowned)
qed

theorem view_only_never_writes_witness:
  "sess (handleBinary ex_env (ex_frame ''r'' ''v'' 1 KindInput [3]) (ex_up ControlViewOnly)) = ex_session"
  using view_only_never_writes [OF New_ex_config [of ControlViewOnly],
      of "ex_up ControlViewOnly" ex_env "ex_frame ''r'' ''v'' 1 KindInput [3]"] ex_up_step [of ControlViewOnly]
  by (auto simp: ex_config_def ex_simps)

text \<open>
  C6: Once sessions: over the whole life of a session started with \<^verbatim>\<open>--control once\<close> at
  most one viewer ever owns the terminal - through releases, revocations, departures and
  reconnects.
\<close>

theorem once_single_owner:
  assumes "New cfg = Inr st0" "cfg_Control cfg = ControlOnce"
    and "orch_step\<^sup>*\<^sup>* st0 st1" "orch_step\<^sup>*\<^sup>* st1 st2"
    and "controlOwner st1 \<noteq> []" "controlOwner st2 \<noteq> []"
  shows "controlOwner st2 = controlOwner st1"
  by (rule orch.run_single_owner [OF assms(3,4)])
    (use New_fields [OF assms(1)] assms in \<open>simp_all add: owner_abs\<close>)

theorem once_single_owner_witness:
  "controlOwner (Resize ex_env 100 30
      (handleBinary ex_env (ex_frame ''r'' ''v'' 1 KindCtrlReq []) (ex_up ControlOnce)))
   = controlOwner (handleBinary ex_env (ex_frame ''r'' ''v'' 1 KindCtrlReq []) (ex_up ControlOnce))"
proof (rule once_single_owner [OF New_ex_config [of ControlOnce]])
  let ?fr = "ex_frame ''r'' ''v'' 1 KindCtrlReq []"
  let ?st = "handleBinary ex_env ?fr (ex_up ControlOnce)"
  have st: "?st = dispatch ex_env ''r'' ''v'' KindCtrlReq [] (accepted ''r'' ''v'' 1 (ex_up ControlOnce))"
    using handle_viewer_frame [of "ex_up ControlOnce" "replicate 12 0" "''r''" "''v''" 1 ex_env KindCtrlReq "[]"]
    by (simp add: ex_simps floor_of_def)
  show "orch_step\<^sup>*\<^sup>* (ex_orch ControlOnce) ?st"
  proof (rule rtranclp.rtrancl_into_rtrancl)
    show "orch_step\<^sup>*\<^sup>* (ex_orch ControlOnce) (ex_up ControlOnce)" using ex_up_step by blast
    show "orch_step (ex_up ControlOnce) ?st"
      using orch_step.read [of "ex_up ControlOnce" _ ex_env "WsBinary ?fr"]
      by (simp add: reader_message_def ex_simps)
  qed
  show "orch_step\<^sup>*\<^sup>* ?st (Resize ex_env 100 30 ?st)" by (auto intro: orch_step.resize)
  have "controlOwner ?st = ''v''"
    unfolding st by (simp add: dispatch_def kind_defs handleControlRequest_def emit_shapes
        accepted_def ex_simps)
  then show "controlOwner ?st \<noteq> []" "controlOwner (Resize ex_env 100 30 ?st) \<noteq> []"
    by (simp_all add: Resize_def emit_shapes Let_def split: prod.split)
qed (simp add: ex_config_def)

text \<open>
  C19: Ownership follows the sealed viewer id, never the relay's label: two copies of a sealed
  frame under different routing ids have the same effect on the owner, the spent grant, the replay
  floors, the PTY and the host's notices.
\<close>

theorem routing_label_irrelevant:
  assumes "DecodeRelayViewerFrame fr = Inr (r, sealed)"
    and "DecodeRelayViewerFrame fr' = Inr (r', sealed)"
  shows "controlOwner (handleBinary e fr st) = controlOwner (handleBinary e fr' st)
    \<and> onceUsed (handleBinary e fr st) = onceUsed (handleBinary e fr' st)
    \<and> inSeqByViewer (handleBinary e fr st) = inSeqByViewer (handleBinary e fr' st)
    \<and> sess (handleBinary e fr st) = sess (handleBinary e fr' st)
    \<and> notices (handleBinary e fr st) = notices (handleBinary e fr' st)"
proof (cases "decode_frame (v2r st) fr")
  case None
  with assms have "decode_frame (v2r st) fr' = None"
    by (auto simp: decode_frame_def split: sum.splits)
  with None show ?thesis by (simp add: handleBinary_eq)
next
  case (Some x)
  then obtain v seq k p where "decode_frame (v2r st) fr = Some (r, v, seq, k, p)"
      "decode_frame (v2r st) fr' = Some (r', v, seq, k, p)"
    using assms by (cases x) (auto simp: decode_frame_def split: sum.splits)
  then show ?thesis
    by (simp add: handleBinary_eq dispatch_def accepted_def viewerHasControl_def
        handleControlRequest_def handleControlRelease_def emit_shapes Let_def split: sum.split)
qed

theorem routing_label_irrelevant_witness:
  "controlOwner (handleBinary ex_env (ex_frame ''r1'' ''v'' 1 KindCtrlReq []) (ex_up ControlAuto))
   = controlOwner (handleBinary ex_env (ex_frame ''r2'' ''v'' 1 KindCtrlReq []) (ex_up ControlAuto))"
  using routing_label_irrelevant [of "ex_frame ''r1'' ''v'' 1 KindCtrlReq []" "''r1''"
      "viewer_sealed (ex_cipher 2) (replicate 12 0) ''v'' 1 KindCtrlReq []"
      "ex_frame ''r2'' ''v'' 1 KindCtrlReq []" "''r2''" ex_env "ex_up ControlAuto"]
  by (simp add: decode_relay_viewer_frame)

text \<open>
  C20: The relay's own plaintext messages cannot type, resize, grant control, spend the once grant
  or move a replay floor; the most they do to control is take it away.
\<close>

theorem relay_text_powerless:
  "sess (handleControl e d st) = sess st
   \<and> inSeqByViewer (handleControl e d st) = inSeqByViewer st
   \<and> onceUsed (handleControl e d st) = onceUsed st
   \<and> controlOwner (handleControl e d st) \<in> {controlOwner st, []}"
proof -
  have "controlOwner (handleControlMsg e m st) \<in> {controlOwner st, []}" for m
    by (simp add: handleControlMsg_def emit_shapes Let_def forgetViewer_def signal_join_frame
        split: option.split)
  then have "controlOwner (handleControl e d st) \<in> {controlOwner st, []}"
    by (simp add: handleControl_def split: option.split)
  then show ?thesis by (simp add: handleControl_frame)
qed

text \<open>
  Revocation is immediate: afterwards nobody owns the terminal, and no frame changes the PTY
  until a request is granted again.
\<close>

theorem revoke_stops_input:
  "controlOwner (Revoke e st) = [] \<and> sess (handleBinary e' fr (Revoke e st)) = sess st"
  using sess_unowned [of "Revoke e st" e' fr]
  by (simp add: Revoke_def emit_shapes Let_def)

text \<open>
  A departing viewer loses control exactly when the relay's routing id is bound to the owner's
  sealed id or is the owner's recorded route; the departure of anyone else changes no ownership.
\<close>

lemma forgetViewer_owner:
  "controlOwner (forgetViewer r st) =
     (if selfByRoute st r = Some (controlOwner st) \<or> ownerRoute st = r then [] else controlOwner st)"
  by (auto simp: forgetViewer_def Let_def split: option.split)

end
