(* ===== verification/Races.thy ===== *)
theory Races
  imports Security
begin

text \<open>
  The same orchestrator at the grain of its locks. In \<open>Steps\<close> a handler runs to its end; here
  the reader's \<^verbatim>\<open>handleBinary\<close> and the host's \<^verbatim>\<open>Revoke\<close> stop between their locked
  regions and calls, and every other goroutine may run there. \<open>f_reader\<close> and \<open>f_host\<close> are the
  positions of the two; \<open>f_log\<close> records which viewer's chunk each write to the PTY delivered.
  A relay's text message is still handled in one step, and so is one case of the sender.
\<close>

subsection \<open>The locked regions\<close>

definition request_region :: "string \<Rightarrow> string \<Rightarrow> Orch \<Rightarrow> byte \<times> bool \<times> Orch" where
  "request_region viewerID routeID st =
     (if controlOwner st = viewerID then (ControlGranted, False, st)
      else if controlOwner st \<noteq> [] then (ControlTaken, False, st)
      else if control st = ControlViewOnly \<or> (control st = ControlOnce \<and> onceUsed st)
        then (ControlReadOnly, False, st)
      else (ControlGranted, True,
             (if control st = ControlOnce then st\<lparr>onceUsed := True\<rparr> else st)
               \<lparr>controlOwner := viewerID, ownerRoute := routeID\<rparr>))"

definition release_region :: "string \<Rightarrow> Orch \<Rightarrow> bool \<times> Orch" where
  "release_region viewerID st =
     (if controlOwner st = viewerID then (True, st\<lparr>controlOwner := [], ownerRoute := []\<rparr>) else (False, st))"

definition revoke_region :: "Orch \<Rightarrow> string \<times> string \<times> Orch" where
  "revoke_region st =
     (controlOwner st, ownerRoute st,
      if controlOwner st \<noteq> [] then st\<lparr>controlOwner := [], ownerRoute := []\<rparr> else st)"

subsection \<open>Positions\<close>

datatype reader_pc =
    RIdle
  | RAccept string string u64 byte bytes
  | RBind string string u64 byte bytes
  | RSwitch string string u64 byte bytes
  | RWrite string u64 bytes
  | RSize u16 u16
  | RReply string byte "string option"
  | RNote string

datatype host_pc = HIdle | HReply string | HNote

record fine =
  f_orch :: Orch
  f_reader :: reader_pc
  f_host :: host_pc
  f_log :: "(string \<times> u64 \<times> bytes) list"

text \<open>The switch of \<^verbatim>\<open>handleBinary\<close>, up to the end of its first locked region.\<close>

definition reader_switch :: "string \<Rightarrow> string \<Rightarrow> u64 \<Rightarrow> byte \<Rightarrow> bytes \<Rightarrow> Orch \<Rightarrow> Orch \<times> reader_pc" where
  "reader_switch routeID viewerID seq kind payload st =
     (if kind = KindInput then
        (st, if viewerHasControl st viewerID then RWrite viewerID seq payload else RIdle)
      else if kind = KindResize then
        (st, if viewerHasControl st viewerID then
               (case DecodeResize payload of Inl _ \<Rightarrow> RIdle | Inr (cols, rows) \<Rightarrow> RSize cols rows)
             else RIdle)
      else if kind = KindCtrlReq then
        (case request_region viewerID routeID st of
           (cs, notify, st') \<Rightarrow>
             (st', RReply routeID cs (if notify then Some ''onlytty: viewer took control'' else None)))
      else if kind = KindCtrlRel then
        (case release_region viewerID st of
           (released, st') \<Rightarrow>
             (st', if released then RReply routeID ControlReadOnly (Some ''onlytty: viewer released control'')
                   else RIdle))
      else (st, RIdle))"

text \<open>The reader's next step inside a frame; \<open>None\<close> when it is not in one.\<close>

definition reader_next :: "env \<Rightarrow> fine \<Rightarrow> fine option" where
  "reader_next e s =
     (case f_reader s of
        RIdle \<Rightarrow> None
      | RAccept r v seq k p \<Rightarrow>
          (case acceptSeq v seq (f_orch s) of
             (st, ok) \<Rightarrow> Some (s\<lparr>f_orch := st, f_reader := (if ok then RBind r v seq k p else RIdle)\<rparr>))
      | RBind r v seq k p \<Rightarrow>
          Some (s\<lparr>f_orch := bindRoute r v (f_orch s), f_reader := RSwitch r v seq k p\<rparr>)
      | RSwitch r v seq k p \<Rightarrow>
          (case reader_switch r v seq k p (f_orch s) of
             (st, pc) \<Rightarrow> Some (s\<lparr>f_orch := st, f_reader := pc\<rparr>))
      | RWrite v seq p \<Rightarrow>
          (case SessionWrite (sess (f_orch s)) p of
             (ps, ok) \<Rightarrow>
               Some (s\<lparr>f_orch := (f_orch s)\<lparr>sess := ps\<rparr>, f_reader := RIdle,
                 f_log := (if ok then f_log s @ [(v, seq, p)] else f_log s)\<rparr>))
      | RSize cols rows \<Rightarrow>
          Some (s\<lparr>f_orch := (f_orch s)\<lparr>sess := fst (SetSize (sess (f_orch s)) cols rows (None :: unit option))\<rparr>,
            f_reader := RIdle\<rparr>)
      | RReply r cs n \<Rightarrow>
          Some (s\<lparr>f_orch := emitToViewer e r KindControl [cs] (f_orch s),
            f_reader := (case n of None \<Rightarrow> RIdle | Some t \<Rightarrow> RNote t)\<rparr>)
      | RNote t \<Rightarrow> Some (s\<lparr>f_orch := note_host e t (f_orch s), f_reader := RIdle\<rparr>))"

definition host_next :: "env \<Rightarrow> fine \<Rightarrow> fine option" where
  "host_next e s =
     (case f_host s of
        HIdle \<Rightarrow> None
      | HReply r \<Rightarrow>
          Some (s\<lparr>f_orch := emitToViewer e r KindControl [ControlReadOnly] (f_orch s), f_host := HNote\<rparr>)
      | HNote \<Rightarrow> Some (s\<lparr>f_orch := note_host e ''onlytty: host revoked control'' (f_orch s), f_host := HIdle\<rparr>))"

text \<open>Steps of the goroutines that are neither the reader's nor the revocation's.\<close>

inductive peer_step :: "Orch \<Rightarrow> Orch \<Rightarrow> bool" where
  "peer_step st (Resize e cols rows st)"
| "chunk \<noteq> [] \<Longrightarrow> peer_step st (pump_chunk e chunk st)"
| "peer_step st (host_input chunk st)"
| "peer_step st (keepalive_tick e st)"
| "process_state (sess st) = None \<Longrightarrow> peer_step st (child_exit code st)"
| "process_state (sess st) \<noteq> None \<Longrightarrow> peer_step st (signalExit e st)"
| "peer_step st (shutdown st)"
| "conn_obj st = Some c \<Longrightarrow> sender_up c \<Longrightarrow> peer_step st (sender_join e st)"
| "conn_obj st = Some c \<Longrightarrow> sender_up c \<Longrightarrow> peer_step st (sender_send e st)"
| "conn_obj st = Some c \<Longrightarrow> sender_up c \<Longrightarrow> peer_step st (sender_stop st)"
| "peer_step st (note_host e s st)"

text \<open>
  The connection's life is in the reader's goroutine too: it goes on only between frames.
\<close>

inductive life_step :: "Orch \<Rightarrow> Orch \<Rightarrow> bool" where
  "conn_obj st = None \<Longrightarrow> life_step st (serve_start ok st)"
| "conn_obj st = Some c \<Longrightarrow> reader_up c \<Longrightarrow> life_step st (serve_reader_end st)"
| "conn_obj st = Some c \<Longrightarrow> \<not> reader_up c \<Longrightarrow> life_step st (serve_unpublish st)"
| "conn_obj st = Some c \<Longrightarrow> \<not> reader_up c \<Longrightarrow> \<not> published st \<Longrightarrow> \<not> sender_up c \<Longrightarrow> life_step st (serve_finish st)"

inductive fine_step :: "fine \<Rightarrow> fine \<Rightarrow> bool" where
  take_frame: "f_reader s = RIdle \<Longrightarrow> conn_obj (f_orch s) = Some c \<Longrightarrow> reader_up c \<Longrightarrow>
    decode_frame (v2r (f_orch s)) fr = Some (r, v, seq, k, p) \<Longrightarrow>
    fine_step s (s\<lparr>f_reader := RAccept r v seq k p\<rparr>)"
| take_text: "f_reader s = RIdle \<Longrightarrow> conn_obj (f_orch s) = Some c \<Longrightarrow> reader_up c \<Longrightarrow>
    fine_step s (s\<lparr>f_orch := handleControl e d (f_orch s)\<rparr>)"
| reader: "reader_next e s = Some s' \<Longrightarrow> fine_step s s'"
| life: "f_reader s = RIdle \<Longrightarrow> life_step (f_orch s) st \<Longrightarrow> fine_step s (s\<lparr>f_orch := st\<rparr>)"
| revoke: "f_host s = HIdle \<Longrightarrow> revoke_region (f_orch s) = (owner, route, st) \<Longrightarrow>
    fine_step s (s\<lparr>f_orch := st, f_host := (if owner = [] then HIdle else HReply route)\<rparr>)"
| host: "host_next e s = Some s' \<Longrightarrow> fine_step s s'"
| peer: "peer_step (f_orch s) st \<Longrightarrow> fine_step s (s\<lparr>f_orch := st\<rparr>)"

inductive_cases fine_stepE: "fine_step s t"

definition fine_start :: "Orch \<Rightarrow> fine" where
  "fine_start st = \<lparr>f_orch = st, f_reader = RIdle, f_host = HIdle, f_log = []\<rparr>"

subsection \<open>The reader alone is \<open>handleBinary\<close>\<close>

fun reader_run :: "nat \<Rightarrow> env \<Rightarrow> fine \<Rightarrow> fine" where
  "reader_run 0 e s = s"
| "reader_run (Suc n) e s = (case reader_next e s of None \<Rightarrow> s | Some t \<Rightarrow> reader_run n e t)"

lemma reader_run_idle: "f_reader s = RIdle \<Longrightarrow> reader_run n e s = s"
  by (cases n) (simp_all add: reader_next_def)

lemma handleControlRequest_region:
  "handleControlRequest e v r st =
     (case request_region v r st of
        (cs, notify, st') \<Rightarrow>
          (if notify then note_host e ''onlytty: viewer took control'' else id) (emitToViewer e r KindControl [cs] st'))"
  by (simp add: handleControlRequest_def request_region_def Let_def)

text \<open>What the positions after the switch still do.\<close>

definition finish_pc :: "env \<Rightarrow> reader_pc \<Rightarrow> Orch \<Rightarrow> Orch" where
  "finish_pc e pc st =
     (case pc of
        RWrite v seq p \<Rightarrow> st\<lparr>sess := fst (SessionWrite (sess st) p)\<rparr>
      | RSize cols rows \<Rightarrow> st\<lparr>sess := fst (SetSize (sess st) cols rows (None :: unit option))\<rparr>
      | RReply r cs n \<Rightarrow>
          (case n of None \<Rightarrow> emitToViewer e r KindControl [cs] st
           | Some t \<Rightarrow> note_host e t (emitToViewer e r KindControl [cs] st))
      | _ \<Rightarrow> st)"

definition switched :: "reader_pc \<Rightarrow> bool" where
  "switched pc \<longleftrightarrow> (case pc of RIdle \<Rightarrow> True | RWrite v q p \<Rightarrow> True | RSize c r \<Rightarrow> True | RReply r cs n \<Rightarrow> True | _ \<Rightarrow> False)"

lemma reader_run_finish:
  "switched (f_reader s) \<Longrightarrow>
   f_orch (reader_run 2 e s) = finish_pc e (f_reader s) (f_orch s) \<and> f_reader (reader_run 2 e s) = RIdle"
proof (cases "f_reader s")
  case (RReply r cs n)
  then show ?thesis by (cases n) (simp_all add: eval_nat_numeral reader_next_def finish_pc_def)
qed (simp_all add: eval_nat_numeral reader_next_def finish_pc_def switched_def split: prod.split)

lemma dispatch_switch:
  "dispatch e r v k p st = (case reader_switch r v seq k p st of (st', pc) \<Rightarrow> finish_pc e pc st')"
  "switched (snd (reader_switch r v seq k p st))"
proof -
  consider "k = KindInput" | "k = KindResize" | "k = KindCtrlReq" | "k = KindCtrlRel"
    | "k \<notin> {KindInput, KindResize, KindCtrlReq, KindCtrlRel}" by blast
  then have "dispatch e r v k p st = (case reader_switch r v seq k p st of (st', pc) \<Rightarrow> finish_pc e pc st')
    \<and> switched (snd (reader_switch r v seq k p st))"
  proof cases
    case 3
    then show ?thesis
      by (simp add: dispatch_def reader_switch_def kind_defs handleControlRequest_region finish_pc_def
          switched_def split: prod.split)
  next
    case 4
    then show ?thesis
      by (simp add: dispatch_def reader_switch_def kind_defs handleControlRelease_def release_region_def
          finish_pc_def switched_def)
  qed (simp_all add: dispatch_def reader_switch_def kind_defs finish_pc_def switched_def split: sum.split prod.split)
  then show "dispatch e r v k p st = (case reader_switch r v seq k p st of (st', pc) \<Rightarrow> finish_pc e pc st')"
    "switched (snd (reader_switch r v seq k p st))" by simp_all
qed

text \<open>
  Without interruption the reader's positions are \<^verbatim>\<open>handleBinary\<close>: running them to the
  end from a decoded frame gives the state the handler gives, at the idle position, in at most
  five steps.
\<close>

theorem reader_alone:
  assumes "f_orch s = st" "f_reader s = RIdle" "decode_frame (v2r st) fr = Some (r, v, seq, k, p)"
  shows "f_orch (reader_run 5 e (s\<lparr>f_reader := RAccept r v seq k p\<rparr>)) = handleBinary e fr st
    \<and> f_reader (reader_run 5 e (s\<lparr>f_reader := RAccept r v seq k p\<rparr>)) = RIdle"
proof (cases "seq \<le> floor_of st v")
  case True
  then have "reader_next e (s\<lparr>f_reader := RAccept r v seq k p\<rparr>) = Some s"
    using assms(1,2) by (simp add: reader_next_def acceptSeq_def)
  then have "reader_run 5 e (s\<lparr>f_reader := RAccept r v seq k p\<rparr>) = s"
    using reader_run_idle [OF assms(2)] by (simp add: eval_nat_numeral)
  with assms True show ?thesis by (simp add: handleBinary_eq)
next
  case False
  define s1 where "s1 = s\<lparr>f_orch := accepted r v seq st, f_reader := RSwitch r v seq k p\<rparr>"
  have "reader_run 5 e (s\<lparr>f_reader := RAccept r v seq k p\<rparr>) = reader_run 3 e s1"
    using False assms(1) by (simp add: eval_nat_numeral reader_next_def acceptSeq_def bindRoute_def accepted_def s1_def)
  moreover have "handleBinary e fr st = dispatch e r v k p (accepted r v seq st)"
    using assms(3) False by (simp add: handleBinary_eq)
  moreover have "f_orch (reader_run 3 e s1) = dispatch e r v k p (accepted r v seq st)
      \<and> f_reader (reader_run 3 e s1) = RIdle"
  proof -
    obtain st' pc where sw: "reader_switch r v seq k p (accepted r v seq st) = (st', pc)" by fastforce
    then have "reader_run 3 e s1 = reader_run 2 e (s1\<lparr>f_orch := st', f_reader := pc\<rparr>)"
      by (simp add: s1_def numeral_3_eq_3 numeral_2_eq_2 reader_next_def)
    with sw reader_run_finish [of "s1\<lparr>f_orch := st', f_reader := pc\<rparr>" e]
      dispatch_switch(1) [of e r v k p "accepted r v seq st" seq] dispatch_switch(2) [of r v seq k p "accepted r v seq st"]
    show ?thesis by simp
  qed
  ultimately show ?thesis by simp
qed

theorem reader_alone_witness:
  "f_orch (reader_run 5 ex_env ((fine_start (ex_up ControlAuto))\<lparr>f_reader := RAccept ''r'' ''v'' 1 KindCtrlReq []\<rparr>))
   = handleBinary ex_env (ex_frame ''r'' ''v'' 1 KindCtrlReq []) (ex_up ControlAuto)"
proof -
  have d: "decode_frame (v2r (ex_up ControlAuto)) (ex_frame ''r'' ''v'' 1 KindCtrlReq []) = Some (''r'', ''v'', 1, KindCtrlReq, [])"
    using decode_viewer_frame [of "ex_cipher 2" "replicate 12 0" "''r''" "''v''" 1 KindCtrlReq "[]"] by (simp add: ex_simps)
  show ?thesis
    using reader_alone [of "fine_start (ex_up ControlAuto)" "ex_up ControlAuto", OF _ _ d] by (simp add: fine_start_def)
qed


subsection \<open>Control at the grain of the locks\<close>

text \<open>Ids in flight are not empty.\<close>

definition fine_ok :: "fine \<Rightarrow> bool" where
  "fine_ok s \<longleftrightarrow>
     (case f_reader s of
        RAccept r v seq k p \<Rightarrow> v \<noteq> []
      | RBind r v seq k p \<Rightarrow> v \<noteq> []
      | RSwitch r v seq k p \<Rightarrow> v \<noteq> []
      | RWrite v seq p \<Rightarrow> v \<noteq> []
      | _ \<Rightarrow> True)"

lemma peer_orch: "peer_step st st' \<Longrightarrow> local_step st st'"
  by (induction rule: peer_step.induct) auto

lemma life_ctl: "life_step st st' \<Longrightarrow> inSeqByViewer st' = inSeqByViewer st \<and> same_setup st st'
    \<and> (abs_ctl st' = abs_ctl st \<or> abs_ctl st' = ctl_drop (abs_ctl st))"
  by (induction rule: life_step.induct)
    (auto simp: serve_start_def serve_reader_end_def serve_unpublish_def serve_finish_def upd_conn_def
      clearControlOwner_def abs_ctl_def ctl_drop_def same_setup_def)

text \<open>What a step does to the control fields, the floors and the log, by who makes it.\<close>

lemma request_region_abs:
  "v \<noteq> [] \<Longrightarrow> abs_ctl (snd (snd (request_region v r st))) = fst (ctl_request v (abs_ctl st))"
  by (cases "control st") (auto simp: request_region_def abs_ctl_def ctl_defs)

lemma release_region_abs: "abs_ctl (snd (release_region v st)) \<in> {abs_ctl st, ctl_drop (abs_ctl st)}"
  by (simp add: release_region_def abs_ctl_def ctl_drop_def)

lemma revoke_region_abs: "abs_ctl (snd (snd (revoke_region st))) \<in> {abs_ctl st, ctl_drop (abs_ctl st)}"
  by (simp add: revoke_region_def abs_ctl_def ctl_drop_def)

lemma ctl_drop_step: "y \<in> {x, ctl_drop x} \<Longrightarrow> ctl_step x y"
  by (auto intro: ctl_step.intros)

lemma switch_abs:
  "v \<noteq> [] \<Longrightarrow> ctl_step (abs_ctl st) (abs_ctl (fst (reader_switch r v seq k p st)))"
  using request_region_abs [of v r st] release_region_abs [of v st]
  by (auto simp: reader_switch_def ctl_step.stay intro: ctl_step.ask ctl_drop_step split: prod.split)

lemma reader_next_abs:
  assumes "reader_next e s = Some t" "fine_ok s"
  shows "ctl_step (abs_ctl (f_orch s)) (abs_ctl (f_orch t))"
proof (cases "f_reader s")
  case (RSwitch r v seq k p)
  with assms switch_abs [of v "f_orch s" r seq k p] show ?thesis
    by (auto simp: reader_next_def fine_ok_def split: prod.splits)
next
  case (RAccept r v seq k p)
  have "abs_ctl (fst (acceptSeq v seq (f_orch s))) = abs_ctl (f_orch s)" by (simp add: acceptSeq_def abs_ctl_def)
  with RAccept assms show ?thesis by (auto simp: reader_next_def ctl_step.stay split: prod.splits)
qed (use assms in \<open>auto simp: reader_next_def abs_ctl_def bindRoute_def emit_shapes ctl_step.stay split: prod.splits\<close>)

lemma host_next_local: "host_next e s = Some t \<Longrightarrow> local_step (f_orch s) (f_orch t) \<and> f_reader t = f_reader s \<and> f_log t = f_log s"
  by (auto simp: host_next_def local_step_def same_setup_def emit_shapes split: host_pc.splits)

lemma local_abs: "local_step st st' \<Longrightarrow> abs_ctl st' = abs_ctl st"
  by (intro abs_ctl_cong) (simp_all add: local_step_def same_setup_def)

lemma fine_ctl:
  assumes "fine_step s t" "fine_ok s"
  shows "ctl_step (abs_ctl (f_orch s)) (abs_ctl (f_orch t))"
  using assms(1)
proof cases
  case (take_text c e d)
  then show ?thesis by (simp add: ctl_step_handleControl)
next
  case (reader e)
  then show ?thesis using assms(2) by (rule reader_next_abs)
next
  case (life st)
  then show ?thesis using life_ctl [of "f_orch s" st] by (auto intro: ctl_step.intros)
next
  case (revoke owner route st)
  then show ?thesis using revoke_region_abs [of "f_orch s"] by (auto intro: ctl_drop_step)
next
  case (host e)
  then show ?thesis using host_next_local [of e s t] local_abs by (auto simp: ctl_step.stay)
next
  case (peer st)
  then show ?thesis using local_abs [OF peer_orch [OF peer(2)]] by (simp add: ctl_step.stay)
qed (simp add: ctl_step.stay)

lemma fine_ok_step: "fine_step s t \<Longrightarrow> fine_ok s \<Longrightarrow> fine_ok t"
proof (induction rule: fine_step.induct)
  case (take_frame s c fr r v seq k p)
  then show ?case using decode_frame_ids by (auto simp: fine_ok_def)
next
  case (reader e s s')
  then show ?case
    by (cases "f_reader s")
      (auto simp: reader_next_def fine_ok_def reader_switch_def split: prod.splits if_splits sum.splits option.splits)
next
  case (host e s s')
  then show ?case using host_next_local [of e s s'] by (simp add: fine_ok_def)
qed (simp_all add: fine_ok_def)

interpretation fine: control_lock fine_step "\<lambda>s. abs_ctl (f_orch s)" fine_ok
  by unfold_locales (auto intro: fine_ctl fine_ok_step)


subsection \<open>What is written, and by whom\<close>

text \<open>Every step but the reader's leaves the reader and the log alone and no floor falls.\<close>

lemma fine_step_cases [consumes 1]:
  assumes "fine_step s t"
  obtains (other) "f_reader t = f_reader s" "f_log t = f_log s" "inSeqByViewer (f_orch t) = inSeqByViewer (f_orch s)"
  | (frame) r v seq k p where "t = s\<lparr>f_reader := RAccept r v seq k p\<rparr>" "f_reader s = RIdle"
  | (reader) e where "reader_next e s = Some t"
  using assms
proof cases
  case (take_text c e d)
  then show thesis by (intro other) (simp_all add: handleControl_frame)
next
  case (life st)
  then show thesis using life_ctl [OF life(3)] by (intro other) simp_all
next
  case (revoke owner route st)
  then show thesis by (intro other) (auto simp: revoke_region_def)
next
  case (host e)
  then show thesis using host_next_local [of e s t] by (intro other) (simp_all add: local_step_def)
next
  case (peer st)
  then show thesis using peer_orch [OF peer(2)] by (intro other) (simp_all add: local_step_def)
qed (auto intro: frame reader)

text \<open>The viewers that have written, or are past the check and about to.\<close>

definition writers :: "fine \<Rightarrow> string set" where
  "writers s = fst ` set (f_log s) \<union> (case f_reader s of RWrite v seq p \<Rightarrow> {v} | _ \<Rightarrow> {})"

lemma writers_step:
  assumes "fine_step s t"
  shows "writers t \<subseteq> writers s
    \<or> writers t \<subseteq> insert (controlOwner (f_orch s)) (writers s) \<and> abs_ctl (f_orch t) = abs_ctl (f_orch s)
       \<and> (\<exists>r seq k p. f_reader s = RSwitch r (controlOwner (f_orch s)) seq k p)"
  using assms
proof (cases rule: fine_step_cases)
  case (reader e)
  show ?thesis
  proof (cases "f_reader s")
    case (RSwitch r v seq k p)
    with reader show ?thesis
      by (auto simp: reader_next_def reader_switch_def writers_def viewerHasControl_def
          split: prod.splits sum.splits if_splits)
  next
    case (RWrite v seq p)
    with reader show ?thesis by (auto simp: reader_next_def writers_def split: prod.splits if_splits)
  next
    case (RReply r cs n)
    with reader show ?thesis by (cases n) (auto simp: reader_next_def writers_def)
  qed (use reader in \<open>auto simp: reader_next_def writers_def split: prod.splits if_splits\<close>)
qed (simp_all add: writers_def)

definition once_inv :: "fine \<Rightarrow> bool" where
  "once_inv s \<longleftrightarrow> fine_ok s \<and> ctl_inv (abs_ctl (f_orch s))
     \<and> (c_mode (abs_ctl (f_orch s)) = ControlViewOnly \<longrightarrow> writers s = {})
     \<and> (c_mode (abs_ctl (f_orch s)) = ControlOnce \<longrightarrow>
          (\<forall>v\<in>writers s. once_bound (Some v) (abs_ctl (f_orch s)) \<and> (\<forall>w\<in>writers s. w = v)))"

lemma once_inv_step:
  assumes "fine_step s t" "once_inv s"
  shows "once_inv t"
proof -
  let ?a = "abs_ctl (f_orch s)" and ?b = "abs_ctl (f_orch t)"
  from assms have ok: "fine_ok s" "fine_ok t" and c: "ctl_step ?a ?b"
    using fine_ok_step fine_ctl by (auto simp: once_inv_def)
  then have i: "ctl_inv ?b" "c_mode ?b = c_mode ?a"
    using assms(2) by (auto simp: once_inv_def intro: ctl_inv_step ctl_step_mode)
  from writers_step [OF assms(1)] show ?thesis
  proof
    assume "writers t \<subseteq> writers s"
    then have sub: "v \<in> writers t \<Longrightarrow> v \<in> writers s" for v by auto
    have "writers t = {}" if "c_mode ?b = ControlViewOnly"
      using that sub assms(2) i(2) by (auto simp: once_inv_def)
    moreover have "once_bound (Some v) ?b" "w = v" if "c_mode ?b = ControlOnce" "v \<in> writers t" "w \<in> writers t" for v w
      using that sub [of v] sub [of w] assms(2) i(2) once_bound_step [OF _ c] by (auto simp: once_inv_def)
    ultimately show ?thesis unfolding once_inv_def using ok i by blast
  next
    assume w: "writers t \<subseteq> insert (controlOwner (f_orch s)) (writers s) \<and> ?b = ?a
       \<and> (\<exists>r seq k p. f_reader s = RSwitch r (controlOwner (f_orch s)) seq k p)"
    then have o: "controlOwner (f_orch s) \<noteq> []" using ok(1) by (auto simp: fine_ok_def)
    then have oa: "c_owner ?a = Some (controlOwner (f_orch s))" by (simp add: abs_ctl_def)
    show ?thesis
    proof (cases "c_mode ?a")
      case ControlOnce
      with oa assms(2) have b: "once_bound (Some (controlOwner (f_orch s))) ?a"
        by (auto simp: once_inv_def ctl_inv_def once_bound_def)
      have "v = controlOwner (f_orch s)" if "v \<in> writers s" for v
        using that assms(2) ControlOnce oa by (auto simp: once_inv_def once_bound_def)
      with w have "writers t \<subseteq> {controlOwner (f_orch s)}" by auto
      with b w ok i ControlOnce show ?thesis by (auto simp: once_inv_def)
    next
      case ControlViewOnly
      with oa assms(2) show ?thesis by (simp add: once_inv_def ctl_inv_def)
    qed (use ok i in \<open>simp add: once_inv_def\<close>)
  qed
qed

lemma once_inv_run:
  assumes "Orchestrator.New cfg = Inr st0" "fine_step\<^sup>*\<^sup>* (fine_start st0) s"
  shows "once_inv s \<and> control (f_orch s) = cfg_Control cfg"
proof -
  have i: "once_inv (fine_start st0)"
    using New_fields [OF assms(1)] by (simp add: once_inv_def fine_start_def fine_ok_def writers_def ctl_inv_def abs_ctl_def)
  have "once_inv s" using assms(2) i by (induction rule: rtranclp_induct) (auto intro: once_inv_step)
  moreover have "c_mode (abs_ctl (f_orch s)) = c_mode (abs_ctl (f_orch (fine_start st0)))"
    by (rule fine.run_mode [OF assms(2)]) (use i in \<open>simp add: once_inv_def\<close>)
  ultimately show ?thesis using New_fields [OF assms(1)] by (simp add: abs_ctl_def fine_start_def)
qed

text \<open>
  C7: The host's control mode at the grain of the locks. However the goroutines interleave between
  their locked regions - a revocation between the check of control and the write included - a
  view-only session never writes a viewer's input to the command, and in a once session all viewer
  input ever written comes from one viewer.
\<close>

theorem fine_mode_writers:
  assumes "Orchestrator.New cfg = Inr st0" "fine_step\<^sup>*\<^sup>* (fine_start st0) s"
  shows "(cfg_Control cfg = ControlViewOnly \<longrightarrow> f_log s = [])
    \<and> (cfg_Control cfg = ControlOnce \<longrightarrow>
        (\<forall>x\<in>set (f_log s). \<forall>y\<in>set (f_log s). fst x = fst y))"
  using once_inv_run [OF assms] by (auto simp: once_inv_def writers_def abs_ctl_def)

subsection \<open>A concrete run\<close>

lemma reader_run_steps: "fine_step\<^sup>*\<^sup>* s (reader_run n e s)"
proof (induction n arbitrary: s)
  case (Suc n)
  show ?case
  proof (cases "reader_next e s")
    case (Some t)
    then have "fine_step s t" by (rule fine_step.reader)
    with Suc [of t] Some show ?thesis by (simp add: converse_rtranclp_into_rtranclp)
  qed simp
qed simp

text \<open>A viewer takes control and has a keystroke past the check.\<close>

definition ex_granted :: "ControlMode \<Rightarrow> fine" where
  "ex_granted mode = reader_run 5 ex_env
     ((fine_start (ex_up mode))\<lparr>f_reader := RAccept ''r'' ''v'' 1 KindCtrlReq []\<rparr>)"

definition ex_checked :: "ControlMode \<Rightarrow> fine" where
  "ex_checked mode = reader_run 3 ex_env ((ex_granted mode)\<lparr>f_reader := RAccept ''r'' ''v'' 2 KindInput [0x6C]\<rparr>)"

lemma ex_granted_facts:
  assumes "mode \<noteq> ControlViewOnly"
  shows "controlOwner (f_orch (ex_granted mode)) = ''v''" "f_reader (ex_granted mode) = RIdle"
    "f_log (ex_granted mode) = []" "v2r (f_orch (ex_granted mode)) = ex_cipher 2"
    "\<exists>c. conn_obj (f_orch (ex_granted mode)) = Some c \<and> reader_up c"
    "floor_of (f_orch (ex_granted mode)) ''v'' = 1" "ptmx_open (sess (f_orch (ex_granted mode)))"
    "f_host (ex_granted mode) = HIdle"
  using assms
  by (simp_all add: ex_granted_def fine_start_def eval_nat_numeral reader_next_def acceptSeq_def floor_of_def
      bindRoute_def reader_switch_def kind_defs request_region_def ex_simps emit_shapes offered_def conn_offer_def)

lemma ex_checked_eq:
  assumes "mode \<noteq> ControlViewOnly"
  shows "ex_checked mode = (ex_granted mode)\<lparr>f_orch := accepted ''r'' ''v'' 2 (f_orch (ex_granted mode)),
    f_reader := RWrite ''v'' 2 [0x6C]\<rparr>"
proof -
  have "\<not> (2 :: u64) \<le> 1" by (simp add: word_le_nat_alt)
  then show ?thesis using ex_granted_facts [OF assms]
    by (simp add: ex_checked_def eval_nat_numeral reader_next_def acceptSeq_def bindRoute_def accepted_def
        reader_switch_def viewerHasControl_def)
qed

lemma ex_granted_run:
  "fine_step\<^sup>*\<^sup>* (fine_start (ex_orch mode)) (ex_granted mode)"
proof -
  have "fine_step (fine_start (ex_orch mode)) (fine_start (ex_up mode))"
    using fine_step.life [of "fine_start (ex_orch mode)" "ex_up mode"] life_step.intros(1) [of "ex_orch mode"]
    by (simp add: fine_start_def ex_up_def ex_orch_def)
  moreover have "fine_step (fine_start (ex_up mode)) ((fine_start (ex_up mode))\<lparr>f_reader := RAccept ''r'' ''v'' 1 KindCtrlReq []\<rparr>)"
    using decode_viewer_frame [of "ex_cipher 2" "replicate 12 0" "''r''" "''v''" 1 KindCtrlReq "[]"]
    by (intro fine_step.take_frame) (auto simp: fine_start_def ex_simps)
  ultimately show ?thesis unfolding ex_granted_def
    by (meson converse_rtranclp_into_rtranclp reader_run_steps)
qed

lemma ex_checked_run:
  assumes "mode \<noteq> ControlViewOnly"
  shows "fine_step\<^sup>*\<^sup>* (fine_start (ex_orch mode)) (ex_checked mode)"
proof -
  have "fine_step (ex_granted mode) ((ex_granted mode)\<lparr>f_reader := RAccept ''r'' ''v'' 2 KindInput [0x6C]\<rparr>)"
    using decode_viewer_frame [of "ex_cipher 2" "replicate 12 0" "''r''" "''v''" 2 KindInput "[0x6C]"]
      ex_granted_facts [OF assms]
    by (auto intro!: fine_step.take_frame)
  then show ?thesis unfolding ex_checked_def
    by (meson ex_granted_run reader_run_steps rtranclp.rtrancl_into_rtrancl rtranclp_trans)
qed

definition ex_written :: "ControlMode \<Rightarrow> fine" where
  "ex_written mode = reader_run 1 ex_env (ex_checked mode)"

lemma ex_written_facts:
  assumes "mode \<noteq> ControlViewOnly"
  shows "f_log (ex_written mode) = [(''v'', 2, [0x6C])]" "fine_step\<^sup>*\<^sup>* (fine_start (ex_orch mode)) (ex_written mode)"
proof -
  show "f_log (ex_written mode) = [(''v'', 2, [0x6C])]"
    using ex_granted_facts [OF assms]
    by (simp add: ex_written_def ex_checked_eq [OF assms] reader_next_def SessionWrite_def accepted_def)
  show "fine_step\<^sup>*\<^sup>* (fine_start (ex_orch mode)) (ex_written mode)"
    unfolding ex_written_def by (meson assms ex_checked_run reader_run_steps rtranclp_trans)
qed

text \<open>The sessions of the witnesses write something.\<close>

theorem fine_mode_writers_witness:
  "f_log (ex_written ControlOnce) \<noteq> []
   \<and> fst ` set (f_log (ex_written ControlOnce)) \<subseteq> {fst (hd (f_log (ex_written ControlOnce)))}"
proof -
  let ?log = "f_log (ex_written ControlOnce)"
  have "cfg_Control (ex_config ControlOnce) = ControlOnce" by (simp add: ex_config_def)
  then have same: "\<forall>x\<in>set ?log. \<forall>y\<in>set ?log. fst x = fst y"
    using conjunct2 [OF fine_mode_writers [OF New_ex_config ex_written_facts(2)]] by blast
  have "?log \<noteq> []" using ex_written_facts(1) [of ControlOnce] by simp
  with same hd_in_set [of ?log] show ?thesis by blast
qed

subsection \<open>Freshness\<close>

definition log_order :: "(string \<times> u64 \<times> bytes) \<Rightarrow> (string \<times> u64 \<times> bytes) \<Rightarrow> bool" where
  "log_order x y \<longleftrightarrow> fst x = fst y \<longrightarrow> fst (snd x) < fst (snd y)"

text \<open>A frame past the floor: its viewer and number.\<close>

definition past_floor :: "reader_pc \<Rightarrow> (string \<times> u64) option" where
  "past_floor pc =
     (case pc of
        RBind r v seq k p \<Rightarrow> Some (v, seq)
      | RSwitch r v seq k p \<Rightarrow> Some (v, seq)
      | RWrite v seq p \<Rightarrow> Some (v, seq)
      | _ \<Rightarrow> None)"

definition fresh_inv :: "fine \<Rightarrow> bool" where
  "fresh_inv s \<longleftrightarrow> sorted_wrt log_order (f_log s)
     \<and> (\<forall>(v, q, p)\<in>set (f_log s). q \<le> floor_of (f_orch s) v)
     \<and> (\<forall>v q. past_floor (f_reader s) = Some (v, q) \<longrightarrow> q \<le> floor_of (f_orch s) v
          \<and> (\<forall>(w, q', p)\<in>set (f_log s). w = v \<longrightarrow> q' < q))"

lemma past_floor_switch:
  "past_floor (snd (reader_switch r v seq k p st)) \<in> {None, Some (v, seq)}
   \<and> inSeqByViewer (fst (reader_switch r v seq k p st)) = inSeqByViewer st"
  by (simp add: reader_switch_def past_floor_def request_region_def release_region_def split: sum.split)

lemma fresh_inv_step:
  assumes "fine_step s t" "fresh_inv s"
  shows "fresh_inv t"
  using assms(1)
proof (cases rule: fine_step_cases)
  case other
  with assms(2) floor_of_cong [OF other(3)] show ?thesis by (simp add: fresh_inv_def)
next
  case (frame r v seq k p)
  with assms(2) show ?thesis by (simp add: fresh_inv_def past_floor_def)
next
  case (reader e)
  show ?thesis
  proof (cases "f_reader s")
    case RIdle
    with reader show ?thesis by (simp add: reader_next_def)
  next
    case (RAccept r v seq k p)
    show ?thesis
    proof (cases "seq \<le> floor_of (f_orch s) v")
      case True
      with RAccept reader assms(2) show ?thesis
        by (auto simp: reader_next_def acceptSeq_def fresh_inv_def past_floor_def)
    next
      case False
      then have t: "t = s\<lparr>f_orch := (f_orch s)\<lparr>inSeqByViewer := (inSeqByViewer (f_orch s))(v \<mapsto> seq)\<rparr>,
          f_reader := RBind r v seq k p\<rparr>"
        using RAccept reader by (auto simp: reader_next_def acceptSeq_def)
      have f: "floor_of (f_orch t) w = (if w = v then seq else floor_of (f_orch s) w)" for w
        unfolding t by (simp add: floor_of_def)
      from False have lt: "floor_of (f_orch s) v < seq" by simp
      from assms(2) f lt show ?thesis
        by (fastforce simp: fresh_inv_def past_floor_def t)
    qed
  next
    case (RBind r v seq k p)
    with reader assms(2) show ?thesis
      by (auto simp: reader_next_def bindRoute_def fresh_inv_def past_floor_def floor_of_def)
  next
    case (RSwitch r v seq k p)
    obtain st pc where sw: "reader_switch r v seq k p (f_orch s) = (st, pc)" by fastforce
    with past_floor_switch [of r v seq k p "f_orch s"] have
      "past_floor pc \<in> {None, Some (v, seq)}" "inSeqByViewer st = inSeqByViewer (f_orch s)" by auto
    with RSwitch reader assms(2) sw floor_of_cong [of st "f_orch s"] show ?thesis
      by (auto simp: reader_next_def fresh_inv_def past_floor_def)
  next
    case (RWrite v seq p)
    obtain ps ok where w: "SessionWrite (sess (f_orch s)) p = (ps, ok)" by fastforce
    with RWrite reader have t: "t = s\<lparr>f_orch := (f_orch s)\<lparr>sess := ps\<rparr>, f_reader := RIdle,
        f_log := (if ok then f_log s @ [(v, seq, p)] else f_log s)\<rparr>"
      by (simp add: reader_next_def)
    have f: "floor_of (f_orch t) x = floor_of (f_orch s) x" for x by (simp add: t floor_of_def)
    have i: "\<And>w q' p'. (w, q', p') \<in> set (f_log s) \<Longrightarrow> w = v \<Longrightarrow> q' < seq" "seq \<le> floor_of (f_orch s) v"
      "sorted_wrt log_order (f_log s)" "\<forall>(v, q, p)\<in>set (f_log s). q \<le> floor_of (f_orch s) v"
      using assms(2) RWrite by (auto simp: fresh_inv_def past_floor_def)
    then have "sorted_wrt log_order (f_log s @ [(v, seq, p)])"
      by (auto simp: sorted_wrt_append log_order_def)
    with i show ?thesis unfolding fresh_inv_def f by (simp add: t past_floor_def)
  next
    case (RReply r cs n)
    with reader assms(2) show ?thesis
      by (cases n) (auto simp: reader_next_def fresh_inv_def past_floor_def floor_of_def emit_shapes)
  qed (use reader assms(2) in \<open>auto simp: reader_next_def fresh_inv_def past_floor_def floor_of_def emit_shapes\<close>)
qed

lemma fresh_inv_run:
  "fine_step\<^sup>*\<^sup>* (fine_start st) s \<Longrightarrow> fresh_inv s"
proof (induction rule: rtranclp_induct)
  case base
  show ?case by (simp add: fresh_inv_def fine_start_def past_floor_def)
qed (rule fresh_inv_step)

lemma log_order_distinct: "sorted_wrt log_order xs \<Longrightarrow> distinct (map (\<lambda>(v, q, p). (v, q)) xs)"
  by (induction xs) (auto simp: log_order_def)

text \<open>
  C8: No replay at the grain of the locks. Over every interleaving, through reconnects and
  departures, the viewer chunks written to the command carry, per viewer, strictly increasing
  sequence numbers: no sealed frame is written twice, and none after a later one of its viewer.
\<close>

theorem fine_no_replay:
  assumes "fine_step\<^sup>*\<^sup>* (fine_start st0) s"
  shows "sorted_wrt (\<lambda>x y. fst x = fst y \<longrightarrow> fst (snd x) < fst (snd y)) (f_log s)
    \<and> distinct (map (\<lambda>(v, q, p). (v, q)) (f_log s))
    \<and> (\<forall>(v, q, p)\<in>set (f_log s). q \<le> floor_of (f_orch s) v)"
  using fresh_inv_run [OF assms] log_order_distinct [of "f_log s"]
  by (simp add: fresh_inv_def log_order_def [abs_def])

theorem fine_no_replay_witness:
  "distinct (map (\<lambda>(v, q, p). (v, q)) (f_log (ex_written ControlAuto))) \<and> f_log (ex_written ControlAuto) \<noteq> []"
  using fine_no_replay [OF ex_written_facts(2) [of ControlAuto]] ex_written_facts(1) [of ControlAuto] by simp

subsection \<open>Revocation\<close>

text \<open>A step that gives control to nobody: the owner stays or goes.\<close>

definition grantless_step :: "fine \<Rightarrow> fine \<Rightarrow> bool" where
  "grantless_step s t \<longleftrightarrow> fine_step s t
     \<and> (controlOwner (f_orch t) = controlOwner (f_orch s) \<or> controlOwner (f_orch t) = [])"

text \<open>The chunk whose control check has passed and that is not written yet.\<close>

definition in_flight :: "fine \<Rightarrow> (string \<times> u64 \<times> bytes) list" where
  "in_flight s = (case f_reader s of RWrite v seq p \<Rightarrow> [(v, seq, p)] | _ \<Rightarrow> [])"

lemma in_flight_step:
  assumes "fine_step s t" "fine_ok s" "controlOwner (f_orch s) = []"
  shows "f_log t = f_log s \<and> in_flight t \<in> {in_flight s, []}
    \<or> f_log t = f_log s @ in_flight s \<and> in_flight t = []"
  using assms(1)
proof (cases rule: fine_step_cases)
  case (reader e)
  show ?thesis
  proof (cases "f_reader s")
    case (RSwitch r v seq k p)
    with reader assms(2,3) show ?thesis
      by (auto simp: reader_next_def reader_switch_def in_flight_def viewerHasControl_def fine_ok_def
          split: prod.splits sum.splits if_splits)
  next
    case (RReply r cs n)
    with reader show ?thesis by (cases n) (auto simp: reader_next_def in_flight_def)
  qed (use reader in \<open>auto simp: reader_next_def in_flight_def split: prod.splits\<close>)
qed (simp_all add: in_flight_def)

text \<open>The state right after the locked region of \<^verbatim>\<open>Revoke\<close>.\<close>

definition revoked :: "fine \<Rightarrow> fine" where
  "revoked s =
     (case revoke_region (f_orch s) of
        (owner, route, st) \<Rightarrow> s\<lparr>f_orch := st, f_host := (if owner = [] then HIdle else HReply route)\<rparr>)"

lemma revoked_step: "f_host s = HIdle \<Longrightarrow> fine_step s (revoked s)"
  using fine_step.revoke [of s] by (cases "revoke_region (f_orch s)") (simp add: revoked_def)

lemma revoked_facts:
  "controlOwner (f_orch (revoked s)) = []" "f_log (revoked s) = f_log s" "in_flight (revoked s) = in_flight s"
  by (simp_all add: revoked_def revoke_region_def in_flight_def)

lemma fine_ok_run: "fine_step\<^sup>*\<^sup>* (fine_start st0) s \<Longrightarrow> fine_ok s"
  by (induction rule: rtranclp_induct) (simp add: fine_ok_def fine_start_def, blast intro: fine_ok_step)

text \<open>
  C9: Revocation at the grain of the locks. In any state any interleaving can reach, the host
  revokes. From then on, and as long as no new grant is made, nobody owns control, and at most one
  more viewer chunk reaches the command: the one whose check had already passed when the owner was
  cleared. Whatever a viewer or the relay sends after the revocation is not written.
\<close>

theorem revoke_in_flight:
  assumes "fine_step\<^sup>*\<^sup>* (fine_start st0) s" "f_host s = HIdle"
    and "grantless_step\<^sup>*\<^sup>* (revoked s) t"
  shows "fine_step s (revoked s) \<and> controlOwner (f_orch t) = []
    \<and> (f_log t = f_log s \<or> f_log t = f_log s @ in_flight s) \<and> length (in_flight s) \<le> 1"
proof -
  have ok: "fine_ok (revoked s)"
    using fine_ok_step [OF revoked_step [OF assms(2)] fine_ok_run [OF assms(1)]] .
  have "fine_ok t \<and> controlOwner (f_orch t) = []
      \<and> (f_log t = f_log s \<and> in_flight t \<in> {in_flight s, []} \<or> f_log t = f_log s @ in_flight s \<and> in_flight t = [])"
    using assms(3)
  proof (induction rule: rtranclp_induct)
    case (step t u)
    then have u: "fine_step t u" "controlOwner (f_orch u) = []" by (auto simp: grantless_step_def)
    from step in_flight_step [OF u(1)] fine_ok_step [OF u(1)] u(2) show ?case by auto
  qed (use ok revoked_facts in simp)
  then show ?thesis using revoked_step [OF assms(2)] by (auto simp: in_flight_def split: reader_pc.split)
qed

text \<open>The bound is met: revoked after the check, the checked keystroke is still written.\<close>

theorem revoke_in_flight_witness:
  "fine_step (ex_checked ControlAuto) (revoked (ex_checked ControlAuto))
   \<and> controlOwner (f_orch (ex_checked ControlAuto)) = ''v''
   \<and> (\<exists>t. grantless_step\<^sup>*\<^sup>* (revoked (ex_checked ControlAuto)) t \<and> controlOwner (f_orch t) = []
        \<and> f_log t = f_log (ex_checked ControlAuto) @ [(''v'', 2, [0x6C])])"
proof -
  let ?s = "ex_checked ControlAuto"
  note f = ex_granted_facts [of ControlAuto, simplified] and c = ex_checked_eq [of ControlAuto, simplified]
  have o: "controlOwner (f_orch ?s) = ''v''" using f(1) by (simp add: c accepted_def)
  have h: "f_host ?s = HIdle" using f(8) by (simp add: c)
  have n: "f_reader (revoked ?s) = RWrite ''v'' 2 [0x6C]" "ptmx_open (sess (f_orch (revoked ?s)))"
    using o f by (simp_all add: revoked_def revoke_region_def c accepted_def)
  define t where "t = reader_run 1 ex_env (revoked ?s)"
  have t: "reader_next ex_env (revoked ?s) = Some t" "f_log t = f_log ?s @ [(''v'', 2, [0x6C])]" "controlOwner (f_orch t) = []"
    using n revoked_facts [of ?s] by (simp_all add: t_def reader_next_def SessionWrite_def)
  then have u: "grantless_step\<^sup>*\<^sup>* (revoked ?s) t"
    by (auto simp: grantless_step_def intro!: r_into_rtranclp fine_step.reader)
  have run: "fine_step\<^sup>*\<^sup>* (fine_start (ex_orch ControlAuto)) ?s" by (rule ex_checked_run) simp
  from revoke_in_flight [OF run h u] t o u show ?thesis by auto
qed

end
