(* ===== verification/Soak.thy ===== *)
theory Soak
  imports Strings Examples CliText "HOL-Library.Multiset"
begin

text \<open>
  \<^verbatim>\<open>src/runner/cmd/soak\<close>: the load harness, which runs many sessions, each with a runner and a
  viewer in Go, against a relay and reports what happened. What the surroundings answer - the relay, the file
  system, the random source - is an argument; the counters are the list of the additions to them in
  the order they happen. The progress line with its percentage, and the waiting, are not modelled.
\<close>

subsection \<open>The relay's memory (rss.go)\<close>

type_synonym filesystem = "string \<Rightarrow> string option"

definition rssKB :: "filesystem \<Rightarrow> int \<Rightarrow> int" where
  "rssKB fs pid =
     (case fs (''/proc/'' @ show_int pid @ ''/status'') of
        None \<Rightarrow> 0
      | Some data \<Rightarrow>
          (case find (\<lambda>line. HasPrefix line ''VmRSS:'' \<and> 2 \<le> length (Fields line)) (split_on CHR 0x0A data) of
             Some line \<Rightarrow> fst (Atoi (Fields line ! 1))
           | None \<Rightarrow> 0))"

definition is_relay :: "filesystem \<Rightarrow> int \<Rightarrow> bool" where
  "is_relay fs pid \<longleftrightarrow>
     (case fs (''/proc/'' @ show_int pid @ ''/comm'') of
        None \<Rightarrow> False
      | Some comm \<Rightarrow> TrimSpace comm = ''beam.smp'')"

definition relay_scan :: "filesystem \<Rightarrow> string \<Rightarrow> int \<times> int \<Rightarrow> int \<times> int" where
  "relay_scan fs name best =
     (case Atoi name of
        (pid, ok) \<Rightarrow>
          if \<not> ok then best
          else if \<not> is_relay fs pid then best
          else (let kb = rssKB fs pid in if kb > snd best then (pid, kb) else best))"

definition findRelayPID :: "string list option \<Rightarrow> filesystem \<Rightarrow> int" where
  "findRelayPID entries fs =
     (case entries of None \<Rightarrow> 0 | Some names \<Rightarrow> fst (fold (relay_scan fs) names (0, 0)))"

record rssSampler =
  rss_pid :: int
  samplesKB :: "int list"

text \<open>The sampler takes a sample a second until it reads 0: the process is gone.\<close>

definition startRSSSampler :: "int \<Rightarrow> int list \<Rightarrow> rssSampler" where
  "startRSSSampler pid readings =
     \<lparr>rss_pid = pid, samplesKB = (if pid = 0 then [] else takeWhile (\<lambda>kb. kb \<noteq> 0) readings)\<rparr>"






subsection \<open>The viewer\<close>

text \<open>What a read from the WebSocket gives: an error, or a message and whether it is binary.\<close>

datatype ws_read = ReadErr | ReadMsg bool bytes

text \<open>
  \<^verbatim>\<open>read\<close>: skips text messages. The outer \<open>None\<close> is a read that waits, the inner one an error;
  the rest of the messages stays to be read.
\<close>

fun viewer_read :: "Cipher \<Rightarrow> ws_read list \<Rightarrow> ((byte \<times> bytes) option \<times> ws_read list) option" where
  "viewer_read c [] = None"
| "viewer_read c (ReadErr # rs) = Some (None, rs)"
| "viewer_read c (ReadMsg binary data # rs) =
     (if \<not> binary then viewer_read c rs
      else case Open c data of Inl _ \<Rightarrow> Some (None, rs) | Inr (_, kind, payload) \<Rightarrow> Some (Some (kind, payload), rs))"

record viewer =
  v_open :: Cipher
  v_seal :: Cipher
  v_id :: string
  v_outSeq :: u64

text \<open>
  \<^verbatim>\<open>send\<close>: the sequence number counts up even when the frame is not sent. The result is the
  frame given to the WebSocket, and whether all went well; \<open>ok\<close> is the write's answer.
\<close>

definition viewer_send :: "bytes option \<Rightarrow> bool \<Rightarrow> byte \<Rightarrow> bytes \<Rightarrow> viewer \<Rightarrow> viewer \<times> bytes list \<times> bool" where
  "viewer_send rand ok kind payload v =
     (let v1 = v\<lparr>v_outSeq := v_outSeq v + 1\<rparr> in
      case Seal (v_seal v1) rand (v_outSeq v1) kind (EncodeViewerPayload (v_id v1) payload) of
        Inl _ \<Rightarrow> (v1, [], False)
      | Inr frame \<Rightarrow> (v1, [frame], ok))"

subsection \<open>One viewer session\<close>

datatype session_end = DialFailed | FirstReadFailed | BadHello | SendFailed | Bounced | ReadEnded

text \<open>What the \<^verbatim>\<open>select\<close> of the session picks next; a tick carries the answers its send gets.\<close>

datatype session_event = CtxDone | Bounce | ReadsDone | Tick "bytes option" bool

definition soak_ping :: bytes where "soak_ping = str_bytes (''soak-ping'' @ [CHR 0x0A])"

text \<open>
  The loop: the frames written, and how it ended - not yet (\<open>None\<close>), without an error, or with one.
\<close>

fun session_loop :: "session_event list \<Rightarrow> viewer \<Rightarrow> bytes list \<times> session_end option option" where
  "session_loop [] v = ([], None)"
| "session_loop (CtxDone # evs) v = ([], Some None)"
| "session_loop (Bounce # evs) v = ([], Some (Some Bounced))"
| "session_loop (ReadsDone # evs) v = ([], Some (Some ReadEnded))"
| "session_loop (Tick rand ok # evs) v =
     (case viewer_send rand ok KindInput soak_ping v of
        (v1, out, sent) \<Rightarrow>
          if \<not> sent then (out, Some (Some SendFailed))
          else case session_loop evs v1 of (out2, r) \<Rightarrow> (out @ out2, r))"

lemma viewer_read_shorter: "viewer_read c rs = Some (x, rest) \<Longrightarrow> length rest < length rs"
  by (induction c rs rule: viewer_read.induct) (auto split: if_splits sum.splits)

text \<open>The reader goroutine: how many frames it counts before a read fails.\<close>

function reader_frames :: "Cipher \<Rightarrow> ws_read list \<Rightarrow> nat" where
  "reader_frames c rs =
     (case viewer_read c rs of Some (Some _, rest) \<Rightarrow> Suc (reader_frames c rest) | _ \<Rightarrow> 0)"
  by auto
termination
  by (relation "measure (\<lambda>(_, rs). length rs)") (auto dest: viewer_read_shorter)

declare reader_frames.simps [simp del]

text \<open>A session's surroundings.\<close>

record session_world =
  sw_dials :: "string \<Rightarrow> bool"
  sw_nano :: int
  sw_reads :: "ws_read list"
  sw_req_rand :: "bytes option"
  sw_req_ok :: bool
  sw_events :: "session_event list"

record session_result =
  sr_written :: "bytes list"
  sr_frames :: nat
  sr_end :: "session_end option option"

text \<open>The sequence number a viewer starts behind, from its first frame.\<close>

definition hello_seq :: "byte \<Rightarrow> bytes \<Rightarrow> wire_error + u64" where
  "hello_seq kind payload =
     (if kind = KindHello
      then (case DecodeHello payload of Inl e \<Rightarrow> Inl e | Inr (b, _, _) \<Rightarrow> Inr (b - 1))
      else Inr 0)"

definition session :: "string \<Rightarrow> string \<Rightarrow> Cipher \<Rightarrow> Cipher \<Rightarrow> session_world \<Rightarrow> session_result" where
  "session wsBase sid openC sealC w =
     (if \<not> sw_dials w (wsBase @ ''/ws/viewer/'' @ sid) then \<lparr>sr_written = [], sr_frames = 0, sr_end = Some (Some DialFailed)\<rparr>
      else let v = \<lparr>v_open = openC, v_seal = sealC, v_id = ''viewer-'' @ show_int (sw_nano w), v_outSeq = 0\<rparr> in
      case viewer_read (v_open v) (sw_reads w) of
        None \<Rightarrow> \<lparr>sr_written = [], sr_frames = 0, sr_end = None\<rparr>
      | Some (None, _) \<Rightarrow> \<lparr>sr_written = [], sr_frames = 0, sr_end = Some (Some FirstReadFailed)\<rparr>
      | Some (Some (kind, payload), rest) \<Rightarrow>
          (case hello_seq kind payload of
             Inl _ \<Rightarrow> \<lparr>sr_written = [], sr_frames = 0, sr_end = Some (Some BadHello)\<rparr>
           | Inr seq \<Rightarrow>
               (case viewer_send (sw_req_rand w) (sw_req_ok w) KindCtrlReq [] (v\<lparr>v_outSeq := seq\<rparr>) of
                  (v1, out, sent) \<Rightarrow>
                    if \<not> sent then \<lparr>sr_written = out, sr_frames = 0, sr_end = Some (Some SendFailed)\<rparr>
                    else case session_loop (sw_events w) v1 of
                      (out2, r) \<Rightarrow> \<lparr>sr_written = out @ out2, sr_frames = reader_frames (v_open v1) rest, sr_end = r\<rparr>)))"

subsection \<open>The counters\<close>

datatype stat = SSession | SCapReject | SFrame | SDrop | SStorm | SFatal

record stats =
  sessions :: u64
  capRejects :: u64
  frames :: u64
  drops :: u64
  storms :: u64
  fatal :: u64

definition no_stats :: stats where
  "no_stats = \<lparr>sessions = 0, capRejects = 0, frames = 0, drops = 0, storms = 0, fatal = 0\<rparr>"

fun add_stat :: "stat \<Rightarrow> stats \<Rightarrow> stats" where
  "add_stat SSession s = s\<lparr>sessions := sessions s + 1\<rparr>"
| "add_stat SCapReject s = s\<lparr>capRejects := capRejects s + 1\<rparr>"
| "add_stat SFrame s = s\<lparr>frames := frames s + 1\<rparr>"
| "add_stat SDrop s = s\<lparr>drops := drops s + 1\<rparr>"
| "add_stat SStorm s = s\<lparr>storms := storms s + 1\<rparr>"
| "add_stat SFatal s = s\<lparr>fatal := fatal s + 1\<rparr>"

definition stats_of :: "stat list \<Rightarrow> stats" where
  "stats_of evs = fold add_stat evs no_stats"

subsection \<open>One pair\<close>








text \<open>
  A storm asks pairs to reconnect. A pair's channel has room for one request: \<open>None\<close> before the
  pair has made it, else whether it is full.
\<close>

definition bounceNow :: "bool option \<Rightarrow> bool option" where
  "bounceNow chan = (case chan of None \<Rightarrow> None | Some _ \<Rightarrow> Some True)"

definition storm :: "nat list \<Rightarrow> bool option list \<Rightarrow> bool option list" where
  "storm picks chans = fold (\<lambda>i cs. cs[i := bounceNow (cs ! i)]) picks chans"

subsection \<open>The report and the exit code\<close>


definition serverBase :: "(string \<Rightarrow> string) \<Rightarrow> string" where
  "serverBase getenv = (if getenv ''ONLYTTY_SERVER'' \<noteq> [] then getenv ''ONLYTTY_SERVER'' else ''http://127.0.0.1:4000'')"







subsection \<open>The counters count\<close>

text \<open>The counters do not depend on the order in which the goroutines add to them.\<close>

lemma fold_add_stat:
  "fold add_stat evs s = \<lparr>sessions = sessions s + of_nat (count_list evs SSession),
     capRejects = capRejects s + of_nat (count_list evs SCapReject), frames = frames s + of_nat (count_list evs SFrame),
     drops = drops s + of_nat (count_list evs SDrop), storms = storms s + of_nat (count_list evs SStorm),
     fatal = fatal s + of_nat (count_list evs SFatal)\<rparr>"
proof (induction evs arbitrary: s)
  case (Cons e evs)
  then show ?case by (cases e) simp_all
qed simp


lemma count_list_mset: "count_list xs x = count (mset xs) x"
  by (induction xs) auto

lemma stats_order: "mset xs = mset ys \<Longrightarrow> stats_of xs = stats_of ys"
  by (simp add: stats_of_def fold_add_stat count_list_mset)













subsection \<open>The relay's process\<close>

definition relay_pids :: "string list \<Rightarrow> filesystem \<Rightarrow> int set" where
  "relay_pids names fs = {pid. \<exists>name\<in>set names. Atoi name = (pid, True) \<and> is_relay fs pid}"

lemma relay_pids_Cons:
  "relay_pids (name # names) fs
     = (if snd (Atoi name) \<and> is_relay fs (fst (Atoi name)) then {fst (Atoi name)} else {}) \<union> relay_pids names fs"
  by (auto simp: relay_pids_def) (metis fst_conv snd_conv prod.collapse)+

lemma relay_scan_fold:
  "\<lbrakk>fold (relay_scan fs) names (b, kb) = (pid, mx); 0 \<le> kb\<rbrakk> \<Longrightarrow>
     kb \<le> mx \<and> (\<forall>p\<in>relay_pids names fs. rssKB fs p \<le> mx)
   \<and> ((pid, mx) = (b, kb) \<or> pid \<in> relay_pids names fs \<and> mx = rssKB fs pid \<and> kb < mx)"
proof (induction names arbitrary: b kb)
  case Nil
  then show ?case by (simp add: relay_pids_def)
next
  case (Cons name names)
  obtain p ok where a: "Atoi name = (p, ok)" by (cases "Atoi name")
  show ?case
  proof (cases "ok \<and> is_relay fs p \<and> rssKB fs p > kb")
    case True
    then have "relay_scan fs name (b, kb) = (p, rssKB fs p)" by (simp add: relay_scan_def a)
    with Cons.prems have "fold (relay_scan fs) names (p, rssKB fs p) = (pid, mx)" by simp
    from Cons.IH [OF this] True Cons.prems(2) a show ?thesis by (auto simp: relay_pids_Cons)
  next
    case False
    then have "relay_scan fs name (b, kb) = (b, kb)" by (auto simp: relay_scan_def a Let_def)
    with Cons.prems have "fold (relay_scan fs) names (b, kb) = (pid, mx)" by simp
    from Cons.IH [OF this Cons.prems(2)] False a show ?thesis by (auto simp: relay_pids_Cons)
  qed
qed

text \<open>
  Which process the harness watches. Of the entries of /proc that are numbers and whose
  command is the relay's virtual machine, it is one with the largest resident memory, and never one without any, such
  as a zombie; when there is none it is 0 and nothing is sampled.
\<close>

theorem findRelayPID_largest:
  "if \<exists>p\<in>relay_pids names fs. 0 < rssKB fs p
   then findRelayPID (Some names) fs \<in> relay_pids names fs \<and> 0 < rssKB fs (findRelayPID (Some names) fs)
      \<and> (\<forall>p\<in>relay_pids names fs. rssKB fs p \<le> rssKB fs (findRelayPID (Some names) fs))
   else findRelayPID (Some names) fs = 0 \<and> samplesKB (startRSSSampler (findRelayPID (Some names) fs) readings) = []"
proof -
  obtain pid mx where f: "fold (relay_scan fs) names (0, 0) = (pid, mx)" by (cases "fold (relay_scan fs) names (0, 0)")
  then have "findRelayPID (Some names) fs = pid" by (simp add: findRelayPID_def)
  with relay_scan_fold [OF f] show ?thesis by (fastforce simp: startRSSSampler_def)
qed

lemma find_first: "\<lbrakk>\<forall>x\<in>set xs. \<not> P x; P y\<rbrakk> \<Longrightarrow> find P (xs @ y # ys) = Some y"
  by (induction xs) simp_all

lemma dec_digits_plain: "set dec_digits \<subseteq> set plain_chars"
proof -
  have "list_all (\<lambda>c. c \<in> set plain_chars) dec_digits" by code_simp
  then show ?thesis by (auto simp: list_all_iff)
qed

lemma status_words: "plain_word ''VmRSS:''" "plain_word ''kB''"
proof -
  have "list_all (\<lambda>c. c \<in> set plain_chars) (''VmRSS:'' @ ''kB'')" by code_simp
  then show "plain_word ''VmRSS:''" "plain_word ''kB''" by (auto simp: list_all_iff)
qed

text \<open>What the kernel writes is read back: the line of a process with that much resident memory.\<close>

lemma rssKB_line:
  assumes "fs (''/proc/'' @ show_int pid @ ''/status'') = Some data"
    and "split_on CHR 0x0A data = other @ (''VmRSS:'' @ blanks @ show_nat kb @ '' kB'') # rest"
    and "\<forall>l\<in>set other. \<not> HasPrefix l ''VmRSS:''" "set blanks \<subseteq> {CHR '' '', CHR 0x09}" "blanks \<noteq> []" "kb < 2 ^ 63"
  shows "rssKB fs pid = int kb"
proof -
  let ?line = "''VmRSS:'' @ blanks @ show_nat kb @ '' kB''"
  obtain b bs where b: "blanks = b # bs" using assms(5) by (cases blanks) auto
  have p: "plain_word (show_nat kb)" "plain_word ''VmRSS:''" "plain_word ''kB''"
    using show_nat_plain [of kb] dec_digits_plain status_words by blast+
  have "Fields ?line = fields_from ''VmRSS:'' (blanks @ show_nat kb @ '' kB'')"
    unfolding Fields_def using fields_from_word [OF p(2), of "[]" "blanks @ show_nat kb @ '' kB''"] by (simp del: append_Cons)
  also have "\<dots> = ''VmRSS:'' # fields_from [] (show_nat kb @ '' kB'')"
    using assms(4) by (simp add: b fields_from_blank fields_from_blanks)
  also have "fields_from [] (show_nat kb @ '' kB'') = fields_from (show_nat kb) '' kB''"
    using fields_from_word [OF p(1), of "[]" "'' kB''"] by (simp del: append_Cons)
  also have "\<dots> = [show_nat kb, ''kB'']"
    using show_nat_plain [of kb] fields_from_word [OF p(3), of "[]" "[]"]
    by (simp add: fields_from_blank fields_from_end)
  finally have f: "Fields ?line = [''VmRSS:'', show_nat kb, ''kB'']" .
  have "find (\<lambda>line. HasPrefix line ''VmRSS:'' \<and> 2 \<le> length (Fields line)) (other @ ?line # rest) = Some ?line"
    using assms(3) f by (intro find_first) (simp_all del: append_Cons)
  with assms(1,2,6) f show ?thesis by (simp add: rssKB_def Atoi_show_nat)
qed

definition ex_proc :: filesystem where
  "ex_proc = map_of [(''/proc/7/comm'', ''beam.smp'' @ [CHR 0x0A]), (''/proc/9/comm'', ''beam.smp'' @ [CHR 0x0A]),
     (''/proc/7/status'', ''Name:'' @ [CHR 0x09] @ ''beam.smp'' @ [CHR 0x0A] @ ''VmRSS:'' @ [CHR 0x09] @ ''   512 kB'' @ [CHR 0x0A]),
     (''/proc/9/status'', ''VmRSS:'' @ [CHR 0x09] @ ''  2048 kB'' @ [CHR 0x0A])]"

lemma ex_trim: "TrimSpace (''beam.smp'' @ [CHR 0x0A]) = ''beam.smp''"
  by code_simp

lemma ex_digits: "show_int 7 = ''7''" "show_int 9 = ''9''" "show_nat 512 = ''512''" "show_nat 2048 = ''2048''"
  by code_simp+

lemma ex_atoi: "Atoi ''self'' = (0, False)" "Atoi ''7'' = (7, True)" "Atoi ''9'' = (9, True)"
  by code_simp+

lemma ex_is_relay: "is_relay ex_proc 7" "is_relay ex_proc 9"
  using ex_trim by (simp_all add: is_relay_def ex_proc_def ex_digits)

lemma split_on_line: "c \<notin> set x \<Longrightarrow> split_on c (x @ c # s) = x # split_on c s"
  by (induction x) auto

lemma ex_lines:
  "split_on CHR 0x0A ((''Name:'' @ CHR 0x09 # ''beam.smp'') @ CHR 0x0A # (''VmRSS:'' @ CHR 0x09 # ''   512 kB'') @ [CHR 0x0A])
   = [''Name:'' @ CHR 0x09 # ''beam.smp''] @ (''VmRSS:'' @ (CHR 0x09 # ''   '') @ show_nat 512 @ '' kB'') # [[]]"
  "split_on CHR 0x0A ((''VmRSS:'' @ CHR 0x09 # ''  2048 kB'') @ [CHR 0x0A])
   = [] @ (''VmRSS:'' @ (CHR 0x09 # ''  '') @ show_nat 2048 @ '' kB'') # [[]]"
proof -
  have n: "CHR 0x0A \<notin> set (''Name:'' @ CHR 0x09 # ''beam.smp'')" "CHR 0x0A \<notin> set (''VmRSS:'' @ CHR 0x09 # ''   512 kB'')"
    "CHR 0x0A \<notin> set (''VmRSS:'' @ CHR 0x09 # ''  2048 kB'')" by simp_all
  show "split_on CHR 0x0A ((''Name:'' @ CHR 0x09 # ''beam.smp'') @ CHR 0x0A # (''VmRSS:'' @ CHR 0x09 # ''   512 kB'') @ [CHR 0x0A])
   = [''Name:'' @ CHR 0x09 # ''beam.smp''] @ (''VmRSS:'' @ (CHR 0x09 # ''   '') @ show_nat 512 @ '' kB'') # [[]]"
    by (simp only: split_on_line [OF n(1)] split_on_line [OF n(2)] split_on.simps(1) ex_digits) simp
  show "split_on CHR 0x0A ((''VmRSS:'' @ CHR 0x09 # ''  2048 kB'') @ [CHR 0x0A])
   = [] @ (''VmRSS:'' @ (CHR 0x09 # ''  '') @ show_nat 2048 @ '' kB'') # [[]]"
    by (simp only: split_on_line [OF n(3)] split_on.simps(1) ex_digits) simp
qed

lemma ex_files:
  "ex_proc (''/proc/'' @ show_int 7 @ ''/status'')
   = Some ((''Name:'' @ CHR 0x09 # ''beam.smp'') @ CHR 0x0A # (''VmRSS:'' @ CHR 0x09 # ''   512 kB'') @ [CHR 0x0A])"
  "ex_proc (''/proc/'' @ show_int 9 @ ''/status'') = Some ((''VmRSS:'' @ CHR 0x09 # ''  2048 kB'') @ [CHR 0x0A])"
  by (simp_all add: ex_proc_def ex_digits)

lemma ex_rss: "rssKB ex_proc 7 = 512" "rssKB ex_proc 9 = 2048"
  using rssKB_line [where fs = ex_proc and pid = 7 and blanks = "CHR 0x09 # ''   ''", OF ex_files(1) ex_lines(1)]
    rssKB_line [where fs = ex_proc and pid = 9 and blanks = "CHR 0x09 # ''  ''", OF ex_files(2) ex_lines(2)]
  by (simp_all add: HasPrefix_def)

theorem findRelayPID_largest_witness: "findRelayPID (Some [''self'', ''7'', ''9'']) ex_proc = 9"
proof -
  have "relay_pids [''self'', ''7'', ''9''] ex_proc = {7, 9}"
    by (auto simp: relay_pids_Cons ex_atoi ex_is_relay) (simp add: relay_pids_def)
  with findRelayPID_largest [of "[''self'', ''7'', ''9'']" ex_proc "[]"] show ?thesis
    by (auto simp: ex_rss split: if_splits)
qed

subsection \<open>The harness's viewer and the runner\<close>

text \<open>What a session writes when every send succeeds: consecutive frames from the baseline on.\<close>

fun soak_frames :: "Cipher \<Rightarrow> string \<Rightarrow> u64 \<Rightarrow> (bytes \<times> byte \<times> bytes) list \<Rightarrow> bytes list" where
  "soak_frames c vid seq [] = []"
| "soak_frames c vid seq ((nonce, kind, payload) # ms) =
     viewer_sealed c nonce vid (seq + 1) kind payload # soak_frames c vid (seq + 1) ms"

lemma viewer_send_ok:
  "viewer_send (Some nonce) True kind payload v
   = (v\<lparr>v_outSeq := v_outSeq v + 1\<rparr>, [viewer_sealed (v_seal v) nonce (v_id v) (v_outSeq v + 1) kind payload], True)"
  by (simp add: viewer_send_def Seal_def viewer_sealed_def)

lemma session_loop_ticks:
  "session_loop (map (\<lambda>n. Tick (Some n) True) nonces) v
   = (soak_frames (v_seal v) (v_id v) (v_outSeq v) (map (\<lambda>n. (n, KindInput, soak_ping)) nonces), None)"
  by (induction nonces arbitrary: v) (simp_all add: viewer_send_ok)

text \<open>The frames reach the runner through the relay under one route.\<close>

definition relayed :: "env \<Rightarrow> string \<Rightarrow> bytes list \<Rightarrow> Orch \<Rightarrow> Orch" where
  "relayed e r fs st = fold (\<lambda>f. handleBinary e (EncodeRelayViewerFrame r f)) fs st"

lemma handle_owner_input:
  assumes "cipher_ok (v2r st)" "length n = 12" "r \<noteq> []" "length r \<le> 255" "v \<noteq> []" "length v \<le> 255"
    and "floor_of st v < seq" "controlOwner st = v" "ptmx_open (sess st)"
  shows "handleBinary e (viewer_frame (v2r st) n r v seq KindInput k) st
    = (accepted r v seq st)\<lparr>sess := (sess st)\<lparr>pty_in := pty_in (sess st) @ [k]\<rparr>\<rparr>"
  using handle_viewer_frame [OF assms(1-7)] assms(5,8,9)
  by (simp add: dispatch_def kind_defs viewerHasControl_def SessionWrite_def accepted_def)

lemma relayed_pings:
  assumes "cipher_ok (v2r st)" "\<forall>n\<in>set nonces. length n = 12" "r \<noteq> []" "length r \<le> 255" "v \<noteq> []" "length v \<le> 255"
    and "floor_of st v \<le> seq" "controlOwner st = v" "ptmx_open (sess st)"
    and "unat seq + length nonces < 2 ^ 64" "c = v2r st"
  shows "controlOwner (relayed e r (soak_frames c v seq (map (\<lambda>n. (n, KindInput, soak_ping)) nonces)) st) = v
    \<and> pty_in (sess (relayed e r (soak_frames c v seq (map (\<lambda>n. (n, KindInput, soak_ping)) nonces)) st))
      = pty_in (sess st) @ replicate (length nonces) soak_ping"
  using assms
proof (induction nonces arbitrary: st seq)
  case Nil
  then show ?case by (simp add: relayed_def)
next
  case (Cons n nonces)
  have u: "unat (seq + 1) = unat seq + 1"
    using Cons.prems(10) by (simp add: unat_word_ariths)
  then have "floor_of st v < seq + 1"
    using Cons.prems(7) by (simp add: word_less_nat_alt word_le_nat_alt)
  then have h: "handleBinary e (viewer_frame (v2r st) n r v (seq + 1) KindInput soak_ping) st
      = (accepted r v (seq + 1) st)\<lparr>sess := (sess st)\<lparr>pty_in := pty_in (sess st) @ [soak_ping]\<rparr>\<rparr>" (is "_ = ?st1")
    using Cons.prems by (intro handle_owner_input) simp_all
  have "controlOwner (relayed e r (soak_frames c v (seq + 1) (map (\<lambda>n. (n, KindInput, soak_ping)) nonces)) ?st1) = v
    \<and> pty_in (sess (relayed e r (soak_frames c v (seq + 1) (map (\<lambda>n. (n, KindInput, soak_ping)) nonces)) ?st1))
      = pty_in (sess ?st1) @ replicate (length nonces) soak_ping"
    using Cons.prems u by (intro Cons.IH) (simp_all add: accepted_def floor_of_def)
  with h Cons.prems(11) show ?case
    by (simp add: relayed_def viewer_frame_def)
qed

text \<open>
  The harness's viewer does what the browser does. Connected to a runner in an auto-control
  session nobody controls, with a HELLO whose baseline is above its own floor, it takes control with its first frame and
  every ping of the session is typed into the command's PTY once, in order - its sequence numbers start at
  the baseline and each is above the floor the one before left.
\<close>

theorem soak_viewer_types:
  assumes "control st = ControlAuto" "controlOwner st = []" "ptmx_open (sess st)" "cipher_ok (v2r st)"
    and "sw_dials w (wsBase @ ''/ws/viewer/'' @ sid)"
    and "viewer_read openC (sw_reads w) = Some (Some (KindHello, EncodeHello b cols rows), rest)"
    and "sw_req_rand w = Some n0" "sw_req_ok w" "sw_events w = map (\<lambda>n. Tick (Some n) True) nonces"
    and "\<forall>n\<in>set (n0 # nonces). length n = 12" "r \<noteq> []" "length r \<le> 255"
    and "v = ''viewer-'' @ show_int (sw_nano w)" "length v \<le> 255"
    and "floor_of st v < b" "unat b + length nonces < 2 ^ 64"
    and "st' = relayed e r (sr_written (session wsBase sid openC (v2r st) w)) st"
  shows "controlOwner st' = v \<and> pty_in (sess st') = pty_in (sess st) @ replicate (length nonces) soak_ping"
proof -
  have v: "v \<noteq> []" by (simp add: assms(13))
  have "DecodeHello (EncodeHello b cols rows) = Inr (b, cols, rows)"
    by (metis DecodeHello_iff append_Nil2)
  then have "sr_written (session wsBase sid openC (v2r st) w)
      = viewer_sealed (v2r st) n0 v b KindCtrlReq [] # soak_frames (v2r st) v b (map (\<lambda>n. (n, KindInput, soak_ping)) nonces)"
    using assms(5-9) by (simp add: session_def hello_seq_def viewer_send_ok session_loop_ticks assms(13) Let_def)
  then have st': "st' = relayed e r (soak_frames (v2r st) v b (map (\<lambda>n. (n, KindInput, soak_ping)) nonces))
      (handleBinary e (viewer_frame (v2r st) n0 r v b KindCtrlReq []) st)"
    using assms(17) by (simp add: relayed_def viewer_frame_def)
  let ?a = "accepted r v b st"
  let ?st1 = "handleBinary e (viewer_frame (v2r st) n0 r v b KindCtrlReq []) st"
  have st1: "?st1 = handleControlRequest e v r ?a"
    using handle_viewer_frame [of st n0 r v b e KindCtrlReq "[]"] assms v by (simp add: dispatch_def kind_defs)
  then have o1: "controlOwner ?st1 = v" "sess ?st1 = sess st" "v2r ?st1 = v2r st"
    using assms(1,2) v by (simp_all add: handleControlRequest_def emit_shapes accepted_def Let_def)
  have "floor_of ?st1 v = floor_of ?a v"
    unfolding st1 by (rule floor_of_cong) (rule handleControlRequest_frame)
  then have f: "floor_of ?st1 v \<le> b" by (simp add: floor_of_accepted)
  show ?thesis
    unfolding st' o1(2) [symmetric]
    using assms v f o1 by (intro relayed_pings) simp_all
qed

definition ex_viewer :: session_world where
  "ex_viewer = \<lparr>sw_dials = (\<lambda>_. True), sw_nano = 7,
     sw_reads = [ReadMsg True (sealWithNonce (ex_cipher 1) (replicate 12 0) 1 KindHello (EncodeHello 1 80 24))],
     sw_req_rand = Some (replicate 12 0), sw_req_ok = True,
     sw_events = map (\<lambda>n. Tick (Some n) True) [replicate 12 1, replicate 12 2]\<rparr>"

theorem soak_viewer_types_witness:
  "pty_in (sess (relayed ex_env ''r'' (sr_written (session ''ws://relay'' ''sess'' (ex_cipher 1) (v2r (ex_up ControlAuto)) ex_viewer))
     (ex_up ControlAuto))) = [soak_ping, soak_ping]"
proof -
  have r: "viewer_read (ex_cipher 1) (sw_reads ex_viewer) = Some (Some (KindHello, EncodeHello 1 80 24), [])"
    by (simp add: ex_viewer_def Open_sealWithNonce nonceLen_def)
  have v: "length (''viewer-'' @ show_int (sw_nano ex_viewer)) \<le> 255"
    by (simp add: ex_viewer_def show_int_def show_nat.simps)
  show ?thesis
    using soak_viewer_types [of "ex_up ControlAuto" ex_viewer "''ws://relay''" "''sess''", OF _ _ _ _ _ r _ _ _ _ _ _ refl v _ _ refl,
        where ?n0.0 = "replicate 12 0" and nonces = "[replicate 12 1, replicate 12 2]" and r = "''r''" and e = ex_env]
    by (simp add: ex_simps floor_of_def ex_viewer_def)
qed

end
