(* ===== verification/Spec2Isabelle.thy ===== *)
theory Spec2Isabelle
  imports Typing Quiet PortalHttp Flags Ending Resume Races Soak
begin

text \<open>
  A verification library for OnlyTTY: the runner (the Go code under
  \<^verbatim>\<open>src/runner/\<close>), which starts a command in a PTY, mirrors it on the host's
  terminal and shares it end to end encrypted with viewers in a browser; the part of the relay (the
  Elixir code under \<^verbatim>\<open>src/portal/lib/\<close>) through which runner and viewers reach
  each other; and the viewer (the JavaScript under
  \<^verbatim>\<open>src/portal/priv/static/assets/\<close>).

  \<^bold>\<open>How the parts interact.\<close> The command line turns flags, environment and the
  relay's answer into a configuration (\<^verbatim>\<open>cmd/onlytty/main.go\<close>). The
  orchestrator (\<^verbatim>\<open>internal/runner/runner.go\<close>) owns everything after that: one
  goroutine pumps PTY output to the host's terminal, to the resume ring and to the current
  connection's send queue; one pumps the host's keystrokes; a keepalive pulses; a watcher records the
  child's exit; a loop keeps one WebSocket to the relay up. Each connection has a reader, which
  handles the relay's plaintext messages and the viewers' sealed frames, and a sender, the only one
  that seals and writes. Frames are sealed with AES-256-GCM under two keys derived from the link's
  secret (\<^verbatim>\<open>internal/protocol\<close>), one per direction.

  The relay has one process per session, which knows the runner's and the viewers' sockets, and one
  process per socket, which forwards frames to its peers. The runner trusts none of it: in the
  properties of the runner the relay is an arbitrary environment that chooses what arrives, when, how
  often and under which routing label. In the properties of the relay it is the code of the
  repository. The page in the browser takes the session and the secret from its address, derives the
  same keys, shows what it can open and sends what is typed once it was granted control; it trusts the
  relay as little as the runner does.

  \<^bold>\<open>The runner's theories, in the order of the imports.\<close>

  \<^item> \<open>Prelude\<close>: bytes, Go's fixed-width integers as words, big-endian codecs,
    \<open>last_n\<close>, UTF-8 validity, decimal printing; the collections \<open>codec\<close>,
    \<open>frame\<close> and \<open>inv_intro\<close>.
  \<^item> \<open>Wire\<close>: \<^verbatim>\<open>protocol/wire.go\<close>, every constant and codec.
    A decoder is a sum of its error and its result. The lemmas on the two viewer envelopes come from the
    locale \<open>id_envelope\<close>, interpreted on both.
  \<^item> \<open>StdCrypto\<close>, \<open>Encoding\<close>: the parts of Go's standard library the
    runner calls for keys, frames and text encodings (SHA-256, HMAC, HKDF, PBKDF2, AES, GCM, base32,
    base64) as executable definitions, and that base64 decodes what it encodes. The locale
    \<open>aead\<close> is what the protocol relies on, proved for GCM over any block cipher.
  \<^item> \<open>Crypto\<close>: \<^verbatim>\<open>protocol/crypto.go\<close>, on top of the
    interpretation \<open>gcm\<close>.
  \<^item> \<open>Ring\<close>, \<open>PtySession\<close>:
    \<^verbatim>\<open>ptysession/ring.go\<close> and \<^verbatim>\<open>ptysession/session.go\<close>.
    The locale \<open>resume_buffer\<close> is what a repaint relies on, interpreted on the ring. The
    operating system is seen through what the session does to it.
  \<^item> \<open>Screen\<close>: the screen-activity scanner of \<^verbatim>\<open>runner.go\<close>.
  \<^item> \<open>Url\<close>, \<open>Json\<close>, \<open>JsonText\<close>, \<open>Duration\<close>,
    \<open>Strings\<close>: what the runner uses of \<^verbatim>\<open>net/url\<close>,
    \<^verbatim>\<open>path\<close>, \<^verbatim>\<open>net\<close>,
    \<^verbatim>\<open>encoding/json\<close>, \<^verbatim>\<open>time\<close> (with the float64 rounding
    of \<^verbatim>\<open>Seconds\<close>), \<^verbatim>\<open>strings\<close> and
    \<^verbatim>\<open>strconv\<close>. \<open>JsonText\<close> proves that what
    \<^verbatim>\<open>json.Marshal\<close> writes is read back.
  \<^item> \<open>RelayClient\<close>: \<^verbatim>\<open>relayclient/client.go\<close>: the checks on
    the relay's address, the create request and its answers, the dial and the classes of a failed
    handshake, the link.
  \<^item> \<open>Orchestrator\<close>, \<open>Sender\<close>: the state record \<open>Orch\<close>
    with the fields of \<^verbatim>\<open>runner.Orchestrator\<close> and of the current
    \<^verbatim>\<open>connState\<close>, and every handler, one definition per Go method and under its
    name; the sender goroutine, repaints, and \<^verbatim>\<open>serveConn\<close> split at the points
    where another goroutine can see the state.
  \<^item> \<open>Control\<close>: the abstract machine \<open>ctl_step\<close> of terminal control
    and the locale \<open>control_lock\<close> of the systems that refine it, with the promises of the
    three control modes proved inside it.
  \<^item> \<open>Steps\<close>: the interleavings of the goroutines, \<open>orch_step\<close>, and
    the interpretation of \<open>control_lock\<close> on them.
  \<^item> \<open>Examples\<close>: concrete sessions, viewers and frames, with real keys, used by the
    witnesses.
  \<^item> \<open>Replay\<close>: the locale \<open>replay_guard\<close> of a reader that refuses
    replayed frames, interpreted on the runner in \<open>Security\<close> and on the page in
    \<open>BrowserSafe\<close>.
  \<^item> \<open>Security\<close>, \<open>Invariants\<close>, \<open>Delivery\<close>: the properties
    of the orchestrator.
  \<^item> \<open>Races\<close>: viewer frames and revocation at the grain of their locked regions.
  \<^item> \<open>Reconnect\<close>: \<^verbatim>\<open>reclaimTTL\<close> and what
    \<^verbatim>\<open>connectLoop\<close> does with the answer to a handshake and to a re-claim.
  \<^item> \<open>Lifecycle\<close>: \<^verbatim>\<open>Run\<close> with everything it starts: a step
    relation for its own goroutines (\<open>goroutine_step\<close>), one for
    \<^verbatim>\<open>connectLoop\<close> (\<open>loop_step\<close>) and one for
    \<^verbatim>\<open>serveConn\<close> with reader and sender (\<open>serve_step\<close>), each moving
    its goroutine's position and calling the handlers; the exit code, and that every such run is one of
    \<open>orch_step\<close>.
  \<^item> \<open>Ending\<close>, \<open>Resume\<close>: that \<^verbatim>\<open>Run\<close> returns,
    by a rank its own steps decrease, and what the reconnect loop keeps and how long it waits.
  \<^item> \<open>Qr\<close>, \<open>CliText\<close>, \<open>Cli\<close>, \<open>Flags\<close>:
    \<^verbatim>\<open>cmd/onlytty/qr.go\<close> and \<^verbatim>\<open>cmd/onlytty/main.go\<close>: the
    QR code, the texts, \<^verbatim>\<open>run\<close> up to the point where the orchestrator starts
    (\<open>prepare\<close>), and the parsing of the arguments into flags (\<open>run_main\<close>).
  \<^item> \<open>Soak\<close>: \<^verbatim>\<open>cmd/soak\<close>: the load harness, its viewer, its
    memory sampler and its verdict.

  \<^bold>\<open>The relay's theories.\<close>

  \<^item> \<open>PortalSession\<close>, \<open>PortalSocket\<close>:
    \<^verbatim>\<open>onlytty/session.ex\<close> and
    \<^verbatim>\<open>onlytty_web/onlytty_socket.ex\<close>: a definition per clause of a callback,
    from a state and a message to the messages sent and the next state.
  \<^item> \<open>RelayNet\<close>: one session with its sockets, mailboxes and monitors as a
    transition system, \<open>relay_step\<close>.
  \<^item> \<open>RelayRouting\<close>, \<open>RelayTrack\<close>, \<open>RelayGuard\<close>: its
    invariants: where every queued frame comes from, who is known to whom, and who is attached,
    monitored or about to close.
  \<^item> \<open>RelayText\<close>, \<open>RelayView\<close>: the relay's JSON as the runner reads
    it, and what the runner has been told. The package Jason is a parameter; the locale
    \<open>control_text\<close> is what both sides rely on, and its interpretation shows the law to hold
    for Go's own encoder.
  \<^item> \<open>Relay\<close>: the properties of the relay's session.
  \<^item> \<open>PortalHttp\<close>: \<^verbatim>\<open>session_store.ex\<close>,
    \<^verbatim>\<open>session_controller.ex\<close>, \<^verbatim>\<open>socket_controller.ex\<close>
    and \<^verbatim>\<open>rate_limit.ex\<close>: who may create, re-claim and join a session, for how
    long and how often; with the runner's client on the other side.
  \<^item> \<open>Viewing\<close>: runner and relay together: what a viewer is shown.

  \<^bold>\<open>The viewer's theories.\<close>

  \<^item> \<open>Js\<close>: what the page uses of JavaScript and the browser: strings of UTF-16 code
    units, Numbers that hold integers, \<^verbatim>\<open>TextEncoder\<close>,
    \<^verbatim>\<open>atob\<close>, \<^verbatim>\<open>decodeURIComponent\<close>.
  \<^item> \<open>BrowserCrypto\<close>: \<^verbatim>\<open>wire.js\<close> and
    \<^verbatim>\<open>crypto.js\<close>, and that they agree with the Go code: the same kinds, sealed
    frames, keys, base32 and base64.
  \<^item> \<open>Browser\<close>: \<^verbatim>\<open>keys.js\<close> and
    \<^verbatim>\<open>app.js\<close>: the module's variables are the record \<open>Browser\<close>, a
    handler is a definition under its name, and \<open>b_step\<close> is one event: of a socket, a
    timer, a seal that finished, or the user.
  \<^item> \<open>BrowserSafe\<close>, \<open>Quiet\<close>: what the page promises on its own.
  \<^item> \<open>EndToEnd\<close>, \<open>Typing\<close>: runner, relay and page together: from the
    link to the keys, from the host's terminal to the page's, and from the page's keyboard to the
    command.

  \<^bold>\<open>What the lemmas show.\<close> Codecs and frames are exact: a decoder accepts what the
  encoder makes and nothing else (\<open>Wire\<close>, \<open>Crypto\<close>). Input is safe: only a
  fresh, genuine frame of the viewer that owns control reaches the PTY, a frame works once over all
  interleavings and reconnects, the host's control mode is kept for the whole session, and neither the
  relay's text nor its routing labels grant anything (\<open>Security\<close>, and at the grain of the
  locks \<open>Races\<close>). Output is private and useful: only sealed frames and the fixed goodbye
  leave (that GCM hides its plaintext is a computational fact and is not stated), a repaint shows the
  end of what the host saw, cut at a character, a viewer that joins or lost frames is repainted, and
  local mirroring never depends on the connection (\<open>Delivery\<close>, \<open>Invariants\<close>,
  \<open>Viewing\<close>, which also proves that a repaint can repeat output that was still queued).
  The life cycle: queues stay bounded, the exit code and the teardown agree, the reconnect loop keeps
  the session's identity, keys, floors and deadline and doubles its waits up to a bound, and once the
  command is dead or the context done \<^verbatim>\<open>Run\<close> returns under every schedule
  (\<open>Invariants\<close>, \<open>Reconnect\<close>, \<open>Lifecycle\<close>,
  \<open>Ending\<close>, \<open>Resume\<close>). The command line builds the session the flags ask
  for, and every setting can be said as flags (\<open>Cli\<close>, \<open>Flags\<close>).

  The relay keeps its side: a viewer's frame reaches the runner under that viewer's own id and
  unchanged, output reaches only the viewers it is for, the viewer limit holds over all joins, drops
  and replacements, every socket that is not attached is told to close, and a runner that read
  everything counts the viewers the relay counts (\<open>Relay\<close>). Runner and relay agree on
  creating and re-claiming a session, nobody else takes it over, its expiry is within the bounds and
  the answered one differs from it only by the seconds between two readings of the clock, and the rate
  limit holds (\<open>PortalHttp\<close>).

  The page shows every frame once, sends input only with control and no long paste unasked, stops
  trying to reach a session that is gone, and is silent once it was left (\<open>BrowserSafe\<close>,
  \<open>Quiet\<close>). Opened at the link it has the runner's keys and fingerprint, and joining it
  shows the runner's terminal (\<open>EndToEnd\<close>); its user is granted control and types into
  the command, and input is lost if two seals finish in the other order than they were started
  (\<open>Typing\<close>).

  \<^bold>\<open>The grain of the steps.\<close> A step of \<open>orch_step\<close> is one handler run
  to its end: one message read, one case of the sender's select, one chunk pumped.
  \<open>Races\<close> refines the reader's handling of a sealed frame and the host's revocation into
  their locked regions and calls, with every other goroutine between them; text messages and a case of
  the sender's select are still one step there. \<open>run_step\<close> has the steps of
  \<open>orch_step\<close>, each made by the goroutine that makes it in the code, at its position and
  under the guards of the code; its label says whether the runner makes the step by itself or
  something outside is needed. That a read, a handshake and a request with a cancelled context fail,
  and that a write ends, is the documented behaviour of the libraries and is built into it. A step of
  \<open>relay_step\<close> is one message handled by one process, and messages arrive in the order
  they were sent, as on one node. A step of \<open>b_step\<close> is one event on the page, run to the
  end of its handler; sealing ends in a step of its own, opening a frame and deriving keys do not. The
  Go memory model is not part of the development.

  \<^bold>\<open>Bounds and fuel.\<close> The resume ring holds \<open>ringBytes\<close> (256 KiB) and
  each queue \<open>sendQueue\<close> (256) entries, as in the code. Sequence numbers are 64-bit words
  and wrap. Most loops are structural or have a measure. \<open>parse_json\<close> recurses on fuel,
  one unit per value or list element, and gets more than twice the bytes of the input, so that every
  element, which takes at least a byte, has its unit; \<open>JsonText\<close> proves it enough for
  what the encoder writes. \<open>fingerprint_loop\<close> and \<open>duration_terms\<close> get the
  length of the string, and each round removes a character at least.
  \<^verbatim>\<open>connectLoop\<close> need not end while the session lasts: it is a step relation,
  its properties hold in every state of every run, and 529 is the rank of the largest state, two full
  queues included. \<open>decode_uri\<close> gets the length of its string. JavaScript numbers are
  rounded to doubles by \<open>num\<close>, exact below 2^53, where the properties that span both
  languages hold.

  \<^bold>\<open>Arguments of the model.\<close> The clock, the random source, the operating system's
  answers, in the runner's properties the relay's answers, the choice of a
  \<^verbatim>\<open>select\<close> with several ready cases, the QR library's matrix, Jason's encoder
  and decoder and the host that \<^verbatim>\<open>URI.parse\<close> finds in an Origin header are
  arguments of the definitions that use them; on the page the random bytes, the fitted size of the
  terminal, the answer to a question and the stored fingerprint are the record \<open>benv\<close>.

  \<^bold>\<open>Not modelled.\<close> In the runner: the texts of the command line's errors, terminal
  modes, the soak harness's progress line and the floating-point product that decides how many viewers
  a storm bounces (an argument), Go's 64 GiB limit on a GCM message and the range of
  \<^verbatim>\<open>time.Time\<close>. In the relay: clustering and the loss of a node, the drain
  signal (its message to the sessions is modelled), the answer to a request that races with the end of
  its session, metrics and logs, the resolution of a client's address, response headers and the site's
  pages. In the viewer: the countdown to the expiry, fonts, menus, the editor of shortcuts, the wake
  lock, xterm itself and all styling, and the two codecs that the page does not use.
\<close>

end
